(* ===== verification/Prelude.thy ===== *)
theory Prelude
  imports Complex_Main "HOL-Library.AList" "HOL-Library.Char_ord"
    "HOL-Library.List_Lexorder" "HOL-Library.Product_Lexorder"
begin

text \<open>
  What every component of the broker model shares: the types that stand for Python's
  numbers, timestamps and insertion-ordered dictionaries, the error-sum combinators, the
  named theorem collections, and the generic lemmas on lists, stable sorting and
  dictionaries that the component theories use.

  Python floats that are times, durations or rates are exact rationals (\<open>rat\<close>); IEEE
  rounding is not modelled. Where infinities and NaN matter the theory \<open>Backoff\<close> has a type
  of its own. A \<open>datetime\<close> is a number of microseconds, tagged aware (already normalised to
  UTC) or naive, because the code rejects naive ones. A string is a list of characters,
  that is, the code points 0 to 255.
\<close>

named_theorems inv_intros \<open>one operation keeps one invariant\<close>
named_theorems step_frames \<open>what an operation leaves unchanged\<close>
named_theorems guard_simps \<open>an operation's rejected branches\<close>

type_synonym seconds = rat
type_synonym instant = int

datatype datetime = Aware (utc_micros: instant) | Naive (local_micros: instant)

fun is_aware :: "datetime \<Rightarrow> bool" where
  "is_aware (Aware _) = True"
| "is_aware (Naive _) = False"

subsection \<open>timedelta(seconds=...)\<close>

text \<open>A duration in seconds becomes whole microseconds, rounding halves to even.\<close>

definition round_half_even :: "rat \<Rightarrow> int" where
  "round_half_even x =
     (let f = \<lfloor>x\<rfloor>; d = x - of_int f
      in if d < 1 / 2 then f
         else if 1 / 2 < d then f + 1
         else if even f then f else f + 1)"

definition micros_of_seconds :: "seconds \<Rightarrow> int" where
  "micros_of_seconds s = round_half_even (1000000 * s)"

lemma round_half_even_of_int [simp]: "round_half_even (of_int n) = n"
  by (simp add: round_half_even_def)

lemma round_half_even_ge: "of_int n \<le> x \<Longrightarrow> n \<le> round_half_even x"
proof -
  assume "of_int n \<le> x"
  then have "n \<le> \<lfloor>x\<rfloor>" by (simp add: le_floor_iff)
  then show ?thesis by (simp add: round_half_even_def Let_def)
qed

lemma micros_of_seconds_nonneg: "0 \<le> s \<Longrightarrow> 0 \<le> micros_of_seconds s"
  unfolding micros_of_seconds_def by (rule round_half_even_ge) simp

subsection \<open>Result sums\<close>

fun is_ok :: "'e + 'a \<Rightarrow> bool" where
  "is_ok (Inl _) = False"
| "is_ok (Inr _) = True"

lemma is_ok_iff: "is_ok r \<longleftrightarrow> (\<exists>x. r = Inr x)"
  by (cases r) auto

lemma not_is_ok_iff: "\<not> is_ok r \<longleftrightarrow> (\<exists>e. r = Inl e)"
  by (cases r) auto

lemma result_InrE:
  "case x of Inl _ \<Rightarrow> False | Inr y \<Rightarrow> P y \<Longrightarrow> (\<And>y. x = Inr y \<Longrightarrow> P y \<Longrightarrow> thesis) \<Longrightarrow> thesis"
  by (cases x) auto

subsection \<open>Python dictionaries\<close>

text \<open>
  A dictionary keeps insertion order and several operations of the code depend on it, so it
  is an association list with distinct keys. Assignment to a present key keeps the key's
  place (\<open>AList.update\<close>), to an absent key appends; \<open>del\<close> and \<open>pop\<close> are \<open>AList.delete\<close>.
\<close>

type_synonym ('k, 'v) dict = "('k \<times> 'v) list"

abbreviation dict_get :: "('k, 'v) dict \<Rightarrow> 'k \<Rightarrow> 'v option" where
  "dict_get \<equiv> map_of"

abbreviation dict_set :: "'k \<Rightarrow> 'v \<Rightarrow> ('k, 'v) dict \<Rightarrow> ('k, 'v) dict" where
  "dict_set \<equiv> AList.update"

abbreviation dict_del :: "'k \<Rightarrow> ('k, 'v) dict \<Rightarrow> ('k, 'v) dict" where
  "dict_del \<equiv> AList.delete"

definition dict_keys :: "('k, 'v) dict \<Rightarrow> 'k list" where
  "dict_keys d = map fst d"

definition dict_values :: "('k, 'v) dict \<Rightarrow> 'v list" where
  "dict_values d = map snd d"

definition dict_ok :: "('k, 'v) dict \<Rightarrow> bool" where
  "dict_ok d \<longleftrightarrow> distinct (map fst d)"

definition dict_has :: "('k, 'v) dict \<Rightarrow> 'k \<Rightarrow> bool" where
  "dict_has d k \<longleftrightarrow> dict_get d k \<noteq> None"

lemma dict_ok_Nil [simp]: "dict_ok []"
  by (simp add: dict_ok_def)

lemma dict_ok_set [inv_intros]: "dict_ok d \<Longrightarrow> dict_ok (dict_set k v d)"
  by (simp add: dict_ok_def distinct_update)

lemma dict_ok_del [inv_intros]: "dict_ok d \<Longrightarrow> dict_ok (dict_del k d)"
  by (simp add: dict_ok_def distinct_delete)

lemma dict_ok_filter [inv_intros]: "dict_ok d \<Longrightarrow> dict_ok (filter P d)"
  by (simp add: dict_ok_def distinct_map_filter)

lemma dict_get_set [simp]:
  "dict_get (dict_set k v d) k' = (if k' = k then Some v else dict_get d k')"
  by (simp add: update_conv')

lemma dict_get_del [simp]:
  "dict_get (dict_del k d) k' = (if k' = k then None else dict_get d k')"
  by (simp add: delete_conv')

lemma dict_get_SomeD: "dict_get d k = Some v \<Longrightarrow> (k, v) \<in> set d"
  by (rule map_of_SomeD)

lemma dict_get_eq_Some: "dict_ok d \<Longrightarrow> dict_get d k = Some v \<longleftrightarrow> (k, v) \<in> set d"
  by (auto simp: dict_ok_def dest: map_of_SomeD)

lemma dict_get_filter:
  "dict_ok d \<Longrightarrow>
   dict_get (filter P d) k = (case dict_get d k of None \<Rightarrow> None | Some v \<Rightarrow> if P (k, v) then Some v else None)"
proof (induction d)
  case Nil
  then show ?case by simp
next
  case (Cons kv d)
  obtain k' v' where kv: "kv = (k', v')" by (cases kv)
  from Cons.prems kv have ok: "dict_ok d" and fresh: "dict_get d k' = None"
    by (auto simp: dict_ok_def map_of_eq_None_iff)
  from Cons.IH [OF ok] fresh show ?case
    by (cases "k = k'") (auto simp: kv)
qed

lemma length_dict_set:
  "length (dict_set k v d) = (if dict_has d k then length d else Suc (length d))"
  by (induction d) (auto simp: dict_has_def)

lemma length_dict_del_le: "length (dict_del k d) \<le> length d"
  by (simp add: length_delete_le)

lemma dict_set_fresh: "dict_get d k = None \<Longrightarrow> dict_set k v d = d @ [(k, v)]"
  by (induction d) (auto split: if_splits)

lemma set_dict_set_subset: "set (dict_set k v d) \<subseteq> insert (k, v) (set d)"
  by (induction d) auto

lemma set_dict_del_subset: "set (dict_del k d) \<subseteq> set d"
  by (simp add: AList.delete_eq)

lemma distinct_map_dict_set:
  "distinct (map f d) \<Longrightarrow> f (k, v) \<notin> f ` set d \<Longrightarrow> distinct (map f (dict_set k v d))"
proof (induction d)
  case Nil
  then show ?case by simp
next
  case (Cons kv d)
  obtain k' v' where kv: "kv = (k', v')" by (cases kv)
  from Cons kv show ?case
    using set_dict_set_subset [of k v d] by (auto simp: image_iff)
qed

lemma distinct_map_dict_del: "distinct (map f d) \<Longrightarrow> distinct (map f (dict_del k d))"
  by (induction d) (auto simp: AList.delete_eq)

subsection \<open>Stable sorting\<close>

lemma sort_key_filter: "filter P (sort_key f xs) = sort_key f (filter P xs)"
  by (rule filter_sort)

lemma sorted_sort_key: "sorted (map f (sort_key f xs))"
  by simp

lemma sort_key_append_last:
  "(\<And>x. x \<in> set xs \<Longrightarrow> f x \<le> f y) \<Longrightarrow> sorted (map f xs) \<Longrightarrow> sort_key f (xs @ [y]) = xs @ [y]"
  by (rule sort_key_id_if_sorted) (auto simp: sorted_append)

lemma hd_sort_key_le:
  "x \<in> set xs \<Longrightarrow> f (hd (sort_key f xs)) \<le> f x"
proof -
  assume x: "x \<in> set xs"
  then have ne: "sort_key f xs \<noteq> []" by (metis empty_iff list.set(1) set_sort)
  have "sorted (map f (sort_key f xs))" by simp
  moreover have "x \<in> set (sort_key f xs)" using x by simp
  ultimately show ?thesis using ne
    by (cases "sort_key f xs") auto
qed

subsection \<open>Lists\<close>

lemma set_take_subset_set: "set (take n xs) \<subseteq> set xs"
  by (rule set_take_subset)

text \<open>\<open>dict.fromkeys\<close> keeps the first occurrence of every element, in order.\<close>

fun from_keys_acc :: "'a list \<Rightarrow> 'a list \<Rightarrow> 'a list" where
  "from_keys_acc seen [] = []"
| "from_keys_acc seen (x # xs) =
     (if x \<in> set seen then from_keys_acc seen xs else x # from_keys_acc (x # seen) xs)"

definition from_keys :: "'a list \<Rightarrow> 'a list" where
  "from_keys xs = from_keys_acc [] xs"

lemma set_from_keys_acc: "set (from_keys_acc seen xs) = set xs - set seen"
  by (induction seen xs rule: from_keys_acc.induct) auto

lemma distinct_from_keys_acc: "distinct (from_keys_acc seen xs)"
  by (induction seen xs rule: from_keys_acc.induct) (auto simp: set_from_keys_acc)

lemma set_from_keys [simp]: "set (from_keys xs) = set xs"
  by (simp add: from_keys_def set_from_keys_acc)

lemma distinct_from_keys [simp]: "distinct (from_keys xs)"
  by (simp add: from_keys_def distinct_from_keys_acc)

lemma from_keys_acc_distinct:
  "distinct xs \<Longrightarrow> set xs \<inter> set seen = {} \<Longrightarrow> from_keys_acc seen xs = xs"
  by (induction seen xs rule: from_keys_acc.induct) auto

lemma from_keys_distinct: "distinct xs \<Longrightarrow> from_keys xs = xs"
  by (simp add: from_keys_def from_keys_acc_distinct)

subsection \<open>Strings\<close>

text \<open>Python's \<open>str.isspace\<close> on the code points 0 to 255, and \<open>str.strip\<close>.\<close>

definition is_space :: "char \<Rightarrow> bool" where
  "is_space c \<longleftrightarrow>
     (let n = of_char c :: nat in 9 \<le> n \<and> n \<le> 13 \<or> 28 \<le> n \<and> n \<le> 32 \<or> n = 133 \<or> n = 160)"

definition strip :: "string \<Rightarrow> string" where
  "strip s = rev (dropWhile is_space (rev (dropWhile is_space s)))"

definition blank :: "string \<Rightarrow> bool" where
  "blank s \<longleftrightarrow> strip s = []"

lemma strip_ends:
  "strip s \<noteq> [] \<Longrightarrow> \<not> is_space (last (strip s))"
proof -
  let ?r = "dropWhile is_space (rev (dropWhile is_space s))"
  assume "strip s \<noteq> []"
  then have "?r \<noteq> []" by (simp add: strip_def)
  then show ?thesis
    by (simp add: strip_def last_rev hd_dropWhile)
qed

lemma strip_id: "(\<And>c. c \<in> set s \<Longrightarrow> \<not> is_space c) \<Longrightarrow> strip s = s"
proof -
  assume ns: "\<And>c. c \<in> set s \<Longrightarrow> \<not> is_space c"
  have "dropWhile is_space s = s"
    using ns by (auto simp: dropWhile_eq_self_iff)
  moreover have "dropWhile is_space (rev s) = rev s"
    using ns by (auto simp: dropWhile_eq_self_iff hd_rev)
  ultimately show ?thesis by (simp add: strip_def)
qed

lemma set_strip_subset: "set (strip s) \<subseteq> set s"
  unfolding strip_def by (auto dest!: set_dropWhileD)

end
