(* ===== verification/Exceptions.thy ===== *)
theory Exceptions
  imports Prelude
begin

text \<open>
  The exception hierarchy of \<open>broka/exceptions.py\<close> together with the built-in classes the
  modelled code raises, catches or classifies. A raised error is its class and the
  \<open>retryable\<close> flag of \<open>PyevError\<close>; messages and context dictionaries are not modelled.
  \<open>isinstance\<close> is reachability along the parent links.
\<close>

datatype exc_class =
    BaseException | CancelledError | KeyboardInterrupt | SystemExit
  | Exception | ValueError | TypeError | KeyError | LookupError | RuntimeError
  | ArithmeticError | OverflowError | OSError | TimeoutError | AssertionError
  | PyevError | ConfigurationError | LifecycleError
  | RegistryError | DuplicateRegistrationError | PluginLoadError
  | EventRegistrationError | UnknownEventError
  | EngineError | EngineUnavailableError | ConnectionError | PublishError | ConsumeError
  | UnsupportedCapabilityError
  | SerializationError | UnsafeSerializationError | MessageValidationError
  | RoutingError | MiddlewareError
  | AcknowledgementError | InvalidStateTransitionError
  | RetryExhaustedError | CircuitOpenError | DeadLetterError | RequestTimeoutError
  | MemoryBackpressureError
  | UserException nat

fun parent :: "exc_class \<Rightarrow> exc_class option" where
  "parent BaseException = None"
| "parent CancelledError = Some BaseException"
| "parent KeyboardInterrupt = Some BaseException"
| "parent SystemExit = Some BaseException"
| "parent Exception = Some BaseException"
| "parent ValueError = Some Exception"
| "parent TypeError = Some Exception"
| "parent LookupError = Some Exception"
| "parent KeyError = Some LookupError"
| "parent RuntimeError = Some Exception"
| "parent ArithmeticError = Some Exception"
| "parent OverflowError = Some ArithmeticError"
| "parent OSError = Some Exception"
| "parent TimeoutError = Some OSError"
| "parent AssertionError = Some Exception"
| "parent PyevError = Some Exception"
| "parent ConfigurationError = Some PyevError"
| "parent LifecycleError = Some PyevError"
| "parent RegistryError = Some PyevError"
| "parent DuplicateRegistrationError = Some RegistryError"
| "parent PluginLoadError = Some RegistryError"
| "parent EventRegistrationError = Some RegistryError"
| "parent UnknownEventError = Some RegistryError"
| "parent EngineError = Some PyevError"
| "parent EngineUnavailableError = Some EngineError"
| "parent ConnectionError = Some EngineError"
| "parent PublishError = Some EngineError"
| "parent ConsumeError = Some EngineError"
| "parent UnsupportedCapabilityError = Some EngineError"
| "parent SerializationError = Some PyevError"
| "parent UnsafeSerializationError = Some SerializationError"
| "parent MessageValidationError = Some PyevError"
| "parent RoutingError = Some PyevError"
| "parent MiddlewareError = Some PyevError"
| "parent AcknowledgementError = Some PyevError"
| "parent InvalidStateTransitionError = Some AcknowledgementError"
| "parent RetryExhaustedError = Some PyevError"
| "parent CircuitOpenError = Some PyevError"
| "parent DeadLetterError = Some PyevError"
| "parent RequestTimeoutError = Some PyevError"
| "parent MemoryBackpressureError = Some RuntimeError"
| "parent (UserException _) = Some Exception"

text \<open>The length of the chain of parents, by at most five unfoldings.\<close>

fun exc_rank_upto :: "nat \<Rightarrow> exc_class \<Rightarrow> nat" where
  "exc_rank_upto 0 c = 0"
| "exc_rank_upto (Suc n) c = (case parent c of None \<Rightarrow> 0 | Some p \<Rightarrow> Suc (exc_rank_upto n p))"

definition exc_rank :: "exc_class \<Rightarrow> nat" where
  "exc_rank c = exc_rank_upto 6 c"

lemma exc_rank_parent: "parent c = Some p \<Longrightarrow> exc_rank p < exc_rank c"
  by (cases c) (auto simp: exc_rank_def numeral_eq_Suc)

function is_subclass :: "exc_class \<Rightarrow> exc_class \<Rightarrow> bool" where
  "is_subclass c d = (c = d \<or> (case parent c of None \<Rightarrow> False | Some p \<Rightarrow> is_subclass p d))"
  by pat_completeness auto
termination
  by (relation "measure (\<lambda>(c, d). exc_rank c)") (auto simp: exc_rank_parent)

declare is_subclass.simps [simp del]

lemma is_subclass_refl [simp]: "is_subclass c c"
  by (subst is_subclass.simps) simp

lemma is_subclass_step: "parent c = Some p \<Longrightarrow> is_subclass c d \<longleftrightarrow> c = d \<or> is_subclass p d"
  by (subst is_subclass.simps) simp

lemma is_subclass_trans: "is_subclass a b \<Longrightarrow> is_subclass b c \<Longrightarrow> is_subclass a c"
proof (induction a b rule: is_subclass.induct)
  case (1 a b)
  show ?case
  proof (cases "a = b")
    case True
    with 1 show ?thesis by simp
  next
    case False
    with "1.prems"(1) obtain p where p: "parent a = Some p" "is_subclass p b"
      by (subst (asm) is_subclass.simps) (auto split: option.splits)
    with 1 show ?thesis by (simp add: is_subclass_step)
  qed
qed

lemma is_subclass_BaseException [simp]: "is_subclass c BaseException"
proof (induction c "BaseException" rule: is_subclass.induct)
  case (1 c)
  then show ?case by (cases c) (auto simp: is_subclass_step)
qed

subsection \<open>Raised errors\<close>

datatype pyexc = PyExc (exc_cls: exc_class) (retryable_attr: bool)

type_synonym 'a result = "pyexc + 'a"

text \<open>An awaited call: it changes the world it runs in, and returns or raises.\<close>

type_synonym 'w action = "'w \<Rightarrow> unit result \<times> 'w"

text \<open>One call after another: an exception of the first ends the sequence.\<close>

definition andthen ::
  "('w \<Rightarrow> 'a result \<times> 'w) \<Rightarrow> ('a \<Rightarrow> 'w \<Rightarrow> 'b result \<times> 'w) \<Rightarrow> 'w \<Rightarrow> 'b result \<times> 'w"
where
  "andthen m f w = (case m w of (Inl e, w') \<Rightarrow> (Inl e, w') | (Inr x, w') \<Rightarrow> f x w')"

lemma andthen_Inr [simp]: "m w = (Inr x, w') \<Longrightarrow> andthen m f w = f x w'"
  by (simp add: andthen_def)

lemma andthen_Inl [simp]: "m w = (Inl e, w') \<Longrightarrow> andthen m f w = (Inl e, w')"
  by (simp add: andthen_def)

definition isinstance :: "pyexc \<Rightarrow> exc_class \<Rightarrow> bool" where
  "isinstance e c = is_subclass (exc_cls e) c"

abbreviation raise :: "exc_class \<Rightarrow> 'a result" where
  "raise c \<equiv> Inl (PyExc c False)"

text \<open>\<open>isinstance(exc, PyevError) and exc.retryable\<close>.\<close>

definition retryable_of :: "pyexc \<Rightarrow> bool" where
  "retryable_of e \<longleftrightarrow> isinstance e PyevError \<and> retryable_attr e"

text \<open>What an \<open>except Exception\<close> clause catches; cancellation and exits are not in it.\<close>

abbreviation is_exception :: "pyexc \<Rightarrow> bool" where
  "is_exception e \<equiv> isinstance e Exception"

lemma isinstance_simps [simp]:
  "isinstance (PyExc CancelledError r) Exception = False"
  "isinstance (PyExc KeyboardInterrupt r) Exception = False"
  "isinstance (PyExc SystemExit r) Exception = False"
  "isinstance (PyExc TimeoutError r) OSError = True"
  "isinstance (PyExc RuntimeError r) Exception = True"
  "isinstance (PyExc ValueError r) Exception = True"
  "isinstance (PyExc (UserException n) r) Exception = True"
  by (simp_all add: isinstance_def is_subclass.simps)

lemma isinstance_trans: "isinstance e a \<Longrightarrow> is_subclass a b \<Longrightarrow> isinstance e b"
  by (auto simp: isinstance_def intro: is_subclass_trans)

lemma pyev_is_exception: "isinstance e PyevError \<Longrightarrow> is_exception e"
  by (erule isinstance_trans) (simp add: is_subclass.simps)

lemma isinstance_same [simp]: "isinstance (PyExc c r) c"
  by (simp add: isinstance_def)

lemma is_pyev_class:
  "is_subclass UnsupportedCapabilityError PyevError"
  "is_subclass AcknowledgementError PyevError"
  "is_subclass InvalidStateTransitionError PyevError"
  by (simp_all add: is_subclass.simps)

lemma isinstance_PyevError [simp]:
  "isinstance (PyExc AcknowledgementError r) PyevError"
  "isinstance (PyExc UnsupportedCapabilityError r) PyevError"
  "isinstance (PyExc InvalidStateTransitionError r) PyevError"
  by (simp_all add: isinstance_def is_pyev_class)

end
