(* ===== verification/Glob.thy ===== *)
theory Glob
  imports Prelude
begin

text \<open>
  \<open>fnmatch.fnmatchcase\<close> of the Python standard library, which route matching, the in-process
  engines and the dead-letter filter call: shell patterns with \<open>*\<close>, \<open>?\<close>, \<open>[seq]\<close> and
  \<open>[!seq]\<close>. \<open>tokenise\<close> follows \<open>fnmatch.translate\<close> (where a bracket closes, how a hyphen
  splits a class into chunks, how empty ranges disappear); \<open>glob_match\<close> gives the tokens the
  meaning of the regular expression that \<open>translate\<close> would build.
\<close>

datatype class_item = Single char | Range char char

datatype glob_token = TStar | TAny | TLit char | TClass bool "class_item list"

subsection \<open>Bracket expressions\<close>

fun until_bracket :: "string \<Rightarrow> (string \<times> string) option" where
  "until_bracket [] = None"
| "until_bracket (c # cs) =
     (if c = CHR '']'' then Some ([], cs)
      else map_option (\<lambda>(a, b). (c # a, b)) (until_bracket cs))"

definition class_split :: "string \<Rightarrow> (string \<times> string) option" where
  "class_split cs =
     (let (p1, r1) = (case cs of c # r \<Rightarrow> if c = CHR ''!'' then ([c], r) else ([], cs) | [] \<Rightarrow> ([], []));
          (p2, r2) = (case r1 of c # r \<Rightarrow> if c = CHR '']'' then (p1 @ [c], r) else (p1, r1) | [] \<Rightarrow> (p1, r1))
      in map_option (\<lambda>(a, b). (p2 @ a, b)) (until_bracket r2))"

lemma until_bracket_shorter: "until_bracket cs = Some (a, b) \<Longrightarrow> length b < length cs"
  by (induction cs arbitrary: a) (auto split: if_splits dest: less_SucI)

lemma class_split_shorter: "class_split cs = Some (a, b) \<Longrightarrow> length b < length cs"
  by (auto simp: class_split_def split: list.splits if_splits prod.splits
        dest!: until_bracket_shorter)

fun index_of :: "char \<Rightarrow> string \<Rightarrow> nat option" where
  "index_of c [] = None"
| "index_of c (x # xs) = (if x = c then Some 0 else map_option Suc (index_of c xs))"

definition find_from :: "nat \<Rightarrow> char \<Rightarrow> string \<Rightarrow> nat option" where
  "find_from k c s = map_option (\<lambda>i. k + i) (index_of c (drop k s))"

lemma index_of_less: "index_of c s = Some i \<Longrightarrow> i < length s"
  by (induction s arbitrary: i) (auto split: if_splits)

lemma find_from_less: "find_from k c s = Some i \<Longrightarrow> i < length s"
  using index_of_less by (fastforce simp: find_from_def)

function dash_chunks :: "nat \<Rightarrow> string \<Rightarrow> string list" where
  "dash_chunks k s =
     (case find_from k (CHR ''-'') s of
        None \<Rightarrow> [s]
      | Some p \<Rightarrow>
          (let rest = drop (Suc p) s
           in if rest = [] then [s] else take p s # dash_chunks 2 rest))"
  by pat_completeness auto
termination
  by (relation "measure (\<lambda>(k, s). length s)") (auto dest: find_from_less)

declare dash_chunks.simps [simp del]

text \<open>Ranges whose ends are out of order vanish, from the right.\<close>

fun drop_empty_ranges :: "string list \<Rightarrow> string list" where
  "drop_empty_ranges [] = []"
| "drop_empty_ranges (c # cs) =
     (case drop_empty_ranges cs of
        [] \<Rightarrow> [c]
      | d # ds \<Rightarrow> if hd d < last c then (butlast c @ tl d) # ds else c # d # ds)"

datatype class_token = CLit char | CDash

fun join_chunks :: "string list \<Rightarrow> class_token list" where
  "join_chunks [] = []"
| "join_chunks [c] = map CLit c"
| "join_chunks (c # d # ds) = map CLit c @ CDash # join_chunks (d # ds)"

fun class_items :: "class_token list \<Rightarrow> class_item list" where
  "class_items [] = []"
| "class_items (CLit a # CDash # CLit b # r) = Range a b # class_items r"
| "class_items (CLit a # r) = Single a # class_items r"
| "class_items (CDash # r) = Single (CHR ''-'') # class_items r"

definition class_token_of :: "string \<Rightarrow> glob_token" where
  "class_token_of stuff =
     (let start = (if take 1 stuff = ''!'' then 2 else 1);
          toks = join_chunks (drop_empty_ranges (dash_chunks start stuff))
      in case toks of
           [] \<Rightarrow> TClass False []
         | t # ts \<Rightarrow> if t = CLit (CHR ''!'') then TClass True (class_items ts)
                    else TClass False (class_items toks))"

function tokenise :: "string \<Rightarrow> glob_token list" where
  "tokenise [] = []"
| "tokenise (c # cs) =
     (if c = CHR ''*'' then TStar # tokenise cs
      else if c = CHR ''?'' then TAny # tokenise cs
      else if c = CHR ''['' then
        (case class_split cs of
           None \<Rightarrow> TLit c # tokenise cs
         | Some (stuff, rest) \<Rightarrow> class_token_of stuff # tokenise rest)
      else TLit c # tokenise cs)"
  by pat_completeness auto
termination
  by (relation "measure length") (auto dest: class_split_shorter)

subsection \<open>Matching\<close>

fun in_item :: "char \<Rightarrow> class_item \<Rightarrow> bool" where
  "in_item c (Single x) = (c = x)"
| "in_item c (Range a b) = (a \<le> c \<and> c \<le> b)"

fun token_accepts :: "glob_token \<Rightarrow> char \<Rightarrow> bool" where
  "token_accepts TStar c = True"
| "token_accepts TAny c = True"
| "token_accepts (TLit x) c = (c = x)"
| "token_accepts (TClass neg items) c = (list_ex (in_item c) items \<noteq> neg)"

fun glob_match :: "glob_token list \<Rightarrow> string \<Rightarrow> bool" where
  "glob_match [] s = (s = [])"
| "glob_match (TStar # ts) [] = glob_match ts []"
| "glob_match (TStar # ts) (c # s) = (glob_match ts (c # s) \<or> glob_match (TStar # ts) s)"
| "glob_match (t # ts) [] = False"
| "glob_match (t # ts) (c # s) = (token_accepts t c \<and> glob_match ts s)"

definition fnmatchcase :: "string \<Rightarrow> string \<Rightarrow> bool" where
  "fnmatchcase name pat = glob_match (tokenise pat) name"

definition wildcard_char :: "char \<Rightarrow> bool" where
  "wildcard_char c \<longleftrightarrow> c \<in> set ''*?[''"

definition plain :: "string \<Rightarrow> bool" where
  "plain s \<longleftrightarrow> \<not> list_ex wildcard_char s"

lemma plain_Nil [simp]: "plain []"
  by (simp add: plain_def)

lemma plain_Cons [simp]: "plain (c # s) \<longleftrightarrow> \<not> wildcard_char c \<and> plain s"
  by (simp add: plain_def)

lemma plain_append [simp]: "plain (s @ t) \<longleftrightarrow> plain s \<and> plain t"
  by (simp add: plain_def)

lemma plain_no_wildcard: "plain s \<Longrightarrow> c \<in> set s \<Longrightarrow> \<not> wildcard_char c"
  by (auto simp: plain_def list_ex_iff)

lemma tokenise_plain_append: "plain p \<Longrightarrow> tokenise (p @ q) = map TLit p @ tokenise q"
  by (induction p) (auto simp: wildcard_char_def)

lemma glob_match_literals: "glob_match (map TLit p @ ts) s \<longleftrightarrow> (\<exists>r. s = p @ r \<and> glob_match ts r)"
proof (induction p arbitrary: s)
  case Nil
  then show ?case by simp
next
  case (Cons c p)
  then show ?case by (cases s) auto
qed

lemma glob_match_star: "glob_match [TStar] s"
  by (induction s) auto

lemma glob_match_star_iff: "glob_match (TStar # ts) s \<longleftrightarrow> (\<exists>a b. s = a @ b \<and> glob_match ts b)"
proof (induction s)
  case Nil
  then show ?case by simp
next
  case (Cons c s)
  show ?case
  proof
    assume "glob_match (TStar # ts) (c # s)"
    then have "glob_match ts (c # s) \<or> (\<exists>a b. s = a @ b \<and> glob_match ts b)"
      using Cons by simp
    then show "\<exists>a b. c # s = a @ b \<and> glob_match ts b"
      by (metis append_Cons append_Nil)
  next
    assume "\<exists>a b. c # s = a @ b \<and> glob_match ts b"
    then obtain a b where ab: "c # s = a @ b" "glob_match ts b" by blast
    then show "glob_match (TStar # ts) (c # s)"
      using Cons by (cases a) auto
  qed
qed

lemma fnmatchcase_star [simp]: "fnmatchcase name ''*''"
  by (simp add: fnmatchcase_def glob_match_star)

text \<open>A pattern without wildcards matches itself only.\<close>

lemma fnmatchcase_plain: "plain pat \<Longrightarrow> fnmatchcase name pat \<longleftrightarrow> name = pat"
  using tokenise_plain_append [of pat "[]"] glob_match_literals [of pat "[]" name]
  by (auto simp: fnmatchcase_def)

text \<open>A plain prefix followed by a star matches every extension of the prefix.\<close>

lemma fnmatchcase_prefix: "plain p \<Longrightarrow> fnmatchcase name (p @ ''*'') \<longleftrightarrow> (\<exists>r. name = p @ r)"
  using tokenise_plain_append [of p "''*''"] glob_match_literals [of p "[TStar]" name]
  by (auto simp: fnmatchcase_def glob_match_star)

end
