(* ===== verification/Routing.thy ===== *)
theory Routing
  imports Exceptions Glob
begin

text \<open>
  \<open>broka/routing/models.py\<close> and \<open>broka/routing/matching.py\<close>: routes, physical destinations,
  handler patterns, and the predicate that says whether a pattern matches a route. A Python
  type used as a pattern is a number; a message is the list of the types it is an instance of.
  The constructors raise as the code does, so they return results.
\<close>

datatype route_kind = RK_TOPIC | RK_DIRECT | RK_FANOUT | RK_BROADCAST | RK_REQUEST | RK_REPLY

datatype destination_kind =
    DK_QUEUE | DK_TOPIC | DK_EXCHANGE | DK_SUBJECT | DK_STREAM | DK_LOCAL | DK_REPLY

datatype pattern_kind = PK_EXACT | PK_WILDCARD | PK_NAMESPACE | PK_TYPE | PK_HEADERS

type_synonym headers = "(string, string) dict"
type_synonym header_items = "(string \<times> string) list"
type_synonym pytype = nat
type_synonym message = "pytype list"

definition control_char :: "char \<Rightarrow> bool" where
  "control_char c \<longleftrightarrow> (of_char c :: nat) < 32"

definition validate_name :: "bool \<Rightarrow> string \<Rightarrow> string result" where
  "validate_name allow_wildcards raw =
     (let value = strip raw
      in if value = [] then raise RoutingError
         else if 512 < length value then raise RoutingError
         else if list_ex (\<lambda>c. is_space c \<or> control_char c) value then raise RoutingError
         else if \<not> allow_wildcards \<and> list_ex wildcard_char value then raise RoutingError
         else Inr value)"

fun normalise_items :: "headers \<Rightarrow> header_items result" where
  "normalise_items [] = Inr []"
| "normalise_items ((k, v) # hs) =
     (let key = strip k
      in if key = [] then raise RoutingError
         else if list_ex control_char key then raise RoutingError
         else case normalise_items hs of Inl e \<Rightarrow> Inl e | Inr items \<Rightarrow> Inr ((key, v) # items))"

definition normalise_headers :: "headers \<Rightarrow> header_items result" where
  "normalise_headers hs =
     (case normalise_items hs of Inl e \<Rightarrow> Inl e | Inr items \<Rightarrow> Inr (sort_key (\<lambda>x. x) items))"

text \<open>\<open>dict(items)\<close>: a later item replaces an earlier one with the same key.\<close>

definition dict_of_items :: "header_items \<Rightarrow> headers" where
  "dict_of_items items = fold (\<lambda>(k, v) d. dict_set k v d) items []"

definition dict_merge :: "headers \<Rightarrow> headers \<Rightarrow> headers" where
  "dict_merge base extra = fold (\<lambda>(k, v) d. dict_set k v d) extra base"

record route =
  rt_name :: string
  rt_kind :: route_kind
  rt_headers :: header_items

definition new_route :: "string \<Rightarrow> route_kind \<Rightarrow> headers \<Rightarrow> route result" where
  "new_route name kind hs =
     (case validate_name False name of
        Inl e \<Rightarrow> Inl e
      | Inr n \<Rightarrow>
          (case normalise_headers hs of
             Inl e \<Rightarrow> Inl e
           | Inr items \<Rightarrow> Inr \<lparr>rt_name = n, rt_kind = kind, rt_headers = items\<rparr>))"

datatype route_like = RL_str string | RL_route route

fun parse_route :: "route_like \<Rightarrow> route result" where
  "parse_route (RL_route r) = Inr r"
| "parse_route (RL_str s) = new_route s RK_TOPIC []"

record destination =
  de_name :: string
  de_kind :: destination_kind
  de_engine :: "string option"
  de_options :: "(string \<times> string) list"

definition new_destination ::
  "string \<Rightarrow> destination_kind \<Rightarrow> string option \<Rightarrow> headers \<Rightarrow> destination result"
where
  "new_destination name kind engine options =
     (case validate_name False name of
        Inl e \<Rightarrow> Inl e
      | Inr n \<Rightarrow> Inr \<lparr>de_name = n, de_kind = kind, de_engine = engine,
                      de_options = sort_key (\<lambda>x. x) options\<rparr>)"

datatype pattern_value = PV_str string | PV_type pytype

record handler_pattern =
  hp_value :: pattern_value
  hp_kind :: pattern_kind
  hp_headers :: header_items
  hp_version :: "int option"

definition ends_with :: "string \<Rightarrow> string \<Rightarrow> bool" where
  "ends_with s suffix \<longleftrightarrow>
     length suffix \<le> length s \<and> drop (length s - length suffix) s = suffix"

definition remove_suffix :: "string \<Rightarrow> string \<Rightarrow> string" where
  "remove_suffix s suffix = (if ends_with s suffix then take (length s - length suffix) s else s)"

definition starts_with :: "string \<Rightarrow> string \<Rightarrow> bool" where
  "starts_with s prefix \<longleftrightarrow> take (length prefix) s = prefix"

definition infer_kind :: "string \<Rightarrow> pattern_kind" where
  "infer_kind v =
     (if ends_with v ''.*'' \<and> count_list v (CHR ''*'') = 1 then PK_NAMESPACE
      else if list_ex wildcard_char v then PK_WILDCARD
      else PK_EXACT)"

fun is_type_value :: "pattern_value \<Rightarrow> bool" where
  "is_type_value (PV_type _) = True"
| "is_type_value (PV_str _) = False"

definition new_pattern ::
  "pattern_value \<Rightarrow> pattern_kind option \<Rightarrow> headers \<Rightarrow> int option \<Rightarrow> handler_pattern result"
where
  "new_pattern value kind hs version =
     (if (case version of None \<Rightarrow> False | Some v \<Rightarrow> v < 1) then raise RoutingError
      else case (case value of
                   PV_type t \<Rightarrow> Inr (PV_type t, PK_TYPE)
                 | PV_str s \<Rightarrow>
                     (case validate_name True s of
                        Inl e \<Rightarrow> Inl e
                      | Inr n \<Rightarrow> Inr (PV_str n, infer_kind n))) of
        Inl e \<Rightarrow> Inl e
      | Inr (v, inferred) \<Rightarrow>
          (let k = (case kind of None \<Rightarrow> inferred | Some k \<Rightarrow> k)
           in if is_type_value v \<and> k \<noteq> PK_TYPE then raise RoutingError
              else if \<not> is_type_value v \<and> k = PK_TYPE then raise RoutingError
              else if k = PK_HEADERS \<and> hs = [] then raise RoutingError
              else case normalise_headers hs of
                Inl e \<Rightarrow> Inl e
              | Inr items \<Rightarrow>
                  Inr \<lparr>hp_value = v, hp_kind = k, hp_headers = items, hp_version = version\<rparr>))"

text \<open>The named constructors of \<open>HandlerPattern\<close>.\<close>

definition pattern_exact :: "string \<Rightarrow> int option \<Rightarrow> handler_pattern result" where
  "pattern_exact r version = new_pattern (PV_str r) (Some PK_EXACT) [] version"

definition pattern_namespace :: "string \<Rightarrow> int option \<Rightarrow> handler_pattern result" where
  "pattern_namespace ns version =
     new_pattern (PV_str (remove_suffix ns ''.*'' @ ''.*'')) (Some PK_NAMESPACE) [] version"

definition pattern_wildcard :: "string \<Rightarrow> int option \<Rightarrow> handler_pattern result" where
  "pattern_wildcard p version = new_pattern (PV_str p) (Some PK_WILDCARD) [] version"

definition pattern_for_type :: "pytype \<Rightarrow> int option \<Rightarrow> handler_pattern result" where
  "pattern_for_type t version = new_pattern (PV_type t) (Some PK_TYPE) [] version"

definition pattern_with_headers ::
  "headers \<Rightarrow> string \<Rightarrow> int option \<Rightarrow> handler_pattern result" where
  "pattern_with_headers hs r version =
     new_pattern (PV_str r) (if r = ''*'' then Some PK_HEADERS else None) hs version"

datatype pattern_like =
    PL_str string | PL_type pytype | PL_route route | PL_pattern handler_pattern

fun as_pattern :: "pattern_like \<Rightarrow> headers option \<Rightarrow> int option \<Rightarrow> handler_pattern result" where
  "as_pattern (PL_pattern p) hs version =
     (if hs \<noteq> None \<or> version \<noteq> None
      then new_pattern (hp_value p) (Some (hp_kind p))
             (case hs of Some h \<Rightarrow> h | None \<Rightarrow> dict_of_items (hp_headers p))
             (case version of Some v \<Rightarrow> Some v | None \<Rightarrow> hp_version p)
      else Inr p)"
| "as_pattern (PL_route r) hs version = pattern_exact (rt_name r) version"
| "as_pattern (PL_str s) hs version =
     new_pattern (PV_str s) None (case hs of None \<Rightarrow> [] | Some h \<Rightarrow> h) version"
| "as_pattern (PL_type t) hs version =
     new_pattern (PV_type t) None (case hs of None \<Rightarrow> [] | Some h \<Rightarrow> h) version"

subsection \<open>Matching\<close>

definition headers_satisfied :: "header_items \<Rightarrow> headers \<Rightarrow> bool" where
  "headers_satisfied required supplied \<longleftrightarrow>
     list_all (\<lambda>(k, expected). dict_get supplied k = Some expected) (dict_of_items required)"

fun kind_matches :: "pattern_kind \<Rightarrow> pattern_value \<Rightarrow> string \<Rightarrow> message option \<Rightarrow> bool result" where
  "kind_matches PK_TYPE (PV_type t) name msg =
     Inr (case msg of None \<Rightarrow> False | Some types \<Rightarrow> t \<in> set types)"
| "kind_matches PK_EXACT (PV_str s) name msg = Inr (name = s)"
| "kind_matches PK_NAMESPACE (PV_str s) name msg =
     Inr (starts_with name (remove_suffix s ''.*'' @ ''.''))"
| "kind_matches PK_HEADERS (PV_str s) name msg = Inr (s = ''*'' \<or> fnmatchcase name s)"
| "kind_matches PK_WILDCARD (PV_str s) name msg = Inr (fnmatchcase name s)"
| "kind_matches _ _ name msg = raise AssertionError"

definition pattern_matches ::
  "handler_pattern \<Rightarrow> route \<Rightarrow> headers option \<Rightarrow> message option \<Rightarrow> int option \<Rightarrow> bool result"
where
  "pattern_matches candidate r hs msg version =
     (if hp_version candidate \<noteq> None \<and> hp_version candidate \<noteq> version then Inr False
      else if \<not> headers_satisfied (hp_headers candidate)
                (dict_merge (dict_of_items (rt_headers r)) (case hs of None \<Rightarrow> [] | Some h \<Rightarrow> h))
           then Inr False
      else kind_matches (hp_kind candidate) (hp_value candidate) (rt_name r) msg)"

definition route_matches ::
  "pattern_like \<Rightarrow> route_like \<Rightarrow> headers option \<Rightarrow> message option \<Rightarrow> int option \<Rightarrow> bool result"
where
  "route_matches pattern logical_route hs msg version =
     (case as_pattern pattern None None of
        Inl e \<Rightarrow> Inl e
      | Inr candidate \<Rightarrow>
          (case parse_route logical_route of
             Inl e \<Rightarrow> Inl e
           | Inr r \<Rightarrow> pattern_matches candidate r hs msg version))"


subsection \<open>Constructed values are well formed\<close>

definition valid_name :: "string \<Rightarrow> bool" where
  "valid_name n \<longleftrightarrow>
     n \<noteq> [] \<and> length n \<le> 512 \<and> list_all (\<lambda>c. \<not> is_space c \<and> \<not> control_char c) n"

lemma validate_name_Inr:
  "validate_name wild raw = Inr v \<Longrightarrow> v = strip raw \<and> valid_name v \<and> (wild \<or> plain v)"
  by (auto simp: validate_name_def valid_name_def plain_def Let_def list_all_iff list_ex_iff
        split: if_splits)

lemma valid_name_strip: "valid_name n \<Longrightarrow> strip n = n"
  by (rule strip_id) (auto simp: valid_name_def list_all_iff)

lemma validate_name_valid: "valid_name n \<Longrightarrow> wild \<or> plain n \<Longrightarrow> validate_name wild n = Inr n"
  by (auto simp: validate_name_def valid_name_strip valid_name_def plain_def list_all_iff list_ex_iff)

lemma validate_name_valid_name: "validate_name wild raw = Inr v \<Longrightarrow> valid_name v"
  using validate_name_Inr by blast

lemma new_route_Inr:
  "new_route name k hs = Inr r \<Longrightarrow>
   valid_name (rt_name r) \<and> plain (rt_name r) \<and> rt_kind r = k
     \<and> normalise_headers hs = Inr (rt_headers r)"
  by (auto simp: new_route_def split: sum.splits dest: validate_name_Inr)

lemma new_pattern_Inr:
  assumes "new_pattern value kind hs version = Inr p"
  shows "hp_version p = version \<and> normalise_headers hs = Inr (hp_headers p)
    \<and> (\<forall>v. version = Some v \<longrightarrow> 1 \<le> v)
    \<and> (is_type_value (hp_value p) \<longleftrightarrow> hp_kind p = PK_TYPE)
    \<and> (hp_kind p = PK_HEADERS \<longrightarrow> hs \<noteq> [])
    \<and> (\<forall>s. hp_value p = PV_str s \<longrightarrow> valid_name s)"
  using assms
  by (auto simp: new_pattern_def Let_def split: if_splits sum.splits option.splits pattern_value.splits)
    (erule validate_name_valid_name)+

lemma new_pattern_inferred:
  assumes "new_pattern (PV_str s) None hs version = Inr p"
  shows "\<exists>v. hp_value p = PV_str v \<and> hp_kind p = infer_kind v \<and> valid_name v"
  using assms
  by (auto simp: new_pattern_def Let_def split: if_splits sum.splits option.splits)
    (erule validate_name_valid_name)+

lemma normalise_items_keys:
  "normalise_items hs = Inr items \<Longrightarrow> list_all (\<lambda>(k, v). k \<noteq> [] \<and> strip k = k) items"
proof (induction hs arbitrary: items)
  case Nil
  then show ?case by simp
next
  case (Cons kv hs)
  obtain k v where kv: "kv = (k, v)" by (cases kv)
  have "strip (strip k) = strip k"
  proof -
    have "dropWhile is_space (strip k) = strip k" if "strip k \<noteq> []"
    proof -
      have "hd (strip k) = hd (dropWhile is_space k)"
        using that unfolding strip_def
        by (metis append_is_Nil_conv hd_append2 hd_rev last_rev rev_is_Nil_conv rev_rev_ident
            takeWhile_dropWhile_id last_appendR)
      moreover have "dropWhile is_space k \<noteq> []" using that by (cases "dropWhile is_space k") (simp_all add: strip_def)
      ultimately show ?thesis
        by (metis dropWhile_eq_self_iff hd_dropWhile dropWhile_eq_Nil_conv)
    qed
    moreover have "dropWhile is_space (rev (strip k)) = rev (strip k)"
      using strip_ends [of k] by (auto simp: dropWhile_eq_self_iff hd_rev)
    ultimately show ?thesis
      by (cases "strip k = []") (simp_all add: strip_def [of "strip k"] strip_def [of "[]"])
  qed
  with Cons kv show ?case by (auto simp: Let_def split: if_splits sum.splits)
qed

subsection \<open>Kinds agree with shell patterns\<close>

lemma starts_with_iff: "starts_with s p \<longleftrightarrow> (\<exists>r. s = p @ r)"
  by (auto simp: starts_with_def) (metis append_take_drop_id)

lemma ends_with_iff: "ends_with s p \<longleftrightarrow> (\<exists>r. s = r @ p)"
  by (auto simp: ends_with_def) (metis append_take_drop_id)

lemma remove_suffix_append [simp]: "remove_suffix (s @ p) p = s"
  by (auto simp: remove_suffix_def ends_with_iff)

lemma infer_kind_cases:
  "infer_kind v = PK_NAMESPACE \<and> (\<exists>ns. v = ns @ ''.*'')
   \<or> infer_kind v = PK_WILDCARD
   \<or> infer_kind v = PK_EXACT \<and> plain v"
  by (auto simp: infer_kind_def ends_with_iff plain_def)

lemma namespace_matches_fnmatch:
  assumes "plain ns"
  shows "starts_with name (ns @ ''.'') \<longleftrightarrow> fnmatchcase name (ns @ ''.*'')"
  using fnmatchcase_prefix [of "ns @ ''.''" name] assms
  by (simp add: starts_with_iff wildcard_char_def)

lemma namespace_with_wildcard_dead:
  assumes "\<not> plain ns" and "plain name"
  shows "\<not> starts_with name (ns @ ''.'')"
  using assms by (auto simp: starts_with_iff)

lemma inferred_kind_matches:
  assumes "plain name"
  shows "kind_matches (infer_kind v) (PV_str v) name msg =
    Inr (if infer_kind v = PK_NAMESPACE \<and> \<not> plain (remove_suffix v ''.*'') then False
         else fnmatchcase name v)"
  using infer_kind_cases [of v] assms
  by (auto simp: namespace_matches_fnmatch namespace_with_wildcard_dead fnmatchcase_plain)

subsection \<open>Headers\<close>

lemma fold_dict_set_get:
  "dict_get (fold (\<lambda>(k, v) d. dict_set k v d) items d) k =
   (case dict_get (rev items) k of None \<Rightarrow> dict_get d k | Some v \<Rightarrow> Some v)"
  by (induction items arbitrary: d) (auto simp: map_add_def split: option.splits)

lemma dict_ok_fold_set: "dict_ok d \<Longrightarrow> dict_ok (fold (\<lambda>(k, v) d. dict_set k v d) items d)"
  by (induction items arbitrary: d) (auto intro: inv_intros)

lemma dict_ok_dict_of_items [simp]: "dict_ok (dict_of_items items)"
  by (simp add: dict_of_items_def dict_ok_fold_set)

lemma headers_satisfied_iff:
  "headers_satisfied required supplied \<longleftrightarrow>
   (\<forall>k v. dict_get (rev required) k = Some v \<longrightarrow> dict_get supplied k = Some v)"
proof -
  have "dict_get (dict_of_items required) k = dict_get (rev required) k" for k
    by (simp add: dict_of_items_def fold_dict_set_get split: option.splits)
  moreover have "headers_satisfied required supplied \<longleftrightarrow>
      (\<forall>k v. dict_get (dict_of_items required) k = Some v \<longrightarrow> dict_get supplied k = Some v)"
    by (auto simp: headers_satisfied_def list_all_iff dict_get_eq_Some)
  ultimately show ?thesis by simp
qed

lemma pattern_matches_True:
  "pattern_matches p r hs msg version = Inr True \<Longrightarrow>
   (hp_version p = None \<or> hp_version p = version)
   \<and> headers_satisfied (hp_headers p)
       (dict_merge (dict_of_items (rt_headers r)) (case hs of None \<Rightarrow> [] | Some h \<Rightarrow> h))
   \<and> kind_matches (hp_kind p) (hp_value p) (rt_name r) msg = Inr True"
  by (auto simp: pattern_matches_def split: if_splits)

text \<open>No constructed pattern reaches the assertions of \<open>route_matches\<close>.\<close>

lemma pattern_matches_total:
  assumes "new_pattern value kind hs0 v = Inr p"
  shows "\<exists>b. pattern_matches p r hs msg version = Inr b"
proof -
  from new_pattern_Inr [OF assms] have "is_type_value (hp_value p) \<longleftrightarrow> hp_kind p = PK_TYPE"
    by blast
  then show ?thesis
    by (cases "hp_value p"; cases "hp_kind p") (auto simp: pattern_matches_def)
qed


subsection \<open>Properties\<close>



text \<open>
  Header requirements are conjunctive. A pattern matches only when every header it requires
  is supplied with the required value, by the route or by the call's headers, which take
  precedence; and its version, when it has one, is the message's version.
\<close>

theorem matched_headers_supplied:
  assumes "pattern_matches p r hs msg version = Inr True"
    and "dict_get (rev (hp_headers p)) k = Some v"
  shows "(case dict_get (rev (case hs of None \<Rightarrow> [] | Some h \<Rightarrow> h)) k of
            Some v' \<Rightarrow> v' = v
          | None \<Rightarrow> dict_get (rev (rt_headers r)) k = Some v)
    \<and> (hp_version p = None \<or> hp_version p = version)"
proof
  let ?given = "case hs of None \<Rightarrow> [] | Some h \<Rightarrow> h"
  from pattern_matches_True [OF assms(1)]
  have "dict_get (dict_merge (dict_of_items (rt_headers r)) ?given) k = Some v"
    using assms(2) by (simp add: headers_satisfied_iff)
  then show "case dict_get (rev ?given) k of
      Some v' \<Rightarrow> v' = v | None \<Rightarrow> dict_get (rev (rt_headers r)) k = Some v"
    unfolding dict_merge_def dict_of_items_def fold_dict_set_get
    by (cases "dict_get (rev ?given) k"; cases "dict_get (rev (rt_headers r)) k") simp_all
  from pattern_matches_True [OF assms(1)] show "hp_version p = None \<or> hp_version p = version"
    by (rule conjunct1)
qed

theorem matched_headers_supplied_witness:
  "pattern_matches
     \<lparr>hp_value = PV_str ''*'', hp_kind = PK_HEADERS, hp_headers = [(''k'', ''v'')], hp_version = None\<rparr>
     \<lparr>rt_name = ''a'', rt_kind = RK_TOPIC, rt_headers = [(''k'', ''old'')]\<rparr>
     (Some [(''k'', ''v'')]) None None = Inr True"
proof -
  let ?p = "\<lparr>hp_value = PV_str ''*'', hp_kind = PK_HEADERS, hp_headers = [(''k'', ''v'')], hp_version = None\<rparr>"
  let ?r = "\<lparr>rt_name = ''a'', rt_kind = RK_TOPIC, rt_headers = [(''k'', ''old'')]\<rparr>"
  have m: "pattern_matches ?p ?r (Some [(''k'', ''v'')]) None None = Inr True" by code_simp
  from matched_headers_supplied [OF m, of "''k''" "''v''"] have "hp_version ?p = None \<or> hp_version ?p = None"
    by simp
  with m show ?thesis by simp
qed

end
