(* ===== verification/Ranking.thy ===== *)
theory Ranking
  imports Prelude
begin

text \<open>
  The ordering contract that the router, the middleware pipelines and the engine registry
  share: registrations are stored in a dictionary or list in arrival order, and used in the
  order of a rank that is built from a priority and the registration sequence number. Because no
  two stored registrations have the same rank, the resulting order is the only one there is.
\<close>

locale ranked_registry =
  fixes items :: "'s \<Rightarrow> 'r list"
    and rank :: "'r \<Rightarrow> int \<times> int"
    and ok :: "'s \<Rightarrow> bool"
  assumes ranks_distinct: "ok s \<Longrightarrow> distinct (map rank (items s))"
begin

lemma ordered_set: "set (sort_key rank (items s)) = set (items s)"
  by simp

lemma ordered_sorted: "sorted (map rank (sort_key rank (items s)))"
  by simp

lemma ordered_distinct: "ok s \<Longrightarrow> distinct (map rank (sort_key rank (items s)))"
proof -
  assume "ok s"
  then have "distinct (map rank (items s))" by (rule ranks_distinct)
  then have "distinct (items s)" and "inj_on rank (set (items s))"
    by (auto simp: distinct_map)
  then show ?thesis by (simp add: distinct_map)
qed

lemma ordered_unique:
  assumes "ok s" and "set xs = set (items s)" and "sorted (map rank xs)" and "distinct xs"
  shows "xs = sort_key rank (items s)"
proof -
  from assms(1) have d: "distinct (items s)" and inj: "inj_on rank (set (items s))"
    using ranks_distinct by (auto simp: distinct_map)
  have "map rank xs = map rank (sort_key rank (items s))"
    using assms d inj
    by (intro sorted_distinct_set_unique) (auto simp: distinct_map)
  moreover have "inj_on rank (set xs \<union> set (sort_key rank (items s)))"
    using assms(2) inj by simp
  ultimately show ?thesis by (rule map_inj_on)
qed

lemma ordered_precedes:
  assumes "ok s" and "sort_key rank (items s) = us @ x # vs @ y # ws"
  shows "rank x < rank y"
proof -
  have "sorted (map rank (us @ x # vs @ y # ws))"
    using ordered_sorted [of s] assms(2) by simp
  then have "rank x \<le> rank y" by (simp add: sorted_append)
  moreover have "rank x \<noteq> rank y"
    using ordered_distinct [OF assms(1)] assms(2) by auto
  ultimately show ?thesis by simp
qed

lemma filter_ordered:
  "ok s \<Longrightarrow> sorted (map rank (filter P (sort_key rank (items s))))
     \<and> distinct (filter P (sort_key rank (items s)))"
  using ordered_distinct [of s]
  by (auto simp: filter_sort distinct_map intro: distinct_filter)

end

end
