(* ===== verification/Routers.thy ===== *)
theory Routers
  imports Routing Ranking
begin

text \<open>
  \<open>broka/routing/router.py\<close>: the router's handler registrations and destination rules. The
  state keeps the handlers in a dictionary by name and the rules in a list; every registration
  takes the next sequence number, even one that is rejected afterwards.
\<close>

record handler =
  ha_id :: nat
  ha_async :: bool
  ha_name :: string

record registration =
  rg_name :: string
  rg_pattern :: handler_pattern
  rg_handler :: handler
  rg_priority :: int
  rg_sequence :: int

record destination_rule =
  dr_pattern :: handler_pattern
  dr_destination :: destination
  dr_priority :: int
  dr_sequence :: int

record router =
  ro_handlers :: "(string, registration) dict"
  ro_rules :: "destination_rule list"
  ro_sequence :: int

definition empty_router :: router where
  "empty_router = \<lparr>ro_handlers = [], ro_rules = [], ro_sequence = 0\<rparr>"

definition registration_rank :: "registration \<Rightarrow> int \<times> int" where
  "registration_rank r = (- rg_priority r, rg_sequence r)"

definition rule_rank :: "destination_rule \<Rightarrow> int \<times> int" where
  "rule_rank r = (- dr_priority r, dr_sequence r)"

definition registrations :: "router \<Rightarrow> registration list" where
  "registrations ro = sort_key registration_rank (dict_values (ro_handlers ro))"

definition destination_rules :: "router \<Rightarrow> destination_rule list" where
  "destination_rules ro = sort_key rule_rank (ro_rules ro)"

text \<open>\<open>str\<close> of a number, for the suffix of a generated name.\<close>

fun digits_of :: "nat \<Rightarrow> string" where
  "digits_of n =
     (if n < 10 then [char_of (48 + n)] else digits_of (n div 10) @ [char_of (48 + n mod 10)])"

declare digits_of.simps [simp del]

definition register_handler ::
  "pattern_like \<Rightarrow> handler \<Rightarrow> string option \<Rightarrow> headers option \<Rightarrow> int option \<Rightarrow> int \<Rightarrow> router
   \<Rightarrow> registration result \<times> router"
where
  "register_handler pattern h name hs version priority ro =
     (if \<not> ha_async h then (raise RoutingError, ro)
      else
        let ro1 = ro\<lparr>ro_sequence := ro_sequence ro + 1\<rparr>;
            generated = ha_name h;
            wanted = (case name of None \<Rightarrow> generated | Some n \<Rightarrow> if n = [] then generated else n);
            taken = dict_has (ro_handlers ro) wanted
        in if taken \<and> name \<noteq> None then (raise RoutingError, ro1)
           else
             let final = (if taken then generated @ '':'' @ digits_of (nat (ro_sequence ro1)) else wanted)
             in case as_pattern pattern hs version of
                  Inl e \<Rightarrow> (Inl e, ro1)
                | Inr p \<Rightarrow>
                    let r = \<lparr>rg_name = final, rg_pattern = p, rg_handler = h,
                             rg_priority = priority, rg_sequence = ro_sequence ro1\<rparr>
                    in (Inr r, ro1\<lparr>ro_handlers := dict_set final r (ro_handlers ro1)\<rparr>))"

definition unregister_handler :: "string \<Rightarrow> router \<Rightarrow> registration result \<times> router" where
  "unregister_handler name ro =
     (case dict_get (ro_handlers ro) name of
        None \<Rightarrow> (raise RoutingError, ro)
      | Some r \<Rightarrow> (Inr r, ro\<lparr>ro_handlers := dict_del name (ro_handlers ro)\<rparr>))"

definition map_destination ::
  "pattern_like \<Rightarrow> destination \<Rightarrow> int \<Rightarrow> headers option \<Rightarrow> int option \<Rightarrow> router
   \<Rightarrow> destination_rule result \<times> router"
where
  "map_destination pattern d priority hs version ro =
     (let ro1 = ro\<lparr>ro_sequence := ro_sequence ro + 1\<rparr>
      in case as_pattern pattern hs version of
           Inl e \<Rightarrow> (Inl e, ro1)
         | Inr p \<Rightarrow>
             let r = \<lparr>dr_pattern = p, dr_destination = d, dr_priority = priority,
                      dr_sequence = ro_sequence ro1\<rparr>
             in (Inr r, ro1\<lparr>ro_rules := ro_rules ro1 @ [r]\<rparr>))"

definition unmap_destination :: "destination_rule \<Rightarrow> router \<Rightarrow> unit result \<times> router" where
  "unmap_destination r ro =
     (if r \<in> set (ro_rules ro) then (Inr (), ro\<lparr>ro_rules := remove1 r (ro_rules ro)\<rparr>)
      else (raise RoutingError, ro))"

definition clear_router :: "router \<Rightarrow> router" where
  "clear_router ro = ro\<lparr>ro_handlers := [], ro_rules := []\<rparr>"

text \<open>A comprehension whose condition may raise: it stops at the first error.\<close>

fun filter_result :: "('a \<Rightarrow> bool result) \<Rightarrow> 'a list \<Rightarrow> 'a list result" where
  "filter_result P [] = Inr []"
| "filter_result P (x # xs) =
     (case P x of
        Inl e \<Rightarrow> Inl e
      | Inr b \<Rightarrow>
          (case filter_result P xs of
             Inl e \<Rightarrow> Inl e
           | Inr ys \<Rightarrow> Inr (if b then x # ys else ys)))"

definition match_handlers ::
  "route_like \<Rightarrow> message option \<Rightarrow> headers option \<Rightarrow> int option \<Rightarrow> router \<Rightarrow> registration list result"
where
  "match_handlers logical_route msg hs version ro =
     filter_result (\<lambda>r. route_matches (PL_pattern (rg_pattern r)) logical_route hs msg version)
       (registrations ro)"

fun collect_destinations :: "destination_rule list \<Rightarrow> destination list \<Rightarrow> destination list" where
  "collect_destinations [] acc = acc"
| "collect_destinations (r # rs) acc =
     collect_destinations rs
       (if dr_destination r \<in> set acc then acc else acc @ [dr_destination r])"

definition resolve_destinations ::
  "route_like \<Rightarrow> message option \<Rightarrow> headers option \<Rightarrow> int option \<Rightarrow> router \<Rightarrow> destination list result"
where
  "resolve_destinations logical_route msg hs version ro =
     (case filter_result
             (\<lambda>r. route_matches (PL_pattern (dr_pattern r)) logical_route hs msg version)
             (destination_rules ro) of
        Inl e \<Rightarrow> Inl e
      | Inr rs \<Rightarrow> Inr (collect_destinations rs []))"

text \<open>
  \<open>dispatch\<close>: route, headers and version come from the arguments or else from the delivery
  and its envelope; the matching handlers run one after the other and the first error stops.
  Running a handler is a parameter on a world \<open>'w\<close>.
\<close>

record envelope_view =
  ev_type :: string
  ev_headers :: headers
  ev_version :: int

record dispatch_input =
  di_message :: message
  di_route :: "route_like option"
  di_envelope :: "envelope_view option"

fun run_handlers ::
  "(handler \<Rightarrow> 'w \<Rightarrow> 'a result \<times> 'w) \<Rightarrow> registration list \<Rightarrow> 'w \<Rightarrow> 'a list result \<times> 'w"
where
  "run_handlers call [] w = (Inr [], w)"
| "run_handlers call (r # rs) w =
     (case call (rg_handler r) w of
        (Inl e, w') \<Rightarrow> (Inl e, w')
      | (Inr x, w') \<Rightarrow>
          (case run_handlers call rs w' of
             (Inl e, w'') \<Rightarrow> (Inl e, w'')
           | (Inr xs, w'') \<Rightarrow> (Inr (x # xs), w'')))"

definition dispatch ::
  "(handler \<Rightarrow> 'w \<Rightarrow> 'a result \<times> 'w) \<Rightarrow> dispatch_input \<Rightarrow> route_like option \<Rightarrow> headers option
   \<Rightarrow> int option \<Rightarrow> router \<Rightarrow> 'w \<Rightarrow> 'a list result \<times> 'w"
where
  "dispatch call di route hs version ro w =
     (let logical_route =
            (case route of
               Some r \<Rightarrow> Some r
             | None \<Rightarrow>
                 (case di_route di of
                    Some r \<Rightarrow> Some r
                  | None \<Rightarrow> map_option (\<lambda>e. RL_str (ev_type e)) (di_envelope di)));
          effective_headers =
            (case hs of Some h \<Rightarrow> Some h | None \<Rightarrow> map_option ev_headers (di_envelope di));
          effective_version =
            (case version of Some v \<Rightarrow> Some v | None \<Rightarrow> map_option ev_version (di_envelope di))
      in case logical_route of
           None \<Rightarrow> (raise RoutingError, w)
         | Some r \<Rightarrow>
             (case match_handlers r (Some (di_message di)) effective_headers effective_version ro of
                Inl e \<Rightarrow> (Inl e, w)
              | Inr rs \<Rightarrow> run_handlers call rs w))"

subsection \<open>The router's invariant\<close>

definition router_ok :: "router \<Rightarrow> bool" where
  "router_ok ro \<longleftrightarrow>
     dict_ok (ro_handlers ro)
     \<and> (\<forall>(k, r) \<in> set (ro_handlers ro). rg_name r = k \<and> rg_sequence r \<le> ro_sequence ro)
     \<and> distinct (map (rg_sequence \<circ> snd) (ro_handlers ro))
     \<and> distinct (map dr_sequence (ro_rules ro))
     \<and> (\<forall>r \<in> set (ro_rules ro). dr_sequence r \<le> ro_sequence ro)"

lemma router_ok_empty [inv_intros]: "router_ok empty_router"
  by (simp add: router_ok_def empty_router_def)

lemma router_ok_next [inv_intros]:
  "router_ok ro \<Longrightarrow> router_ok (ro\<lparr>ro_sequence := ro_sequence ro + 1\<rparr>)"
  by (fastforce simp: router_ok_def)

lemma router_ok_store:
  assumes "router_ok ro" and "rg_name r = k" and "rg_sequence r = ro_sequence ro + 1"
  shows "router_ok (ro\<lparr>ro_sequence := ro_sequence ro + 1,
                       ro_handlers := dict_set k r (ro_handlers ro)\<rparr>)"
  using assms set_dict_set_subset [of k r "ro_handlers ro"]
  by (fastforce simp: router_ok_def comp_def intro!: dict_ok_set distinct_map_dict_set)

lemma router_ok_register [inv_intros]:
  assumes "router_ok ro" and "register_handler pattern h name hs version priority ro = (res, ro')"
  shows "router_ok ro'"
  using assms
  by (auto simp: register_handler_def Let_def split: if_splits sum.splits
        intro!: router_ok_store router_ok_next)

lemma router_ok_unregister [inv_intros]:
  assumes "router_ok ro" and "unregister_handler name ro = (res, ro')"
  shows "router_ok ro'"
  using assms set_dict_del_subset [of name "ro_handlers ro"]
  by (fastforce simp: unregister_handler_def router_ok_def distinct_map_dict_del dict_ok_del
        split: option.splits)

lemma router_ok_map [inv_intros]:
  assumes "router_ok ro" and "map_destination pattern d priority hs version ro = (res, ro')"
  shows "router_ok ro'"
  using assms
  by (fastforce simp: map_destination_def router_ok_def Let_def split: sum.splits)

lemma router_ok_unmap [inv_intros]:
  assumes "router_ok ro" and "unmap_destination r ro = (res, ro')"
  shows "router_ok ro'"
  using assms
  by (auto simp: unmap_destination_def router_ok_def distinct_map split: if_splits
        intro: inj_on_subset dest: notin_set_remove1
        dest!: in_set_remove1 set_remove1_subset [THEN subsetD])

lemma router_ok_clear [inv_intros]: "router_ok ro \<Longrightarrow> router_ok (clear_router ro)"
  by (auto simp: clear_router_def router_ok_def)


interpretation handlers: ranked_registry "\<lambda>ro. dict_values (ro_handlers ro)" registration_rank router_ok
proof
  fix ro assume "router_ok ro"
  then have "distinct (map (rg_sequence \<circ> snd) (ro_handlers ro))" by (simp add: router_ok_def)
  then show "distinct (map registration_rank (dict_values (ro_handlers ro)))"
    by (auto simp: dict_values_def registration_rank_def distinct_map inj_on_def)
qed

interpretation rules: ranked_registry ro_rules rule_rank router_ok
proof
  fix ro assume "router_ok ro"
  then have "distinct (map dr_sequence (ro_rules ro))" by (simp add: router_ok_def)
  then show "distinct (map rule_rank (ro_rules ro))"
    by (auto simp: rule_rank_def distinct_map inj_on_def)
qed

inductive router_reachable :: "router \<Rightarrow> bool" where
  router_start: "router_reachable empty_router"
| router_register: "router_reachable ro \<Longrightarrow>
    router_reachable (snd (register_handler pattern h name hs version priority ro))"
| router_unregister: "router_reachable ro \<Longrightarrow> router_reachable (snd (unregister_handler name ro))"
| router_map: "router_reachable ro \<Longrightarrow>
    router_reachable (snd (map_destination pattern d priority hs version ro))"
| router_unmap: "router_reachable ro \<Longrightarrow> router_reachable (snd (unmap_destination r ro))"
| router_clear: "router_reachable ro \<Longrightarrow> router_reachable (clear_router ro)"

lemma router_reachable_ok: "router_reachable ro \<Longrightarrow> router_ok ro"
proof (induction rule: router_reachable.induct)
  case router_start
  show ?case by (rule router_ok_empty)
next
  case (router_register ro pattern h name hs version priority)
  then show ?case by (metis prod.collapse router_ok_register)
next
  case (router_unregister ro name)
  then show ?case by (metis prod.collapse router_ok_unregister)
next
  case (router_map ro pattern d priority hs version)
  then show ?case by (metis prod.collapse router_ok_map)
next
  case (router_unmap ro r)
  then show ?case by (metis prod.collapse router_ok_unmap)
next
  case (router_clear ro)
  then show ?case by (simp add: router_ok_clear)
qed

subsection \<open>Selection\<close>

lemma filter_result_Inr:
  "filter_result P xs = Inr ys \<longleftrightarrow>
   (\<forall>x \<in> set xs. is_ok (P x)) \<and> ys = filter (\<lambda>x. P x = Inr True) xs"
proof (induction xs arbitrary: ys)
  case Nil
  then show ?case by auto
next
  case (Cons x xs)
  show ?case
  proof (cases "P x")
    case (Inl e)
    then show ?thesis by simp
  next
    case (Inr b)
    then show ?thesis using Cons by (cases "filter_result P xs") (auto split: if_splits)
  qed
qed

lemma collect_destinations_set:
  "set (collect_destinations rs acc) = set acc \<union> dr_destination ` set rs"
  by (induction rs acc rule: collect_destinations.induct) auto

lemma collect_destinations_distinct:
  "distinct acc \<Longrightarrow> distinct (collect_destinations rs acc)"
  by (induction rs acc rule: collect_destinations.induct) auto

lemma collect_destinations_prefix: "\<exists>ds. collect_destinations rs acc = acc @ ds"
proof (induction rs acc rule: collect_destinations.induct)
  case (1 acc)
  then show ?case by simp
next
  case (2 r rs acc)
  then show ?case by (auto split: if_splits)
qed

lemma hd_collect_destinations:
  "rs \<noteq> [] \<Longrightarrow> hd (collect_destinations rs []) = dr_destination (hd rs)"
  using collect_destinations_prefix [of "tl rs" "[dr_destination (hd rs)]"]
  by (cases rs) auto

lemma set_registrations [simp]: "set (registrations ro) = set (dict_values (ro_handlers ro))"
  by (simp add: registrations_def)

lemma dict_get_in_values: "dict_get d k = Some v \<Longrightarrow> v \<in> set (dict_values d)"
  by (force simp: dict_values_def dest: map_of_SomeD)


lemma dict_ok_values: "dict_ok d \<Longrightarrow> (k, v) \<in> set d \<Longrightarrow> dict_get d k = Some v"
  by (simp add: dict_get_eq_Some)

text \<open>A world that records which handlers were called, to observe \<open>dispatch\<close> with.\<close>

definition logged :: "(handler \<Rightarrow> 'a result) \<Rightarrow> handler \<Rightarrow> nat list \<Rightarrow> 'a result \<times> nat list" where
  "logged res h w = (res h, w @ [ha_id h])"

fun called_until_error :: "(handler \<Rightarrow> 'a result) \<Rightarrow> registration list \<Rightarrow> registration list" where
  "called_until_error res [] = []"
| "called_until_error res (r # rs) =
     (if is_ok (res (rg_handler r)) then r # called_until_error res rs else [r])"

lemma called_until_error_all:
  "\<forall>r \<in> set rs. is_ok (res (rg_handler r)) \<Longrightarrow> called_until_error res rs = rs"
  by (induction rs) auto

lemma run_handlers_log:
  "snd (run_handlers (logged res) rs w) = w @ map (ha_id \<circ> rg_handler) (called_until_error res rs)"
proof (induction rs arbitrary: w)
  case Nil
  then show ?case by simp
next
  case (Cons r rs)
  note call = logged_def [of res "rg_handler r" w]
  obtain q w1 where q: "run_handlers (logged res) rs (w @ [ha_id (rg_handler r)]) = (q, w1)"
    by (cases "run_handlers (logged res) rs (w @ [ha_id (rg_handler r)])")
  with Cons [of "w @ [ha_id (rg_handler r)]"] show ?case
    by (cases "res (rg_handler r)"; cases q) (simp_all add: call)
qed

lemma run_handlers_result:
  "(case fst (run_handlers (logged res) rs w) of
      Inr xs \<Rightarrow> map Inr xs = map (res \<circ> rg_handler) rs
    | Inl e \<Rightarrow> \<exists>r \<in> set rs. res (rg_handler r) = Inl e \<and> last (called_until_error res rs) = r)"
proof (induction rs arbitrary: w)
  case Nil
  then show ?case by simp
next
  case (Cons r rs)
  obtain q w1 where q: "run_handlers (logged res) rs (w @ [ha_id (rg_handler r)]) = (q, w1)"
    by (cases "run_handlers (logged res) rs (w @ [ha_id (rg_handler r)])")
  note call = logged_def [of res "rg_handler r" w]
  have ne: "called_until_error res rs \<noteq> []" if "rs \<noteq> []" using that by (cases rs) auto
  show ?case
  proof (cases "res (rg_handler r)")
    case (Inl e)
    then show ?thesis by (simp add: call)
  next
    case (Inr x)
    with Cons [of "w @ [ha_id (rg_handler r)]"] q ne show ?thesis
      by (cases q; cases rs) (auto simp: call)
  qed
qed

subsection \<open>Properties\<close>

text \<open>
  C4: matching is exact and deterministic. For every router that the operations can build, a
  successful match returns each matching registration exactly once, ordered by descending
  priority and then by registration sequence, and no other ordered list has these elements: the
  order in which names were stored plays no part.
\<close>

theorem match_handlers_exact:
  assumes "router_reachable ro" and "match_handlers rl msg hs version ro = Inr rs"
  shows "distinct rs \<and> sorted (map registration_rank rs)
    \<and> (\<forall>r. r \<in> set rs \<longleftrightarrow> r \<in> set (dict_values (ro_handlers ro))
          \<and> route_matches (PL_pattern (rg_pattern r)) rl hs msg version = Inr True)
    \<and> (\<forall>rs'. distinct rs' \<and> sorted (map registration_rank rs') \<and> set rs' = set rs \<longrightarrow> rs' = rs)"
proof -
  let ?P = "\<lambda>r. route_matches (PL_pattern (rg_pattern r)) rl hs msg version = Inr True"
  have ok: "router_ok ro" by (rule router_reachable_ok [OF assms(1)])
  have rs: "rs = filter ?P (registrations ro)"
    using assms(2) by (simp add: match_handlers_def filter_result_Inr)
  have sd: "sorted (map registration_rank rs)" "distinct rs"
    using handlers.filter_ordered [OF ok, of ?P] by (simp_all add: rs registrations_def)
  have inj: "inj_on registration_rank (set rs)"
    using handlers.ordered_distinct [OF ok]
    by (auto simp: rs registrations_def distinct_map intro: inj_on_subset)
  have "rs' = rs" if "distinct rs'" "sorted (map registration_rank rs')" "set rs' = set rs" for rs'
  proof (rule map_inj_on)
    show "map registration_rank rs' = map registration_rank rs"
      using that sd inj by (intro sorted_distinct_set_unique) (auto simp: distinct_map)
    show "inj_on registration_rank (set rs' \<union> set rs)" using that inj by simp
  qed
  moreover have "r \<in> set rs \<longleftrightarrow> r \<in> set (dict_values (ro_handlers ro)) \<and> ?P r" for r
    by (simp add: rs)
  ultimately show ?thesis using sd by blast
qed

definition sample_handler :: "nat \<Rightarrow> handler" where
  "sample_handler n = \<lparr>ha_id = n, ha_async = True, ha_name = ''m.f''\<rparr>"

definition two_handlers :: router where
  "two_handlers =
     snd (register_handler (PL_str ''a.*'') (sample_handler 2) (Some ''hi'') None None 5
       (snd (register_handler (PL_str ''a.b'') (sample_handler 1) (Some ''lo'') None None 0
         empty_router)))"

lemma two_handlers_reachable: "router_reachable two_handlers"
  unfolding two_handlers_def by (intro router_reachable.intros)


theorem match_handlers_exact_witness:
  "\<exists>rs. match_handlers (RL_str ''a.b'') None None None two_handlers = Inr rs
     \<and> map rg_name rs = [''hi'', ''lo''] \<and> distinct rs"
proof -
  have "case match_handlers (RL_str ''a.b'') None None None two_handlers of
      Inr rs \<Rightarrow> map rg_name rs = [''hi'', ''lo''] | Inl _ \<Rightarrow> False"
    by code_simp
  then obtain rs where m: "match_handlers (RL_str ''a.b'') None None None two_handlers = Inr rs"
    and names: "map rg_name rs = [''hi'', ''lo'']"
    by (rule result_InrE)
  from match_handlers_exact [OF two_handlers_reachable m] have "distinct rs" by (rule conjunct1)
  with m names show ?thesis by (intro exI conjI)
qed

text \<open>
  C5: dispatch runs the matching handlers one after the other in rank order and stops at the
  first one that raises. Observed on a world that logs the handlers called: the log grows by
  exactly the matching handlers up to and including the first failing one, dispatch returns all
  the results in order when none fails, and otherwise the failing handler's error.
\<close>

theorem dispatch_runs_in_order:
  assumes "match_handlers rl (Some (di_message di)) hs version ro = Inr rs"
    and "hs = (case hs0 of Some h \<Rightarrow> Some h | None \<Rightarrow> map_option ev_headers (di_envelope di))"
    and "version = (case v0 of Some v \<Rightarrow> Some v | None \<Rightarrow> map_option ev_version (di_envelope di))"
  shows "snd (dispatch (logged res) di (Some rl) hs0 v0 ro w)
           = w @ map (ha_id \<circ> rg_handler) (called_until_error res rs)
    \<and> (case fst (dispatch (logged res) di (Some rl) hs0 v0 ro w) of
         Inr xs \<Rightarrow> map Inr xs = map (res \<circ> rg_handler) rs
       | Inl e \<Rightarrow> \<exists>r \<in> set rs. res (rg_handler r) = Inl e \<and> last (called_until_error res rs) = r)"
proof -
  have "dispatch (logged res) di (Some rl) hs0 v0 ro w = run_handlers (logged res) rs w"
    using assms(1) by (simp add: dispatch_def Let_def flip: assms(2,3))
  then show ?thesis
    by (simp add: run_handlers_log run_handlers_result)
qed

theorem dispatch_runs_in_order_witness:
  "snd (dispatch (logged (\<lambda>h. if ha_id h = 2 then raise ValueError else Inr (ha_id h)))
      \<lparr>di_message = [], di_route = None, di_envelope = None\<rparr>
      (Some (RL_str ''a.b'')) None None two_handlers []) = [2]"
proof -
  let ?di = "\<lparr>di_message = [], di_route = None, di_envelope = None\<rparr>"
  let ?res = "\<lambda>h. if ha_id h = 2 then raise ValueError else Inr (ha_id h)"
  have "case match_handlers (RL_str ''a.b'') (Some []) None None two_handlers of
      Inr rs \<Rightarrow> map (ha_id \<circ> rg_handler) rs = [2, 1] | Inl _ \<Rightarrow> False"
    by code_simp
  then obtain rs where m: "match_handlers (RL_str ''a.b'') (Some []) None None two_handlers = Inr rs"
    and ids: "map (ha_id \<circ> rg_handler) rs = [2, 1]"
    by (rule result_InrE)
  have "map (ha_id \<circ> rg_handler) (called_until_error ?res rs) = [2]"
    using ids by (cases rs) auto
  then show ?thesis
    using dispatch_runs_in_order [of "RL_str ''a.b''" ?di None None two_handlers rs None None ?res "[]"] m
    by simp
qed

text \<open>
  Resolving destinations never repeats a destination, returns exactly those of the
  matching rules, and puts first the destination of the best-ranked matching rule.
\<close>

theorem resolve_destinations_exact:
  assumes "router_reachable ro" and "resolve_destinations rl msg hs version ro = Inr ds"
  shows "distinct ds
    \<and> set ds = dr_destination ` {r \<in> set (ro_rules ro).
        route_matches (PL_pattern (dr_pattern r)) rl hs msg version = Inr True}
    \<and> (ds \<noteq> [] \<longrightarrow> (\<exists>r \<in> set (ro_rules ro).
          route_matches (PL_pattern (dr_pattern r)) rl hs msg version = Inr True
          \<and> hd ds = dr_destination r
          \<and> (\<forall>r' \<in> set (ro_rules ro).
               route_matches (PL_pattern (dr_pattern r')) rl hs msg version = Inr True
               \<longrightarrow> rule_rank r \<le> rule_rank r')))"
proof -
  let ?P = "\<lambda>r. route_matches (PL_pattern (dr_pattern r)) rl hs msg version = Inr True"
  let ?rs = "filter ?P (destination_rules ro)"
  have ds: "ds = collect_destinations ?rs []"
    using assms(2) by (auto simp: resolve_destinations_def filter_result_Inr split: sum.splits)
  have set_rs: "set ?rs = {r \<in> set (ro_rules ro). ?P r}"
    by (auto simp: destination_rules_def)
  have "sorted (map rule_rank ?rs)"
    using rules.filter_ordered [OF router_reachable_ok [OF assms(1)], of ?P]
    by (simp add: destination_rules_def)
  then have least: "?rs \<noteq> [] \<Longrightarrow> r' \<in> set ?rs \<Longrightarrow> rule_rank (hd ?rs) \<le> rule_rank r'" for r'
    by (cases ?rs) auto
  have "ds \<noteq> [] \<Longrightarrow> ?rs \<noteq> []" using ds by auto
  moreover have "?rs \<noteq> [] \<Longrightarrow> hd ?rs \<in> set ?rs" by (rule hd_in_set)
  ultimately have "ds \<noteq> [] \<Longrightarrow> \<exists>r \<in> set (ro_rules ro). ?P r \<and> hd ds = dr_destination r
      \<and> (\<forall>r' \<in> set (ro_rules ro). ?P r' \<longrightarrow> rule_rank r \<le> rule_rank r')"
    using hd_collect_destinations [of ?rs] least set_rs ds by blast
  moreover have "distinct ds" by (simp add: ds collect_destinations_distinct)
  moreover have "set ds = dr_destination ` {r \<in> set (ro_rules ro). ?P r}"
    using set_rs by (simp add: ds collect_destinations_set)
  ultimately show ?thesis by blast
qed

definition sample_destination :: "string \<Rightarrow> destination" where
  "sample_destination n = \<lparr>de_name = n, de_kind = DK_QUEUE, de_engine = None, de_options = []\<rparr>"

definition two_rules :: router where
  "two_rules =
     snd (map_destination (PL_str ''a.*'') (sample_destination ''q1'') 0 None None
       (snd (map_destination (PL_str ''*'') (sample_destination ''q2'') 7 None None empty_router)))"

theorem resolve_destinations_exact_witness:
  "\<exists>ds. resolve_destinations (RL_str ''a.b'') None None None two_rules = Inr ds
     \<and> map de_name ds = [''q2'', ''q1''] \<and> distinct ds"
proof -
  have "case resolve_destinations (RL_str ''a.b'') None None None two_rules of
      Inr ds \<Rightarrow> map de_name ds = [''q2'', ''q1''] | Inl _ \<Rightarrow> False"
    by code_simp
  then obtain ds where m: "resolve_destinations (RL_str ''a.b'') None None None two_rules = Inr ds"
    and names: "map de_name ds = [''q2'', ''q1'']"
    by (rule result_InrE)
  have "router_reachable two_rules"
    unfolding two_rules_def by (intro router_reachable.intros)
  from resolve_destinations_exact [OF this m] have "distinct ds" by (rule conjunct1)
  with m names show ?thesis by (intro exI conjI)
qed


text \<open>
  A successful registration adds the new record under its name, takes the next sequence
  number and leaves every other name as it was. It can displace a stored handler in one case only: no name was
  given, the handler's own name is taken, and the generated fallback (own name, colon, sequence
  number) is taken as well. An explicit name never displaces anything.
\<close>

theorem register_handler_adds:
  assumes "register_handler pattern h name hs version priority ro = (Inr r, ro')"
  shows "rg_handler r = h \<and> rg_priority r = priority
    \<and> rg_sequence r = ro_sequence ro + 1 \<and> ro_sequence ro' = ro_sequence ro + 1
    \<and> dict_get (ro_handlers ro') (rg_name r) = Some r
    \<and> (\<forall>k. k \<noteq> rg_name r \<longrightarrow> dict_get (ro_handlers ro') k = dict_get (ro_handlers ro) k)
    \<and> (dict_has (ro_handlers ro) (rg_name r) \<longrightarrow>
         name = None \<and> dict_has (ro_handlers ro) (ha_name h)
         \<and> rg_name r = ha_name h @ '':'' @ digits_of (nat (ro_sequence ro + 1)))"
proof -
  let ?n = "ro_sequence ro + 1"
  let ?wanted = "case name of None \<Rightarrow> ha_name h | Some n \<Rightarrow> if n = [] then ha_name h else n"
  define final where "final = (if dict_has (ro_handlers ro) ?wanted
      then ha_name h @ '':'' @ digits_of (nat ?n) else ?wanted)"
  from assms have named: "\<not> (dict_has (ro_handlers ro) ?wanted \<and> name \<noteq> None)"
    unfolding register_handler_def Let_def by (cases "ha_async h") (simp_all split: if_split_asm)
  from assms have async: "\<not> \<not> ha_async h"
    by (cases "ha_async h") (simp_all add: register_handler_def)
  have reg: "register_handler pattern h name hs version priority ro =
      (case as_pattern pattern hs version of
         Inl e \<Rightarrow> (Inl e, ro\<lparr>ro_sequence := ?n\<rparr>)
       | Inr p \<Rightarrow>
           let r = \<lparr>rg_name = final, rg_pattern = p, rg_handler = h, rg_priority = priority, rg_sequence = ?n\<rparr>
           in (Inr r, ro\<lparr>ro_sequence := ?n, ro_handlers := dict_set final r (ro_handlers ro)\<rparr>))"
    unfolding register_handler_def if_not_P [OF async] Let_def if_not_P [OF named] final_def
    by (cases "as_pattern pattern hs version") simp_all
  obtain p where
    "r = \<lparr>rg_name = final, rg_pattern = p, rg_handler = h, rg_priority = priority, rg_sequence = ?n\<rparr>"
    "ro' = ro\<lparr>ro_sequence := ?n, ro_handlers := dict_set final r (ro_handlers ro)\<rparr>"
    using assms [unfolded reg] by (cases "as_pattern pattern hs version") (auto simp: Let_def)
  moreover have "dict_has (ro_handlers ro) final \<Longrightarrow> name = None \<and> dict_has (ro_handlers ro) (ha_name h)
      \<and> final = ha_name h @ '':'' @ digits_of (nat ?n)"
    using named by (cases name) (simp_all add: final_def split: if_split_asm)
  ultimately show ?thesis by (simp add: dict_get_set)
qed

theorem register_handler_adds_witness:
  "case register_handler (PL_str ''a.b'') (sample_handler 1) (Some ''lo'') None None 0 empty_router of
     (Inr r, ro') \<Rightarrow> dict_get (ro_handlers ro') ''lo'' = Some r \<and> rg_sequence r = 1
   | _ \<Rightarrow> False"
proof -
  let ?reg = "register_handler (PL_str ''a.b'') (sample_handler 1) (Some ''lo'') None None 0 empty_router"
  have "case fst ?reg of Inl _ \<Rightarrow> False | Inr r \<Rightarrow> rg_name r = ''lo'' \<and> rg_sequence r = 1" by code_simp
  then obtain r where r: "fst ?reg = Inr r" and n: "rg_name r = ''lo'' \<and> rg_sequence r = 1"
    by (rule result_InrE)
  then have eq: "?reg = (Inr r, snd ?reg)" by (metis prod.collapse)
  from register_handler_adds [OF eq] n have "dict_get (ro_handlers (snd ?reg)) ''lo'' = Some r" by simp
  with n show ?thesis by (subst eq) simp
qed

text \<open>
  The displacement happens: a handler registered as \<open>m.f:3\<close> disappears when a second anonymous
  registration of \<open>m.f\<close> takes sequence number 3. Nothing is raised.
\<close>

definition displaced_before :: router where
  "displaced_before =
     snd (register_handler (PL_str ''a'') (sample_handler 2) None None None 0
       (snd (register_handler (PL_str ''b'') (sample_handler 1) (Some ''m.f:3'') None None 0
         empty_router)))"

lemma anonymous_registration_displaces:
  "router_reachable displaced_before
   \<and> map (ha_id \<circ> rg_handler) (registrations displaced_before) = [1, 2]
   \<and> is_ok (fst (register_handler (PL_str ''c'') (sample_handler 3) None None None 0 displaced_before))
   \<and> map (ha_id \<circ> rg_handler)
       (registrations (snd (register_handler (PL_str ''c'') (sample_handler 3) None None None 0 displaced_before)))
     = [2, 3]"
proof (intro conjI)
  show "router_reachable displaced_before"
    unfolding displaced_before_def by (intro router_reachable.intros)
qed code_simp+

text \<open>
  \<open>as_pattern\<close> ignores the headers argument when the pattern is a \<open>Route\<close>: a registration on a
  route object with required headers fires without them.
\<close>

lemma route_pattern_ignores_headers:
  "as_pattern (PL_route r) (Some hs) version = as_pattern (PL_route r) None version"
  by simp

lemma route_registration_ignores_headers:
  "case match_handlers (RL_str ''a'') None None None
      (snd (register_handler (PL_route \<lparr>rt_name = ''a'', rt_kind = RK_TOPIC, rt_headers = []\<rparr>)
         (sample_handler 1) None (Some [(''k'', ''v'')]) None 0 empty_router)) of
     Inl _ \<Rightarrow> False | Inr rs \<Rightarrow> map (ha_id \<circ> rg_handler) rs = [1]"
  by code_simp

end
