(* ===== verification/Acknowledgements.thy ===== *)
theory Acknowledgements
  imports Exceptions
begin

text \<open>
  \<open>broka/acknowledgements.py\<close>: the acknowledgement modes and the transport adapters. An
  adapter is a record of operations on a transport state \<open>'w\<close>; each returns the result or
  the raised error, and the transport state it leaves. \<open>base_adapter\<close>, \<open>noop_adapter\<close> and
  \<open>callback_adapter\<close> are the three adapter classes of the file.
\<close>

datatype ack_mode = AM_AUTO | AM_MANUAL | AM_BATCH | AM_NONE

record 'w ack_adapter =
  ad_ack :: "'w action"
  ad_nack :: "bool \<Rightarrow> 'w action"
  ad_reject :: "'w action"
  ad_requeue :: "'w action"
  ad_defer :: "rat \<Rightarrow> 'w action"
  ad_touch :: "rat \<Rightarrow> 'w action"

definition unsupported :: "'w action" where
  "unsupported w = (raise UnsupportedCapabilityError, w)"

definition base_adapter :: "'w ack_adapter" where
  "base_adapter =
     \<lparr>ad_ack = unsupported, ad_nack = (\<lambda>requeue. unsupported), ad_reject = unsupported,
      ad_requeue = unsupported, ad_defer = (\<lambda>delay. unsupported),
      ad_touch = (\<lambda>extension. unsupported)\<rparr>"

definition completed :: "'w action" where
  "completed w = (Inr (), w)"

definition noop_adapter :: "'w ack_adapter" where
  "noop_adapter =
     \<lparr>ad_ack = completed, ad_nack = (\<lambda>requeue. completed), ad_reject = completed,
      ad_requeue = completed, ad_defer = (\<lambda>delay. completed),
      ad_touch = (\<lambda>extension. completed)\<rparr>"

record 'w ack_callbacks =
  cb_ack :: "'w action option"
  cb_nack :: "(bool \<Rightarrow> 'w action) option"
  cb_reject :: "'w action option"
  cb_requeue :: "'w action option"
  cb_defer :: "(rat \<Rightarrow> 'w action) option"
  cb_touch :: "(rat \<Rightarrow> 'w action) option"

definition callback_adapter :: "'w ack_callbacks \<Rightarrow> 'w ack_adapter" where
  "callback_adapter cb =
     \<lparr>ad_ack = (case cb_ack cb of None \<Rightarrow> unsupported | Some f \<Rightarrow> f),
      ad_nack = (case cb_nack cb of None \<Rightarrow> (\<lambda>requeue. unsupported) | Some f \<Rightarrow> f),
      ad_reject = (case cb_reject cb of None \<Rightarrow> unsupported | Some f \<Rightarrow> f),
      ad_requeue = (case cb_requeue cb of None \<Rightarrow> unsupported | Some f \<Rightarrow> f),
      ad_defer = (case cb_defer cb of None \<Rightarrow> (\<lambda>delay. unsupported) | Some f \<Rightarrow> f),
      ad_touch = (case cb_touch cb of None \<Rightarrow> (\<lambda>extension. unsupported) | Some f \<Rightarrow> f)\<rparr>"

definition no_callbacks :: "'w ack_callbacks" where
  "no_callbacks =
     \<lparr>cb_ack = None, cb_nack = None, cb_reject = None, cb_requeue = None,
      cb_defer = None, cb_touch = None\<rparr>"

text \<open>The adapter without callbacks is the base adapter: no operation degrades to a no-op.\<close>

lemma callback_adapter_none: "callback_adapter no_callbacks = base_adapter"
  by (simp add: callback_adapter_def no_callbacks_def base_adapter_def)

end
