(* ===== verification/Floats.thy ===== *)
theory Floats
  imports Prelude
begin

text \<open>
  Python floats where infinities and NaN matter: finite values are exact rationals (no
  rounding), the rest are the IEEE specials. Comparisons with NaN are false, and \<open>min\<close> and
  \<open>max\<close> are the built-ins' two-argument scans, which keep the first argument unless the
  second is strictly smaller (greater).
\<close>

datatype pyfloat = Fin rat | PosInf | NegInf | NaN

fun fl_finite :: "pyfloat \<Rightarrow> bool" where
  "fl_finite (Fin _) = True"
| "fl_finite _ = False"

fun fl_lt :: "pyfloat \<Rightarrow> pyfloat \<Rightarrow> bool" where
  "fl_lt NaN _ = False"
| "fl_lt _ NaN = False"
| "fl_lt (Fin a) (Fin b) = (a < b)"
| "fl_lt NegInf NegInf = False"
| "fl_lt NegInf _ = True"
| "fl_lt _ NegInf = False"
| "fl_lt PosInf _ = False"
| "fl_lt _ PosInf = True"

definition fl_le :: "pyfloat \<Rightarrow> pyfloat \<Rightarrow> bool" where
  "fl_le a b \<longleftrightarrow> fl_lt a b \<or> (a = b \<and> a \<noteq> NaN)"

definition fl_min :: "pyfloat \<Rightarrow> pyfloat \<Rightarrow> pyfloat" where
  "fl_min a b = (if fl_lt b a then b else a)"

definition fl_max :: "pyfloat \<Rightarrow> pyfloat \<Rightarrow> pyfloat" where
  "fl_max a b = (if fl_lt a b then b else a)"

fun fl_neg :: "pyfloat \<Rightarrow> pyfloat" where
  "fl_neg (Fin a) = Fin (- a)"
| "fl_neg PosInf = NegInf"
| "fl_neg NegInf = PosInf"
| "fl_neg NaN = NaN"

fun fl_abs :: "pyfloat \<Rightarrow> pyfloat" where
  "fl_abs (Fin a) = Fin \<bar>a\<bar>"
| "fl_abs PosInf = PosInf"
| "fl_abs NegInf = PosInf"
| "fl_abs NaN = NaN"

fun fl_add :: "pyfloat \<Rightarrow> pyfloat \<Rightarrow> pyfloat" where
  "fl_add NaN _ = NaN"
| "fl_add _ NaN = NaN"
| "fl_add (Fin a) (Fin b) = Fin (a + b)"
| "fl_add PosInf NegInf = NaN"
| "fl_add NegInf PosInf = NaN"
| "fl_add PosInf _ = PosInf"
| "fl_add _ PosInf = PosInf"
| "fl_add NegInf _ = NegInf"
| "fl_add _ NegInf = NegInf"

definition fl_sub :: "pyfloat \<Rightarrow> pyfloat \<Rightarrow> pyfloat" where
  "fl_sub a b = fl_add a (fl_neg b)"

fun fl_sign :: "pyfloat \<Rightarrow> rat" where
  "fl_sign (Fin a) = sgn a"
| "fl_sign PosInf = 1"
| "fl_sign NegInf = - 1"
| "fl_sign NaN = 0"

definition fl_mul :: "pyfloat \<Rightarrow> pyfloat \<Rightarrow> pyfloat" where
  "fl_mul a b =
     (if a = NaN \<or> b = NaN then NaN
      else case (a, b) of
        (Fin x, Fin y) \<Rightarrow> Fin (x * y)
      | _ \<Rightarrow> (let s = fl_sign a * fl_sign b
              in if s = 0 then NaN else if 0 < s then PosInf else NegInf))"

lemma fl_mul_Fin [simp]: "fl_mul (Fin x) (Fin y) = Fin (x * y)"
  by (simp add: fl_mul_def)

lemma fl_sub_Fin [simp]: "fl_sub (Fin x) (Fin y) = Fin (x - y)"
  by (simp add: fl_sub_def)

lemma fl_le_Fin [simp]: "fl_le (Fin a) (Fin b) \<longleftrightarrow> a \<le> b"
  by (auto simp: fl_le_def)

lemma fl_min_Fin [simp]: "fl_min (Fin a) (Fin b) = Fin (min a b)"
  by (auto simp: fl_min_def)

lemma fl_max_Fin [simp]: "fl_max (Fin a) (Fin b) = Fin (max a b)"
  by (auto simp: fl_max_def)

lemma fl_finite_iff: "fl_finite x \<longleftrightarrow> (\<exists>a. x = Fin a)"
  by (cases x) auto

end
