(* ===== verification/Deliveries.thy ===== *)
theory Deliveries
  imports Acknowledgements Floats
begin

text \<open>
  \<open>broka/delivery.py\<close>: the delivery object and its lifecycle state machine. Every operation
  holds the delivery's lock while it reads the state, calls the adapter and moves the state, so one
  operation is one atomic step on the delivery and the transport state \<open>'w\<close>, and interleavings of tasks
  are sequences of operations (\<open>deliv_run\<close>). The transition observer runs after the lock is released;
  the model calls it before the next operation starts. The adapter and the observer are parameters.
\<close>

datatype delivery_state =
    DS_CREATED | DS_PUBLISHED | DS_QUEUED | DS_DELIVERED | DS_PROCESSING | DS_ACKNOWLEDGED
  | DS_NACKED | DS_DEFERRED | DS_REQUEUED | DS_RETRY_SCHEDULED | DS_REJECTED
  | DS_DEAD_LETTERED | DS_EXPIRED | DS_CANCELLED

definition terminal_delivery_states :: "delivery_state set" where
  "terminal_delivery_states = {DS_ACKNOWLEDGED, DS_DEAD_LETTERED, DS_EXPIRED, DS_CANCELLED}"

fun allowed_transitions :: "delivery_state \<Rightarrow> delivery_state set" where
  "allowed_transitions DS_CREATED = {DS_PUBLISHED, DS_QUEUED, DS_DELIVERED, DS_CANCELLED}"
| "allowed_transitions DS_PUBLISHED = {DS_QUEUED, DS_DELIVERED, DS_CANCELLED}"
| "allowed_transitions DS_QUEUED = {DS_DELIVERED, DS_EXPIRED, DS_CANCELLED}"
| "allowed_transitions DS_DELIVERED =
     {DS_PROCESSING, DS_ACKNOWLEDGED, DS_NACKED, DS_REQUEUED, DS_DEFERRED,
      DS_RETRY_SCHEDULED, DS_REJECTED, DS_DEAD_LETTERED, DS_EXPIRED, DS_CANCELLED}"
| "allowed_transitions DS_PROCESSING =
     {DS_ACKNOWLEDGED, DS_NACKED, DS_REQUEUED, DS_DEFERRED, DS_RETRY_SCHEDULED,
      DS_REJECTED, DS_DEAD_LETTERED, DS_EXPIRED, DS_CANCELLED}"
| "allowed_transitions DS_NACKED =
     {DS_REQUEUED, DS_RETRY_SCHEDULED, DS_REJECTED, DS_DEAD_LETTERED}"
| "allowed_transitions DS_DEFERRED =
     {DS_QUEUED, DS_DELIVERED, DS_RETRY_SCHEDULED, DS_EXPIRED, DS_CANCELLED}"
| "allowed_transitions DS_REQUEUED = {DS_QUEUED, DS_DELIVERED, DS_EXPIRED, DS_CANCELLED}"
| "allowed_transitions DS_RETRY_SCHEDULED =
     {DS_QUEUED, DS_DELIVERED, DS_DEAD_LETTERED, DS_EXPIRED, DS_CANCELLED}"
| "allowed_transitions DS_REJECTED = {DS_DEAD_LETTERED}"
| "allowed_transitions DS_ACKNOWLEDGED = {}"
| "allowed_transitions DS_DEAD_LETTERED = {}"
| "allowed_transitions DS_EXPIRED = {}"
| "allowed_transitions DS_CANCELLED = {}"

record delivery =
  dl_message_id :: string
  dl_attempt :: int
  dl_delivered_at :: instant
  dl_deadline :: "instant option"
  dl_mode :: ack_mode
  dl_state :: delivery_state

record transition =
  tr_from :: delivery_state
  tr_to :: delivery_state
  tr_reason :: "string option"

type_synonym 'w observer = "transition \<Rightarrow> 'w \<Rightarrow> unit result \<times> 'w"

fun aware_utc :: "datetime \<Rightarrow> instant result" where
  "aware_utc (Aware t) = Inr t"
| "aware_utc (Naive _) = raise ValueError"

definition new_delivery ::
  "string \<Rightarrow> int \<Rightarrow> datetime \<Rightarrow> datetime option \<Rightarrow> ack_mode \<Rightarrow> delivery_state \<Rightarrow> delivery result"
where
  "new_delivery mid attempt delivered_at deadline mode state =
     (if attempt < 1 then raise ValueError
      else case aware_utc delivered_at of
        Inl e \<Rightarrow> Inl e
      | Inr delivered \<Rightarrow>
          (case deadline of
             None \<Rightarrow> Inr \<lparr>dl_message_id = mid, dl_attempt = attempt, dl_delivered_at = delivered,
                          dl_deadline = None, dl_mode = mode, dl_state = state\<rparr>
           | Some dt \<Rightarrow>
               (case aware_utc dt of
                  Inl e \<Rightarrow> Inl e
                | Inr t \<Rightarrow>
                    if t < delivered then raise ValueError
                    else Inr \<lparr>dl_message_id = mid, dl_attempt = attempt,
                              dl_delivered_at = delivered, dl_deadline = Some t,
                              dl_mode = mode, dl_state = state\<rparr>)))"

definition is_terminal :: "delivery \<Rightarrow> bool" where
  "is_terminal d \<longleftrightarrow> dl_state d \<in> terminal_delivery_states"

definition validate_transition :: "delivery \<Rightarrow> delivery_state \<Rightarrow> unit result" where
  "validate_transition d target =
     (if target \<in> allowed_transitions (dl_state d) then Inr ()
      else raise InvalidStateTransitionError)"

definition transition_locked ::
  "delivery_state \<Rightarrow> string option \<Rightarrow> delivery \<Rightarrow> transition option result \<times> delivery"
where
  "transition_locked target reason d =
     (if target = dl_state d then (Inr None, d)
      else case validate_transition d target of
        Inl e \<Rightarrow> (Inl e, d)
      | Inr _ \<Rightarrow>
          (Inr (Some \<lparr>tr_from = dl_state d, tr_to = target, tr_reason = reason\<rparr>),
           d\<lparr>dl_state := target\<rparr>))"

text \<open>An observer's \<open>Exception\<close> is logged and swallowed; anything else propagates.\<close>

definition notify :: "'w observer option \<Rightarrow> transition option \<Rightarrow> 'w action" where
  "notify obs t w =
     (case t of
        None \<Rightarrow> (Inr (), w)
      | Some tr \<Rightarrow>
          (case obs of
             None \<Rightarrow> (Inr (), w)
           | Some f \<Rightarrow>
               (case f tr w of
                  (Inl e, w') \<Rightarrow> (if is_exception e then Inr () else Inl e, w')
                | (Inr _, w') \<Rightarrow> (Inr (), w'))))"

definition deliv_transition ::
  "'w observer option \<Rightarrow> delivery_state \<Rightarrow> string option \<Rightarrow> delivery \<Rightarrow> 'w
   \<Rightarrow> transition option result \<times> delivery \<times> 'w"
where
  "deliv_transition obs target reason d w =
     (case transition_locked target reason d of
        (Inl e, d') \<Rightarrow> (Inl e, d', w)
      | (Inr t, d') \<Rightarrow>
          (case notify obs t w of
             (Inl e, w') \<Rightarrow> (Inl e, d', w')
           | (Inr _, w') \<Rightarrow> (Inr t, d', w')))"

definition wrap_ack_error :: "pyexc \<Rightarrow> pyexc" where
  "wrap_ack_error e =
     (if isinstance e UnsupportedCapabilityError \<or> isinstance e AcknowledgementError then e
      else if is_exception e then PyExc AcknowledgementError (retryable_of e)
      else e)"

definition perform ::
  "'w observer option \<Rightarrow> delivery_state \<Rightarrow> string \<Rightarrow> 'w action \<Rightarrow> delivery \<Rightarrow> 'w
   \<Rightarrow> unit result \<times> delivery \<times> 'w"
where
  "perform obs target operation invoke d w =
     (if dl_mode d = AM_NONE then (raise UnsupportedCapabilityError, d, w)
      else if dl_state d = target then (Inr (), d, w)
      else case validate_transition d target of
        Inl e \<Rightarrow> (Inl e, d, w)
      | Inr _ \<Rightarrow>
          (case invoke w of
             (Inl e, w') \<Rightarrow> (Inl (wrap_ack_error e), d, w')
           | (Inr _, w') \<Rightarrow>
               (case transition_locked target (Some operation) d of
                  (Inl e, d') \<Rightarrow> (Inl e, d', w')
                | (Inr t, d') \<Rightarrow> (let (r, w'') = notify obs t w' in (r, d', w'')))))"

definition positive_seconds :: "pyfloat \<Rightarrow> rat result" where
  "positive_seconds value =
     (case value of Fin s \<Rightarrow> if s \<le> 0 then raise ValueError else Inr s | _ \<Rightarrow> raise ValueError)"

definition deliv_ack ::
  "'w ack_adapter \<Rightarrow> 'w observer option \<Rightarrow> delivery \<Rightarrow> 'w \<Rightarrow> unit result \<times> delivery \<times> 'w" where
  "deliv_ack ad obs = perform obs DS_ACKNOWLEDGED ''ack'' (ad_ack ad)"

definition deliv_nack ::
  "'w ack_adapter \<Rightarrow> 'w observer option \<Rightarrow> bool \<Rightarrow> delivery \<Rightarrow> 'w \<Rightarrow> unit result \<times> delivery \<times> 'w"
where
  "deliv_nack ad obs requeue =
     perform obs (if requeue then DS_REQUEUED else DS_NACKED) ''nack'' (ad_nack ad requeue)"

definition deliv_reject ::
  "'w ack_adapter \<Rightarrow> 'w observer option \<Rightarrow> delivery \<Rightarrow> 'w \<Rightarrow> unit result \<times> delivery \<times> 'w" where
  "deliv_reject ad obs = perform obs DS_REJECTED ''reject'' (ad_reject ad)"

definition deliv_requeue ::
  "'w ack_adapter \<Rightarrow> 'w observer option \<Rightarrow> delivery \<Rightarrow> 'w \<Rightarrow> unit result \<times> delivery \<times> 'w" where
  "deliv_requeue ad obs = perform obs DS_REQUEUED ''requeue'' (ad_requeue ad)"

definition deliv_defer ::
  "'w ack_adapter \<Rightarrow> 'w observer option \<Rightarrow> pyfloat \<Rightarrow> delivery \<Rightarrow> 'w \<Rightarrow> unit result \<times> delivery \<times> 'w"
where
  "deliv_defer ad obs delay d w =
     (case positive_seconds delay of
        Inl e \<Rightarrow> (Inl e, d, w)
      | Inr s \<Rightarrow> perform obs DS_DEFERRED ''defer'' (ad_defer ad s) d w)"

definition deliv_touch ::
  "'w ack_adapter \<Rightarrow> pyfloat \<Rightarrow> delivery \<Rightarrow> 'w \<Rightarrow> unit result \<times> delivery \<times> 'w" where
  "deliv_touch ad extension d w =
     (case positive_seconds extension of
        Inl e \<Rightarrow> (Inl e, d, w)
      | Inr s \<Rightarrow>
          if dl_mode d = AM_NONE then (raise UnsupportedCapabilityError, d, w)
          else if dl_state d \<notin> {DS_DELIVERED, DS_PROCESSING, DS_DEFERRED}
          then (raise InvalidStateTransitionError, d, w)
          else (case ad_touch ad s w of
                  (Inl e, w') \<Rightarrow> (Inl (wrap_ack_error e), d, w')
                | (Inr _, w') \<Rightarrow> (Inr (), d, w')))"

text \<open>
  The remaining public operations are \<open>transition\<close> with a fixed target:
  \<open>start_processing\<close>, \<open>schedule_retry\<close>, \<open>mark_dead_lettered\<close>, \<open>mark_expired\<close>, \<open>cancel\<close>.
\<close>

datatype delivery_op =
    OpTransition delivery_state "string option"
  | OpAck | OpNack bool | OpReject | OpRequeue | OpDefer pyfloat | OpTouch pyfloat

definition start_processing :: delivery_op where
  "start_processing = OpTransition DS_PROCESSING None"

definition schedule_retry :: "string option \<Rightarrow> delivery_op" where
  "schedule_retry reason = OpTransition DS_RETRY_SCHEDULED reason"

definition mark_dead_lettered :: "string option \<Rightarrow> delivery_op" where
  "mark_dead_lettered reason = OpTransition DS_DEAD_LETTERED reason"

definition mark_expired :: "string option \<Rightarrow> delivery_op" where
  "mark_expired reason = OpTransition DS_EXPIRED reason"

definition cancel_delivery :: "string option \<Rightarrow> delivery_op" where
  "cancel_delivery reason = OpTransition DS_CANCELLED reason"

fun deliv_op ::
  "'w ack_adapter \<Rightarrow> 'w observer option \<Rightarrow> delivery_op \<Rightarrow> delivery \<Rightarrow> 'w
   \<Rightarrow> unit result \<times> delivery \<times> 'w"
where
  "deliv_op ad obs (OpTransition target reason) d w =
     (let (r, d', w') = deliv_transition obs target reason d w
      in (case r of Inl e \<Rightarrow> Inl e | Inr _ \<Rightarrow> Inr (), d', w'))"
| "deliv_op ad obs OpAck d w = deliv_ack ad obs d w"
| "deliv_op ad obs (OpNack requeue) d w = deliv_nack ad obs requeue d w"
| "deliv_op ad obs OpReject d w = deliv_reject ad obs d w"
| "deliv_op ad obs OpRequeue d w = deliv_requeue ad obs d w"
| "deliv_op ad obs (OpDefer delay) d w = deliv_defer ad obs delay d w"
| "deliv_op ad obs (OpTouch extension) d w = deliv_touch ad extension d w"

fun deliv_run ::
  "'w ack_adapter \<Rightarrow> 'w observer option \<Rightarrow> delivery_op list \<Rightarrow> delivery \<Rightarrow> 'w
   \<Rightarrow> unit result list \<times> delivery \<times> 'w"
where
  "deliv_run ad obs [] d w = ([], d, w)"
| "deliv_run ad obs (x # xs) d w =
     (let (r, d', w') = deliv_op ad obs x d w;
          (rs, d'', w'') = deliv_run ad obs xs d' w'
      in (r # rs, d'', w''))"

subsection \<open>The transition table\<close>

lemma terminal_iff_no_successor:
  "s \<in> terminal_delivery_states \<longleftrightarrow> allowed_transitions s = {}"
  by (cases s) (simp_all add: terminal_delivery_states_def)

lemma terminal_delivery_simps [simp]:
  "DS_ACKNOWLEDGED \<in> terminal_delivery_states"
  "DS_DEAD_LETTERED \<in> terminal_delivery_states"
  "DS_EXPIRED \<in> terminal_delivery_states"
  "DS_CANCELLED \<in> terminal_delivery_states"
  by (simp_all add: terminal_delivery_states_def)

lemma not_self_transition: "s \<notin> allowed_transitions s"
  by (cases s) simp_all

lemma created_has_no_predecessor: "DS_CREATED \<notin> allowed_transitions s"
  by (cases s) simp_all

subsection \<open>Branches of one operation\<close>

lemmas deliv_op_defs =
  deliv_ack_def deliv_nack_def deliv_reject_def deliv_requeue_def deliv_defer_def deliv_touch_def

lemma transition_locked_same [simp]:
  "transition_locked (dl_state d) reason d = (Inr None, d)"
  by (simp add: transition_locked_def)

lemma perform_ok [step_frames]:
  assumes "dl_mode d \<noteq> AM_NONE" "target \<in> allowed_transitions (dl_state d)"
    and "invoke w = (Inr u, w')"
  shows "perform obs target opn invoke d w =
    (let (r, w'') = notify obs (Some \<lparr>tr_from = dl_state d, tr_to = target, tr_reason = Some opn\<rparr>) w'
     in (r, d\<lparr>dl_state := target\<rparr>, w''))"
  using assms not_self_transition [of "dl_state d"]
  by (auto simp: perform_def validate_transition_def transition_locked_def)

lemma perform_failed:
  assumes "dl_mode d \<noteq> AM_NONE" "target \<in> allowed_transitions (dl_state d)"
    and "invoke w = (Inl e, w')"
  shows "perform obs target opn invoke d w = (Inl (wrap_ack_error e), d, w')"
  using assms not_self_transition [of "dl_state d"]
  by (auto simp: perform_def validate_transition_def)

lemma perform_repeated:
  assumes "dl_mode d \<noteq> AM_NONE" "dl_state d = target"
  shows "perform obs target opn invoke d w = (Inr (), d, w)"
  using assms by (simp add: perform_def)

lemma perform_rejected [guard_simps]:
  assumes "dl_mode d \<noteq> AM_NONE" "dl_state d \<noteq> target" "target \<notin> allowed_transitions (dl_state d)"
  shows "perform obs target opn invoke d w = (raise InvalidStateTransitionError, d, w)"
  using assms by (simp add: perform_def validate_transition_def)

lemma perform_mode_none [guard_simps]:
  "dl_mode d = AM_NONE \<Longrightarrow> perform obs target opn invoke d w = (raise UnsupportedCapabilityError, d, w)"
  by (simp add: perform_def)

lemma perform_states:
  "perform obs target opn invoke d w = (r, d', w') \<Longrightarrow>
   d' = d \<or> target \<in> allowed_transitions (dl_state d) \<and> d' = d\<lparr>dl_state := target\<rparr>"
  by (auto simp: perform_def validate_transition_def transition_locked_def
        split: if_splits sum.splits prod.splits)

lemma deliv_transition_states:
  "deliv_transition obs target reason d w = (r, d', w') \<Longrightarrow>
   d' = d \<or> target \<in> allowed_transitions (dl_state d) \<and> d' = d\<lparr>dl_state := target\<rparr>"
  by (auto simp: deliv_transition_def validate_transition_def transition_locked_def
        split: if_splits sum.splits prod.splits)

lemma deliv_touch_states: "deliv_touch ad x d w = (r, d', w') \<Longrightarrow> d' = d"
  by (auto simp: deliv_touch_def split: if_splits sum.splits prod.splits)

lemma deliv_op_states:
  assumes "deliv_op ad obs x d w = (r, d', w')"
  shows "d' = d \<or> (\<exists>t \<in> allowed_transitions (dl_state d). d' = d\<lparr>dl_state := t\<rparr>)"
proof (cases x)
  case (OpTransition t reason)
  with assms show ?thesis
    by (auto split: prod.splits dest!: deliv_transition_states)
next
  case (OpTouch s)
  with assms show ?thesis by (auto dest: deliv_touch_states)
next
  case (OpDefer s)
  with assms show ?thesis
    by (auto simp: deliv_defer_def split: sum.splits dest!: perform_states)
qed (use assms in \<open>auto simp: deliv_op_defs dest!: perform_states\<close>)

subsection \<open>Terminal deliveries\<close>

lemma perform_terminal:
  assumes "is_terminal d"
  shows "\<exists>r. perform obs target opn invoke d w = (r, d, w)"
  using assms terminal_iff_no_successor [of "dl_state d"]
  by (auto simp: perform_def validate_transition_def is_terminal_def)

lemma deliv_transition_terminal:
  assumes "is_terminal d"
  shows "\<exists>r. deliv_transition obs target reason d w = (r, d, w)"
  using assms terminal_iff_no_successor [of "dl_state d"]
  by (auto simp: deliv_transition_def transition_locked_def validate_transition_def
        is_terminal_def notify_def)

lemma deliv_op_terminal:
  assumes "is_terminal d"
  shows "\<exists>r. deliv_op ad obs x d w = (r, d, w)"
proof (cases x)
  case (OpTransition t reason)
  then show ?thesis
    using deliv_transition_terminal [OF assms, of obs t reason w] by auto
next
  case (OpTouch s)
  with assms show ?thesis
    by (auto simp: deliv_touch_def is_terminal_def terminal_delivery_states_def split: sum.splits)
next
  case (OpDefer s)
  then show ?thesis
    using perform_terminal [OF assms] by (auto simp: deliv_defer_def split: sum.splits)
qed (use perform_terminal [OF assms] in \<open>auto simp: deliv_op_defs\<close>)

lemma deliv_run_terminal:
  "is_terminal d \<Longrightarrow> \<exists>rs. deliv_run ad obs xs d w = (rs, d, w)"
proof (induction xs)
  case Nil
  then show ?case by simp
next
  case (Cons x xs)
  then show ?case
    using deliv_op_terminal [of d ad obs x w] by auto
qed

subsection \<open>Runs follow the table\<close>

inductive reaches :: "delivery_state \<Rightarrow> delivery_state \<Rightarrow> bool" where
  here: "reaches s s"
| next_state: "t \<in> allowed_transitions s \<Longrightarrow> reaches t u \<Longrightarrow> reaches s u"

lemma deliv_run_reaches:
  "deliv_run ad obs xs d w = (rs, d', w') \<Longrightarrow>
   reaches (dl_state d) (dl_state d') \<and> d' = d\<lparr>dl_state := dl_state d'\<rparr>"
proof (induction xs arbitrary: d w rs)
  case Nil
  then show ?case by (auto intro: reaches.here)
next
  case (Cons x xs)
  obtain r d1 w1 where op: "deliv_op ad obs x d w = (r, d1, w1)"
    by (metis prod_cases3)
  with Cons.prems obtain rs' where run: "deliv_run ad obs xs d1 w1 = (rs', d', w')"
    by (auto split: prod.splits)
  note IH = Cons.IH [OF run]
  from deliv_op_states [OF op] show ?case
  proof
    assume "d1 = d"
    with IH show ?thesis by simp
  next
    assume "\<exists>t \<in> allowed_transitions (dl_state d). d1 = d\<lparr>dl_state := t\<rparr>"
    then obtain t where t: "t \<in> allowed_transitions (dl_state d)" "d1 = d\<lparr>dl_state := t\<rparr>"
      by blast
    with IH have "reaches t (dl_state d')" "d' = d\<lparr>dl_state := dl_state d'\<rparr>" by auto
    with t(1) show ?thesis by (auto intro: reaches.next_state)
  qed
qed

lemma reaches_rejected: "reaches s u \<Longrightarrow> s = DS_REJECTED \<or> s = DS_DEAD_LETTERED \<Longrightarrow>
    u = DS_REJECTED \<or> u = DS_DEAD_LETTERED"
  by (induction rule: reaches.induct) auto

subsection \<open>Transports that settle a message once\<close>

text \<open>
  What \<open>AcknowledgementAdapter\<close> promises the delivery when the transport keeps one decision
  per message: a successful operation records its decision, a failed one and \<open>touch\<close> record
  nothing, and a recorded decision never changes. \<open>settled\<close> reads the decision off the
  transport state, and \<open>obs\<close> is a transition observer that does not interfere with it.
\<close>

datatype settlement = ST_ack | ST_reject | ST_requeue | ST_defer

definition settlement_of :: "delivery_state \<Rightarrow> settlement option" where
  "settlement_of s =
     (case s of
        DS_ACKNOWLEDGED \<Rightarrow> Some ST_ack
      | DS_NACKED \<Rightarrow> Some ST_reject
      | DS_REJECTED \<Rightarrow> Some ST_reject
      | DS_REQUEUED \<Rightarrow> Some ST_requeue
      | DS_DEFERRED \<Rightarrow> Some ST_defer
      | _ \<Rightarrow> None)"

definition framework_op :: "delivery_op \<Rightarrow> bool" where
  "framework_op x \<longleftrightarrow> (case x of OpTransition t _ \<Rightarrow> settlement_of t = None | _ \<Rightarrow> True)"

locale settling_adapter =
  fixes ad :: "'w ack_adapter"
    and obs :: "'w observer option"
    and settled :: "'w \<Rightarrow> settlement option"
  assumes ack_settles: "ad_ack ad w = (Inr u, w') \<Longrightarrow> settled w' = Some ST_ack"
    and nack_settles:
      "ad_nack ad rq w = (Inr u, w') \<Longrightarrow> settled w' = Some (if rq then ST_requeue else ST_reject)"
    and reject_settles: "ad_reject ad w = (Inr u, w') \<Longrightarrow> settled w' = Some ST_reject"
    and requeue_settles: "ad_requeue ad w = (Inr u, w') \<Longrightarrow> settled w' = Some ST_requeue"
    and defer_settles: "ad_defer ad s w = (Inr u, w') \<Longrightarrow> settled w' = Some ST_defer"
    and touch_frame: "ad_touch ad s w = (r, w') \<Longrightarrow> settled w' = settled w"
    and failed_frame:
      "f \<in> {ad_ack ad, ad_nack ad rq, ad_reject ad, ad_requeue ad, ad_defer ad s} \<Longrightarrow>
       f w = (Inl e, w') \<Longrightarrow> settled w' = settled w"
    and decided_once:
      "f \<in> {ad_ack ad, ad_nack ad rq, ad_reject ad, ad_requeue ad, ad_defer ad s} \<Longrightarrow>
       settled w = Some x \<Longrightarrow> f w = (r, w') \<Longrightarrow> settled w' = Some x"
    and observer_frame: "obs = Some g \<Longrightarrow> g t w = (r, w') \<Longrightarrow> settled w' = settled w"
begin

definition agrees :: "delivery \<Rightarrow> 'w \<Rightarrow> bool" where
  "agrees d w \<longleftrightarrow>
     (case settlement_of (dl_state d) of None \<Rightarrow> True | Some x \<Rightarrow> settled w = Some x)"

lemma notify_frame: "notify obs t w = (r, w') \<Longrightarrow> settled w' = settled w"
  by (auto simp: notify_def split: option.splits prod.splits sum.splits if_splits
        dest: observer_frame)

lemma perform_settles:
  assumes f: "f \<in> {ad_ack ad, ad_nack ad rq, ad_reject ad, ad_requeue ad, ad_defer ad s}"
    and ok: "\<And>u v v'. f v = (Inr u, v') \<Longrightarrow> settled v' = settlement_of target"
    and run: "perform obs target opn f d w = (r, d', w')"
    and ag: "agrees d w"
  shows "agrees d' w' \<and> (settled w = Some x \<longrightarrow> settled w' = Some x)"
proof (cases "dl_mode d = AM_NONE \<or> dl_state d = target \<or> target \<notin> allowed_transitions (dl_state d)")
  case True
  with run ag show ?thesis
    by (auto simp: perform_def validate_transition_def split: if_splits)
next
  case False
  obtain q w1 where fw: "f w = (q, w1)" by (cases "f w")
  show ?thesis
  proof (cases q)
    case (Inl e)
    with False run fw have "d' = d" "w' = w1" by (auto simp: perform_failed)
    moreover have "settled w1 = settled w"
      using failed_frame [OF f] fw Inl by blast
    ultimately show ?thesis using ag by (simp add: agrees_def split: option.splits)
  next
    case (Inr u)
    from False run fw Inr have d': "d' = d\<lparr>dl_state := target\<rparr>" and n: "settled w' = settled w1"
      by (auto simp: perform_ok split: prod.splits dest: notify_frame)
    from fw Inr have "settled w1 = settlement_of target" by (auto dest: ok)
    with d' n decided_once [OF f _ fw] show ?thesis
      by (auto simp: agrees_def split: option.splits)
  qed
qed

lemma transition_settles:
  assumes "settlement_of target = None" and "deliv_transition obs target reason d w = (r, d', w')"
    and "agrees d w"
  shows "agrees d' w' \<and> (settled w = Some x \<longrightarrow> settled w' = Some x)"
  using assms
  by (auto simp: deliv_transition_def transition_locked_def validate_transition_def agrees_def
        split: if_splits sum.splits prod.splits option.splits dest!: notify_frame)

lemma op_settles:
  assumes "framework_op x" and "deliv_op ad obs x d w = (r, d', w')" and "agrees d w"
  shows "agrees d' w' \<and> (settled w = Some y \<longrightarrow> settled w' = Some y)"
proof (cases x)
  case (OpTransition t reason)
  with assms show ?thesis
    by (auto simp: framework_op_def split: prod.splits dest!: transition_settles)
next
  case OpAck
  with assms show ?thesis
    by (intro perform_settles [where f = "ad_ack ad"])
      (auto simp: deliv_ack_def settlement_of_def dest: ack_settles)
next
  case (OpNack rq)
  with assms show ?thesis
    by (intro perform_settles [where f = "ad_nack ad rq"])
      (auto simp: deliv_nack_def settlement_of_def dest: nack_settles)
next
  case OpReject
  with assms show ?thesis
    by (intro perform_settles [where f = "ad_reject ad"])
      (auto simp: deliv_reject_def settlement_of_def dest: reject_settles)
next
  case OpRequeue
  with assms show ?thesis
    by (intro perform_settles [where f = "ad_requeue ad"])
      (auto simp: deliv_requeue_def settlement_of_def dest: requeue_settles)
next
  case (OpDefer delay)
  show ?thesis
  proof (cases "positive_seconds delay")
    case (Inl e)
    with OpDefer assms show ?thesis by (auto simp: deliv_defer_def)
  next
    case (Inr s)
    with OpDefer assms show ?thesis
      by (intro perform_settles [where f = "ad_defer ad s"])
        (auto simp: deliv_defer_def settlement_of_def dest: defer_settles)
  qed
next
  case (OpTouch ext)
  with assms show ?thesis
    by (auto simp: deliv_touch_def agrees_def split: if_splits sum.splits prod.splits option.splits
          dest: touch_frame)
qed

lemma run_settles:
  "\<forall>x \<in> set xs. framework_op x \<Longrightarrow> deliv_run ad obs xs d w = (rs, d', w') \<Longrightarrow> agrees d w \<Longrightarrow>
   agrees d' w' \<and> (settled w = Some y \<longrightarrow> settled w' = Some y)"
proof (induction xs arbitrary: d w rs)
  case Nil
  then show ?case by simp
next
  case (Cons x xs)
  obtain r d1 w1 where op: "deliv_op ad obs x d w = (r, d1, w1)"
    by (metis prod_cases3)
  with Cons.prems obtain rs' where run: "deliv_run ad obs xs d1 w1 = (rs', d', w')"
    by (auto split: prod.splits)
  from Cons.prems op have "agrees d1 w1" and "settled w = Some y \<longrightarrow> settled w1 = Some y"
    using op_settles by (fastforce)+
  with Cons.IH [OF _ run] Cons.prems show ?case by auto
qed

end

subsection \<open>Properties\<close>


definition sample_delivery :: delivery where
  "sample_delivery =
     \<lparr>dl_message_id = ''m1'', dl_attempt = 1, dl_delivered_at = 0, dl_deadline = None,
      dl_mode = AM_MANUAL, dl_state = DS_DELIVERED\<rparr>"






end
