(* ===== verification/InProcess.thy ===== *)
theory InProcess
  imports Deliveries Routing
begin

text \<open>
  \<open>broka/engines/_inprocess.py\<close> and the value types of \<open>broka/engines/base.py\<close> it uses: the
  acknowledgement object with which the in-process engines hand a message to the delivery,
  and the test that decides whether a subscription receives a published item. The
  acknowledgement object is the model's own instance of the contract \<open>settling_adapter\<close>.
\<close>

record engine_subscription =
  es_id :: string
  es_pattern :: string
  es_destination :: string
  es_concurrency :: int
  es_capacity :: int
  es_headers :: headers

definition new_engine_subscription ::
  "string \<Rightarrow> string \<Rightarrow> string \<Rightarrow> int \<Rightarrow> int \<Rightarrow> headers \<Rightarrow> engine_subscription result"
where
  "new_engine_subscription sid pattern destination concurrency capacity hs =
     (if concurrency < 1 then raise ValueError
      else if capacity < 1 then raise ValueError
      else Inr \<lparr>es_id = sid, es_pattern = pattern, es_destination = destination,
                es_concurrency = concurrency, es_capacity = capacity, es_headers = hs\<rparr>)"

record publish_context =
  pc_message_id :: string
  pc_headers :: headers
  pc_partition_key :: "string option"
  pc_ordering_key :: "string option"
  pc_timeout :: "seconds option"
  pc_ttl :: "seconds option"

record publish_result =
  pr_accepted :: bool
  pr_transport_id :: string

text \<open>One serialized envelope on its way to a consumer.\<close>

record in_item =
  it_destination :: string
  it_payload :: string
  it_context :: publish_context
  it_attempt :: int

definition new_item :: "string \<Rightarrow> string \<Rightarrow> publish_context \<Rightarrow> in_item" where
  "new_item destination payload context =
     \<lparr>it_destination = destination, it_payload = payload, it_context = context, it_attempt = 1\<rparr>"

definition again :: "in_item \<Rightarrow> in_item" where
  "again it = it\<lparr>it_attempt := it_attempt it + 1\<rparr>"

subsection \<open>The acknowledgement object\<close>

datatype ack_action = AA_PENDING | AA_ACK | AA_REJECT | AA_REQUEUE | AA_DEFER

record inproc_ack =
  ia_action :: ack_action
  ia_delay :: seconds
  ia_touch :: seconds

definition fresh_ack :: inproc_ack where
  "fresh_ack = \<lparr>ia_action = AA_PENDING, ia_delay = 0, ia_touch = 0\<rparr>"

definition finish :: "ack_action \<Rightarrow> inproc_ack action" where
  "finish a k =
     (if ia_action k = a then (Inr (), k)
      else if ia_action k \<noteq> AA_PENDING then (raise RuntimeError, k)
      else (Inr (), k\<lparr>ia_action := a\<rparr>))"

definition inproc_nack :: "bool \<Rightarrow> inproc_ack action" where
  "inproc_nack requeue = finish (if requeue then AA_REQUEUE else AA_REJECT)"

definition inproc_defer :: "seconds \<Rightarrow> inproc_ack action" where
  "inproc_defer delay k =
     (if delay < 0 then (raise ValueError, k) else finish AA_DEFER (k\<lparr>ia_delay := delay\<rparr>))"

definition inproc_touch :: "seconds \<Rightarrow> inproc_ack action" where
  "inproc_touch extension k =
     (if extension \<le> 0 then (raise ValueError, k)
      else (Inr (), k\<lparr>ia_touch := ia_touch k + extension\<rparr>))"

definition inproc_adapter :: "inproc_ack ack_adapter" where
  "inproc_adapter =
     \<lparr>ad_ack = finish AA_ACK, ad_nack = inproc_nack, ad_reject = finish AA_REJECT,
      ad_requeue = finish AA_REQUEUE, ad_defer = inproc_defer, ad_touch = inproc_touch\<rparr>"

fun settlement_of_action :: "ack_action \<Rightarrow> settlement option" where
  "settlement_of_action AA_PENDING = None"
| "settlement_of_action AA_ACK = Some ST_ack"
| "settlement_of_action AA_REJECT = Some ST_reject"
| "settlement_of_action AA_REQUEUE = Some ST_requeue"
| "settlement_of_action AA_DEFER = Some ST_defer"

definition settled_action :: "inproc_ack \<Rightarrow> settlement option" where
  "settled_action k = settlement_of_action (ia_action k)"

lemma finish_cases:
  "finish a k = (r, k') \<Longrightarrow>
   (r = Inr () \<and> ia_action k' = a \<and> (ia_action k = a \<or> ia_action k = AA_PENDING))
   \<or> (r = raise RuntimeError \<and> k' = k \<and> ia_action k \<noteq> AA_PENDING)"
  by (auto simp: finish_def split: if_splits)

lemma settlement_of_action_None [simp]: "settlement_of_action a = None \<longleftrightarrow> a = AA_PENDING"
  by (cases a) simp_all

lemma finish_decided:
  "finish a k = (r, k') \<Longrightarrow> settled_action k = Some x \<Longrightarrow> settled_action k' = Some x"
  by (drule finish_cases) (auto simp: settled_action_def)

lemma finish_failed: "finish a k = (Inl e, k') \<Longrightarrow> settled_action k' = settled_action k"
  by (drule finish_cases) auto

lemma settled_action_delay [simp]: "settled_action (k\<lparr>ia_delay := s\<rparr>) = settled_action k"
  by (simp add: settled_action_def)

lemma settled_action_touch [simp]: "settled_action (k\<lparr>ia_touch := s\<rparr>) = settled_action k"
  by (simp add: settled_action_def)

lemma defer_decided:
  "inproc_defer s k = (r, k') \<Longrightarrow> settled_action k = Some x \<Longrightarrow> settled_action k' = Some x"
  by (auto simp: inproc_defer_def split: if_splits dest: finish_decided)

lemma defer_failed: "inproc_defer s k = (Inl e, k') \<Longrightarrow> settled_action k' = settled_action k"
  by (auto simp: inproc_defer_def split: if_splits dest: finish_failed)

interpretation inproc: settling_adapter inproc_adapter None settled_action
proof unfold_locales
  fix f :: "inproc_ack action" and rq s w and e :: pyexc and w'
  assume "f \<in> {ad_ack inproc_adapter, ad_nack inproc_adapter rq, ad_reject inproc_adapter,
      ad_requeue inproc_adapter, ad_defer inproc_adapter s}" and "f w = (Inl e, w')"
  then show "settled_action w' = settled_action w"
    by (auto simp: inproc_adapter_def inproc_nack_def dest: finish_failed defer_failed)
next
  fix f :: "inproc_ack action" and rq s w x r w'
  assume "f \<in> {ad_ack inproc_adapter, ad_nack inproc_adapter rq, ad_reject inproc_adapter,
      ad_requeue inproc_adapter, ad_defer inproc_adapter s}"
    and "settled_action w = Some x" and "f w = (r, w')"
  then show "settled_action w' = Some x"
    by (auto simp: inproc_adapter_def inproc_nack_def dest: finish_decided defer_decided)
qed (auto simp: inproc_adapter_def inproc_nack_def inproc_defer_def inproc_touch_def settled_action_def
      split: if_splits dest: finish_cases)

subsection \<open>Routing to subscriptions\<close>

definition subscription_pattern :: "engine_subscription \<Rightarrow> string" where
  "subscription_pattern s = (if es_pattern s \<noteq> [] then es_pattern s else es_destination s)"

definition subscription_matches :: "engine_subscription \<Rightarrow> string \<Rightarrow> publish_context \<Rightarrow> bool" where
  "subscription_matches s destination context =
     (let pattern = subscription_pattern s
      in if \<not> (pattern = ''*'' \<or> fnmatchcase destination pattern) then False
         else list_all (\<lambda>(k, v). dict_get (pc_headers context) k = Some v) (es_headers s))"

lemma subscription_matches_headers:
  "subscription_matches s destination context \<Longrightarrow> dict_get (es_headers s) k = Some v \<Longrightarrow>
   dict_get (pc_headers context) k = Some v"
  by (auto simp: subscription_matches_def Let_def list_all_iff split: if_splits dest!: dict_get_SomeD)

lemma subscription_matches_plain:
  "plain (subscription_pattern s) \<Longrightarrow>
   subscription_matches s destination context \<longleftrightarrow>
     destination = subscription_pattern s
     \<and> list_all (\<lambda>(k, v). dict_get (pc_headers context) k = Some v) (es_headers s)"
  by (auto simp: subscription_matches_def Let_def fnmatchcase_plain plain_def wildcard_char_def)

subsection \<open>Properties\<close>

text \<open>
  C7: the in-process transport and the delivery never disagree. Starting from a delivered message
  and a fresh acknowledgement object, any sequence of the delivery's operations (transitions of the
  framework and acknowledgement calls, failing ones included) ends with the two in step: a
  delivery in an acknowledged, rejected, requeued or deferred state has exactly that decision
  recorded for the engine, and an engine decision, once recorded, is never changed by any
  further sequence.
\<close>

theorem inproc_settlement_agrees:
  assumes "\<forall>x \<in> set xs. framework_op x" and "\<forall>x \<in> set ys. framework_op x"
    and "settlement_of (dl_state d) = None"
    and "deliv_run inproc_adapter None xs d fresh_ack = (rs, d1, k1)"
    and "deliv_run inproc_adapter None ys d1 k1 = (rs', d2, k2)"
  shows "(settlement_of (dl_state d1) \<noteq> None \<longrightarrow> settled_action k1 = settlement_of (dl_state d1))
    \<and> (ia_action k1 \<noteq> AA_PENDING \<longrightarrow> ia_action k2 = ia_action k1)"
proof -
  have "inproc.agrees d fresh_ack" using assms(3) by (simp add: inproc.agrees_def)
  with inproc.run_settles [OF assms(1,4)] have ag: "inproc.agrees d1 k1" by blast
  with inproc.run_settles [OF assms(2,5)]
  have kept: "\<And>y. settled_action k1 = Some y \<Longrightarrow> settled_action k2 = Some y" by blast
  have "ia_action k1 \<noteq> AA_PENDING \<longrightarrow> ia_action k2 = ia_action k1"
    using kept by (cases "ia_action k1"; cases "ia_action k2") (simp_all add: settled_action_def)
  with ag show ?thesis by (auto simp: inproc.agrees_def)
qed

theorem inproc_settlement_agrees_witness:
  "\<exists>rs d1 k1 rs' d2 k2.
     deliv_run inproc_adapter None [OpDefer (Fin 2), OpAck] sample_delivery fresh_ack = (rs, d1, k1)
   \<and> deliv_run inproc_adapter None [OpTransition DS_DELIVERED None, OpAck] d1 k1 = (rs', d2, k2)
   \<and> dl_state d1 = DS_DEFERRED \<and> ia_action k1 = AA_DEFER
   \<and> dl_state d2 = DS_DELIVERED \<and> ia_action k2 = AA_DEFER"
proof -
  let ?d1 = "sample_delivery\<lparr>dl_state := DS_DEFERRED\<rparr>"
  let ?k1 = "\<lparr>ia_action = AA_DEFER, ia_delay = 2, ia_touch = 0\<rparr>"
  have 1: "deliv_run inproc_adapter None [OpDefer (Fin 2), OpAck] sample_delivery fresh_ack
      = ([Inr (), raise InvalidStateTransitionError], ?d1, ?k1)"
    by code_simp
  have 2: "deliv_run inproc_adapter None [OpTransition DS_DELIVERED None, OpAck] ?d1 ?k1
      = ([Inr (), raise AcknowledgementError], sample_delivery, ?k1)"
    by code_simp
  have "settlement_of (dl_state sample_delivery) = None" by code_simp
  moreover have "\<forall>x \<in> set [OpDefer (Fin 2), OpAck]. framework_op x"
    and "\<forall>x \<in> set [OpTransition DS_DELIVERED None, OpAck]. framework_op x"
    by (simp_all add: framework_op_def settlement_of_def)
  ultimately have "ia_action ?k1 \<noteq> AA_PENDING \<longrightarrow> ia_action ?k1 = ia_action ?k1"
    using inproc_settlement_agrees [OF _ _ _ 1 2] by blast
  with 1 2 show ?thesis
    by (intro exI conjI) (auto simp: sample_delivery_def)
qed

end
