(* ===== verification/Backoff.thy ===== *)
theory Backoff
  imports Exceptions Floats
begin

text \<open>
  \<open>broka/reliability/backoff.py\<close>: the retry delay strategies. Attempts count from one. A
  random source and an application callable are stateful, so every strategy takes and
  returns a world \<open>'w\<close>. Arithmetic is exact except for the overflow the code handles: a
  product or sum past the largest double is infinite, and a power past it raises.
\<close>

type_synonym 'w sampler = "pyfloat \<Rightarrow> pyfloat \<Rightarrow> 'w \<Rightarrow> pyfloat result \<times> 'w"
type_synonym 'w delay_fn = "int \<Rightarrow> pyfloat option \<Rightarrow> 'w \<Rightarrow> pyfloat result \<times> 'w"

text \<open>The least magnitude that rounds to infinity in double precision.\<close>

definition double_limit :: rat where
  "double_limit = 2 ^ 1024 - 2 ^ 970"

definition fl_over :: "pyfloat \<Rightarrow> pyfloat" where
  "fl_over x = (case x of Fin a \<Rightarrow> if double_limit \<le> a then PosInf
                                 else if a \<le> - double_limit then NegInf else Fin a
                        | _ \<Rightarrow> x)"

definition py_pow :: "pyfloat \<Rightarrow> nat \<Rightarrow> pyfloat result" where
  "py_pow x n =
     (case x of Fin a \<Rightarrow> if double_limit \<le> \<bar>a ^ n\<bar> then raise OverflowError else Inr (Fin (a ^ n))
      | _ \<Rightarrow> if n = 0 then Inr (Fin 1) else Inr x)"

definition validate_attempt :: "int \<Rightarrow> unit result" where
  "validate_attempt attempt = (if attempt < 1 then raise ValueError else Inr ())"

definition validate_number :: "bool \<Rightarrow> pyfloat \<Rightarrow> unit result" where
  "validate_number strictly_positive value =
     (case value of
        Fin a \<Rightarrow> if a < 0 \<or> (strictly_positive \<and> a = 0) then raise ValueError else Inr ()
      | _ \<Rightarrow> raise ValueError)"

definition bounded :: "pyfloat \<Rightarrow> pyfloat option \<Rightarrow> pyfloat" where
  "bounded value maximum = (case maximum of None \<Rightarrow> value | Some m \<Rightarrow> fl_min value m)"

definition sample :: "'w sampler \<Rightarrow> pyfloat \<Rightarrow> pyfloat \<Rightarrow> 'w \<Rightarrow> pyfloat result \<times> 'w" where
  "sample source lower upper w =
     (case source lower upper w of
        (Inl e, w') \<Rightarrow> (Inl e, w')
      | (Inr sampled, w') \<Rightarrow>
          let tolerance = fl_mul (fl_max (fl_max (Fin 1) (fl_abs lower)) (fl_abs upper))
                            (Fin (1 / 1000000000000))
          in if fl_lt sampled (fl_sub lower tolerance) \<or> fl_lt (fl_add upper tolerance) sampled
             then (raise ValueError, w')
             else (Inr (fl_min upper (fl_max lower sampled)), w'))"

datatype 'w backoff =
    FixedBackoff (bo_seconds: pyfloat)
  | LinearBackoff (bo_initial: pyfloat) (bo_increment: pyfloat) (bo_maximum: "pyfloat option")
  | ExponentialBackoff (bo_initial: pyfloat) (bo_multiplier: pyfloat) (bo_maximum: "pyfloat option")
  | FullJitterBackoff (bo_initial: pyfloat) (bo_multiplier: pyfloat) (bo_maximum: "pyfloat option")
      (bo_source: "'w sampler")
  | EqualJitterBackoff (bo_initial: pyfloat) (bo_multiplier: pyfloat) (bo_maximum: "pyfloat option")
      (bo_source: "'w sampler")
  | DecorrelatedJitterBackoff (bo_initial: pyfloat) (bo_multiplier: pyfloat) (bo_upper: pyfloat)
      (bo_source: "'w sampler")
  | CallableBackoff (bo_function: "'w delay_fn")

definition validate_maximum :: "pyfloat \<Rightarrow> pyfloat option \<Rightarrow> unit result" where
  "validate_maximum initial maximum =
     (case maximum of
        None \<Rightarrow> Inr ()
      | Some m \<Rightarrow> (case validate_number False m of
            Inl e \<Rightarrow> Inl e
          | Inr _ \<Rightarrow> if fl_lt m initial then raise ValueError else Inr ()))"

definition validate_growth ::
  "bool \<Rightarrow> pyfloat \<Rightarrow> pyfloat \<Rightarrow> pyfloat option \<Rightarrow> unit result"
where
  "validate_growth strictly_positive initial factor maximum =
     (case validate_number False initial of
        Inl e \<Rightarrow> Inl e
      | Inr _ \<Rightarrow> (case validate_number strictly_positive factor of
            Inl e \<Rightarrow> Inl e
          | Inr _ \<Rightarrow> validate_maximum initial maximum))"

text \<open>The constructors' \<open>__post_init__\<close>: the strategy, or the error that rejects its fields.\<close>

fun new_backoff :: "'w backoff \<Rightarrow> unit result" where
  "new_backoff (FixedBackoff s) = validate_number False s"
| "new_backoff (LinearBackoff i inc m) = validate_growth False i inc m"
| "new_backoff (ExponentialBackoff i f m) = validate_growth True i f m"
| "new_backoff (FullJitterBackoff i f m u) = validate_growth True i f m"
| "new_backoff (EqualJitterBackoff i f m u) = validate_growth True i f m"
| "new_backoff (DecorrelatedJitterBackoff i f m u) = validate_growth True i f (Some m)"
| "new_backoff (CallableBackoff f) = Inr ()"

definition exponential_delay :: "pyfloat \<Rightarrow> pyfloat \<Rightarrow> pyfloat option \<Rightarrow> int \<Rightarrow> pyfloat result" where
  "exponential_delay initial multiplier maximum attempt =
     (case validate_attempt attempt of
        Inl e \<Rightarrow> Inl e
      | Inr _ \<Rightarrow>
          Inr (bounded
            (case py_pow multiplier (nat (attempt - 1)) of
               Inl e \<Rightarrow> PosInf
             | Inr p \<Rightarrow> fl_over (fl_mul initial p)) maximum))"

text \<open>The jittered strategies build an \<open>ExponentialBackoff\<close>, which validates the fields again.\<close>

definition ceiling_of :: "pyfloat \<Rightarrow> pyfloat \<Rightarrow> pyfloat option \<Rightarrow> int \<Rightarrow> pyfloat result" where
  "ceiling_of initial multiplier maximum attempt =
     (case validate_growth True initial multiplier maximum of
        Inl e \<Rightarrow> Inl e
      | Inr _ \<Rightarrow> exponential_delay initial multiplier maximum attempt)"

definition linear_delay :: "pyfloat \<Rightarrow> pyfloat \<Rightarrow> pyfloat option \<Rightarrow> int \<Rightarrow> pyfloat result" where
  "linear_delay initial increment maximum attempt =
     (case validate_attempt attempt of
        Inl e \<Rightarrow> Inl e
      | Inr _ \<Rightarrow>
          Inr (bounded
            (fl_over (fl_add initial (fl_over (fl_mul increment (Fin (of_int (attempt - 1)))))))
            maximum))"

definition decorrelated_delay ::
  "pyfloat \<Rightarrow> pyfloat \<Rightarrow> pyfloat \<Rightarrow> 'w sampler \<Rightarrow> 'w delay_fn"
where
  "decorrelated_delay initial multiplier maximum source attempt previous w =
     (case validate_attempt attempt of
        Inl e \<Rightarrow> (Inl e, w)
      | Inr _ \<Rightarrow>
          let prior = (case previous of None \<Rightarrow> initial | Some p \<Rightarrow> p)
          in case validate_number False prior of
               Inl e \<Rightarrow> (Inl e, w)
             | Inr _ \<Rightarrow>
                 (case sample source initial (fl_max initial (fl_over (fl_mul prior multiplier))) w of
                    (Inl e, w') \<Rightarrow> (Inl e, w')
                  | (Inr v, w') \<Rightarrow> (Inr (fl_min maximum v), w')))"

definition callable_delay :: "'w delay_fn \<Rightarrow> 'w delay_fn" where
  "callable_delay f attempt previous w =
     (case validate_attempt attempt of
        Inl e \<Rightarrow> (Inl e, w)
      | Inr _ \<Rightarrow>
          (case f attempt previous w of
             (Inl e, w') \<Rightarrow> (Inl e, w')
           | (Inr v, w') \<Rightarrow>
               (case validate_number False v of Inl e \<Rightarrow> (Inl e, w') | Inr _ \<Rightarrow> (Inr v, w'))))"

fun backoff_delay :: "'w backoff \<Rightarrow> 'w delay_fn" where
  "backoff_delay (FixedBackoff s) attempt previous w =
     (case validate_attempt attempt of Inl e \<Rightarrow> (Inl e, w) | Inr _ \<Rightarrow> (Inr s, w))"
| "backoff_delay (LinearBackoff i inc m) attempt previous w = (linear_delay i inc m attempt, w)"
| "backoff_delay (ExponentialBackoff i f m) attempt previous w = (exponential_delay i f m attempt, w)"
| "backoff_delay (FullJitterBackoff i f m u) attempt previous w =
     (case ceiling_of i f m attempt of
        Inl e \<Rightarrow> (Inl e, w)
      | Inr ceil \<Rightarrow> sample u (Fin 0) ceil w)"
| "backoff_delay (EqualJitterBackoff i f m u) attempt previous w =
     (case ceiling_of i f m attempt of
        Inl e \<Rightarrow> (Inl e, w)
      | Inr ceil \<Rightarrow>
          let half = fl_mul ceil (Fin (1 / 2))
          in case sample u (Fin 0) half w of
               (Inl e, w') \<Rightarrow> (Inl e, w')
             | (Inr v, w') \<Rightarrow> (Inr (fl_add half v), w'))"
| "backoff_delay (DecorrelatedJitterBackoff i f m u) attempt previous w =
     decorrelated_delay i f m u attempt previous w"
| "backoff_delay (CallableBackoff f) attempt previous w = callable_delay f attempt previous w"

definition calculate_backoff :: "'w delay_fn \<Rightarrow> int \<Rightarrow> pyfloat option \<Rightarrow> 'w \<Rightarrow> rat result \<times> 'w" where
  "calculate_backoff delay attempt previous w =
     (case delay attempt previous w of
        (Inl e, w') \<Rightarrow> (Inl e, w')
      | (Inr value, w') \<Rightarrow>
          (case value of
             Fin a \<Rightarrow> if a < 0 then (raise ValueError, w') else (Inr a, w')
           | _ \<Rightarrow> (raise ValueError, w')))"

subsection \<open>Bounds\<close>

lemma validate_number_Inr:
  "validate_number sp v = Inr u \<longleftrightarrow> (\<exists>a. v = Fin a \<and> 0 \<le> a \<and> (sp \<longrightarrow> 0 < a))"
  by (cases v) (auto simp: validate_number_def split: if_splits)

lemma validate_maximum_Inr:
  "validate_maximum (Fin i) m = Inr u \<longleftrightarrow> (\<forall>v. m = Some v \<longrightarrow> (\<exists>b. v = Fin b \<and> 0 \<le> b \<and> i \<le> b))"
proof (cases m)
  case (Some v)
  then show ?thesis
    by (cases v) (auto simp: validate_maximum_def validate_number_def split: if_splits)
qed (simp add: validate_maximum_def)

lemma validate_growth_split:
  "validate_growth sp i f m = Inr u \<longleftrightarrow>
   validate_number False i = Inr () \<and> validate_number sp f = Inr () \<and> validate_maximum i m = Inr u"
  by (cases "validate_number False i"; cases "validate_number sp f") (simp_all add: validate_growth_def)

lemma validate_growth_Inr:
  assumes "validate_growth sp i f m = Inr u"
  shows "\<exists>a b. i = Fin a \<and> f = Fin b \<and> 0 \<le> a \<and> 0 \<le> b \<and> (sp \<longrightarrow> 0 < b)
    \<and> (\<forall>v. m = Some v \<longrightarrow> (\<exists>c. v = Fin c \<and> 0 \<le> c \<and> a \<le> c))"
proof -
  from assms have 1: "validate_number False i = Inr ()" and 2: "validate_number sp f = Inr ()"
    and 3: "validate_maximum i m = Inr u"
    by (simp_all add: validate_growth_split)
  from 1 obtain a where a: "i = Fin a" "0 \<le> a" by (auto simp: validate_number_Inr)
  from 2 obtain b where b: "f = Fin b" "0 \<le> b" "sp \<longrightarrow> 0 < b" by (auto simp: validate_number_Inr)
  from 3 a have "\<And>v. m = Some v \<Longrightarrow> \<exists>c. v = Fin c \<and> 0 \<le> c \<and> a \<le> c"
    by (simp add: validate_maximum_Inr)
  with a b show ?thesis by blast
qed

definition nonneg :: "pyfloat \<Rightarrow> bool" where
  "nonneg v \<longleftrightarrow> v = PosInf \<or> (\<exists>a. v = Fin a \<and> 0 \<le> a)"

lemma nonneg_le: "nonneg v \<longleftrightarrow> fl_le (Fin 0) v"
  by (cases v) (auto simp: nonneg_def fl_le_def)

lemma nonneg_Fin [simp]: "nonneg (Fin a) \<longleftrightarrow> 0 \<le> a"
  by (simp add: nonneg_def)

lemma nonneg_PosInf [simp]: "nonneg PosInf"
  by (simp add: nonneg_def)

lemma not_nonneg [simp]: "\<not> nonneg NaN" "\<not> nonneg NegInf"
  by (simp_all add: nonneg_def)

lemma double_limit_pos: "0 < double_limit"
  by (simp add: double_limit_def)

lemma nonneg_over: "0 \<le> a \<Longrightarrow> nonneg (fl_over (Fin a))"
  using double_limit_pos by (simp add: fl_over_def)

lemma nonneg_over_add: "0 \<le> a \<Longrightarrow> nonneg v \<Longrightarrow> nonneg (fl_over (fl_add (Fin a) v))"
  by (cases v) (auto simp: nonneg_def fl_over_def split: if_splits dest: order.trans)

lemma sample_range:
  assumes "sample u lower upper w = (Inr v, w')" and "fl_le lower upper"
  shows "fl_le lower v \<and> fl_le v upper"
proof -
  obtain x where "v = fl_min upper (fl_max lower x)"
    using assms(1) by (auto simp: sample_def Let_def split: prod.splits sum.splits if_splits)
  with assms(2) show ?thesis
    by (cases lower; cases upper; cases x) (auto simp: fl_le_def fl_min_def fl_max_def)
qed

lemma bounded_le: "m = Some (Fin c) \<Longrightarrow> nonneg v \<Longrightarrow> fl_le (bounded v m) (Fin c)"
  by (cases v) (auto simp: bounded_def fl_min_def fl_le_def)

lemma bounded_nonneg: "nonneg v \<Longrightarrow> (\<And>c. m = Some c \<Longrightarrow> nonneg c) \<Longrightarrow> nonneg (bounded v m)"
  by (cases m) (auto simp: bounded_def fl_min_def)

text \<open>The largest delay a strategy may return.\<close>

fun delay_cap :: "'w backoff \<Rightarrow> pyfloat option" where
  "delay_cap (FixedBackoff s) = Some s"
| "delay_cap (LinearBackoff i inc m) = m"
| "delay_cap (ExponentialBackoff i f m) = m"
| "delay_cap (FullJitterBackoff i f m u) = m"
| "delay_cap (EqualJitterBackoff i f m u) = m"
| "delay_cap (DecorrelatedJitterBackoff i f m u) = Some m"
| "delay_cap (CallableBackoff f) = None"

definition in_cap :: "pyfloat \<Rightarrow> pyfloat option \<Rightarrow> bool" where
  "in_cap v cap \<longleftrightarrow> nonneg v \<and> (case cap of None \<Rightarrow> True | Some c \<Rightarrow> fl_le v c)"

lemma bounded_in_cap:
  assumes "nonneg v" and "\<forall>c. m = Some c \<longrightarrow> (\<exists>d. c = Fin d \<and> 0 \<le> d \<and> a \<le> d)"
  shows "in_cap (bounded v m) m"
proof (cases m)
  case None
  with assms show ?thesis by (simp add: in_cap_def bounded_def)
next
  case (Some c)
  with assms(2) obtain b where b: "m = Some (Fin b)" "0 \<le> b" by auto
  with assms(1) show ?thesis
    using bounded_le [OF b(1) assms(1)] bounded_nonneg [OF assms(1), of m]
    by (simp add: in_cap_def)
qed

lemma exponential_in_cap:
  assumes "validate_growth True i f m = Inr u" and "exponential_delay i f m n = Inr v"
  shows "in_cap v m"
proof -
  from validate_growth_Inr [OF assms(1)] obtain a b where ab: "i = Fin a" "f = Fin b" "0 \<le> a" "0 \<le> b"
      and m: "\<forall>c. m = Some c \<longrightarrow> (\<exists>d. c = Fin d \<and> 0 \<le> d \<and> a \<le> d)"
    by blast
  let ?x = "case py_pow f (nat (n - 1)) of Inl e \<Rightarrow> PosInf | Inr p \<Rightarrow> fl_over (fl_mul i p)"
  have "nonneg ?x"
    using ab by (auto simp: py_pow_def intro: nonneg_over)
  moreover from assms(2) have "v = bounded ?x m"
    by (auto simp: exponential_delay_def split: sum.splits)
  ultimately show ?thesis using m by (simp add: bounded_in_cap)
qed

lemma linear_in_cap:
  assumes "validate_growth False i inc m = Inr u" and "linear_delay i inc m n = Inr v"
  shows "in_cap v m"
proof -
  from validate_growth_Inr [OF assms(1)] obtain a b where ab: "i = Fin a" "inc = Fin b" "0 \<le> a" "0 \<le> b"
      and m: "\<forall>c. m = Some c \<longrightarrow> (\<exists>d. c = Fin d \<and> 0 \<le> d \<and> a \<le> d)"
    by blast
  let ?x = "fl_over (fl_add i (fl_over (fl_mul inc (Fin (of_int (n - 1))))))"
  from assms(2) have n: "1 \<le> n" and v: "v = bounded ?x m"
    by (auto simp: linear_delay_def validate_attempt_def split: if_splits)
  from n ab have "nonneg (fl_over (fl_mul inc (Fin (of_int (n - 1)))))"
    by (auto intro: nonneg_over)
  with ab have "nonneg ?x" by (auto intro: nonneg_over_add)
  with v m show ?thesis by (simp add: bounded_in_cap)
qed

lemma half_in_cap:
  assumes "nonneg c" and "fl_le (Fin 0) v" and "fl_le v (fl_mul c (Fin (1 / 2)))"
  shows "fl_le (fl_mul c (Fin (1 / 2))) (fl_add (fl_mul c (Fin (1 / 2))) v)
    \<and> fl_le (fl_add (fl_mul c (Fin (1 / 2))) v) c"
  using assms by (cases c; cases v) (auto simp: nonneg_def fl_le_def fl_mul_def)

lemma fl_le_trans: "fl_le a b \<Longrightarrow> fl_le b c \<Longrightarrow> fl_le a c"
  by (cases a; cases b; cases c) (auto simp: fl_le_def)

lemma in_cap_mono: "in_cap c m \<Longrightarrow> fl_le (Fin 0) v \<Longrightarrow> fl_le v c \<Longrightarrow> in_cap v m"
  by (auto simp: in_cap_def nonneg_le split: option.splits intro: fl_le_trans)

lemma ceiling_in_cap: "ceiling_of i f m n = Inr c \<Longrightarrow> in_cap c m"
  by (auto simp: ceiling_of_def split: sum.splits intro: exponential_in_cap)

lemma decorrelated_range:
  assumes valid: "validate_growth True i f (Some m) = Inr t"
    and run: "decorrelated_delay i f m u n prev w = (Inr v, w')"
  shows "fl_le i v \<and> fl_le v m \<and> nonneg v"
proof -
  from validate_growth_Inr [OF valid] obtain a b where i: "i = Fin a" "0 \<le> a"
    and m: "\<exists>c. m = Fin c \<and> 0 \<le> c \<and> a \<le> c"
    by blast
  then obtain c where c: "m = Fin c" "a \<le> c" by blast
  obtain p x where x: "sample u i (fl_max i p) w = (Inr x, w')" and v: "v = fl_min m x"
    using run by (auto simp: decorrelated_delay_def Let_def split: sum.splits prod.splits)
  have "fl_le i (fl_max i p)"
    using i by (cases p) (auto simp: fl_max_def fl_le_def)
  with sample_range [OF x] have "fl_le i x" by simp
  with i c v show ?thesis
    by (cases x) (auto simp: fl_min_def fl_le_def nonneg_def)
qed

lemma backoff_in_cap:
  assumes valid: "new_backoff s = Inr t" and run: "backoff_delay s n prev w = (Inr v, w')"
  shows "in_cap v (delay_cap s)"
proof (cases s)
  case (FixedBackoff x)
  with valid run show ?thesis
    by (auto simp: in_cap_def validate_number_Inr split: sum.splits)
next
  case (LinearBackoff i inc m)
  with valid run show ?thesis by (auto intro: linear_in_cap)
next
  case (ExponentialBackoff i f m)
  with valid run show ?thesis by (auto intro: exponential_in_cap)
next
  case (FullJitterBackoff i f m u)
  with run obtain c where c: "ceiling_of i f m n = Inr c" and v: "sample u (Fin 0) c w = (Inr v, w')"
    by (auto split: sum.splits)
  from ceiling_in_cap [OF c] have "in_cap c m" .
  moreover from this have "fl_le (Fin 0) c" by (simp add: in_cap_def nonneg_le)
  ultimately show ?thesis
    using sample_range [OF v] FullJitterBackoff by (auto intro: in_cap_mono)
next
  case (EqualJitterBackoff i f m u)
  let ?h = "\<lambda>c. fl_mul c (Fin (1 / 2))"
  from EqualJitterBackoff run obtain c x where c: "ceiling_of i f m n = Inr c"
    and x: "sample u (Fin 0) (?h c) w = (Inr x, w')" and v: "v = fl_add (?h c) x"
    by (auto simp: Let_def split: sum.splits prod.splits)
  from ceiling_in_cap [OF c] have cap: "in_cap c m" and c0: "nonneg c" by (simp_all add: in_cap_def)
  from c0 have h: "fl_le (Fin 0) (?h c)" by (auto simp: nonneg_def fl_le_def fl_mul_def)
  from half_in_cap [OF c0] sample_range [OF x h] v have "fl_le (?h c) v" and "fl_le v c" by auto
  then show ?thesis
    using in_cap_mono [OF cap fl_le_trans [OF h]] EqualJitterBackoff by simp
next
  case (DecorrelatedJitterBackoff i f m u)
  with valid run decorrelated_range [of i f m t u n prev w v w'] show ?thesis
    by (simp add: in_cap_def)
next
  case (CallableBackoff f)
  with run show ?thesis
    by (auto simp: callable_delay_def in_cap_def validate_number_Inr split: sum.splits prod.splits)
qed

subsection \<open>Delays with a cap\<close>

text \<open>The contract a caller of a strategy relies on: no delay is negative or above the cap.\<close>

locale capped_backoff =
  fixes delay :: "'w delay_fn" and cap :: rat
  assumes delay_capped: "delay n prev w = (Inr v, w') \<Longrightarrow> fl_le (Fin 0) v \<and> fl_le v (Fin cap)"
begin

lemma calculate_capped:
  assumes "calculate_backoff delay n prev w = (Inr a, w')"
  shows "0 \<le> a \<and> a \<le> cap"
proof -
  from assms have "delay n prev w = (Inr (Fin a), w')"
    by (auto simp: calculate_backoff_def split: sum.splits prod.splits pyfloat.splits if_splits)
  from delay_capped [OF this] show ?thesis by simp
qed

end

lemma capped_strategy:
  assumes "new_backoff s = Inr t" and "delay_cap s = Some (Fin c)"
  shows "capped_backoff (backoff_delay s) c"
proof
  fix n prev w v w'
  assume "backoff_delay s n prev w = (Inr v, w')"
  with backoff_in_cap [OF assms(1) this] assms(2) show "fl_le (Fin 0) v \<and> fl_le v (Fin c)"
    by (simp add: in_cap_def nonneg_le)
qed

text \<open>The default instances of the strategies, for every random source.\<close>

interpretation default_fixed: capped_backoff "backoff_delay (FixedBackoff (Fin 1))" 1
  by (rule capped_strategy) (simp_all add: validate_number_Inr)

lemma default_growth: "validate_growth sp (Fin 1) (Fin (1 + of_nat n)) (Some (Fin 60)) = Inr ()"
  by (simp add: validate_growth_split validate_number_Inr validate_maximum_Inr)

interpretation default_linear:
  capped_backoff "backoff_delay (LinearBackoff (Fin 1) (Fin 1) (Some (Fin 60)))" 60
  by (rule capped_strategy) (use default_growth [of _ 0] in simp_all)

interpretation default_exponential:
  capped_backoff "backoff_delay (ExponentialBackoff (Fin 1) (Fin 2) (Some (Fin 60)))" 60
  by (rule capped_strategy) (use default_growth [of _ 1] in simp_all)

interpretation default_full_jitter:
  capped_backoff "backoff_delay (FullJitterBackoff (Fin 1) (Fin 2) (Some (Fin 60)) u)" 60 for u
  by (rule capped_strategy) (use default_growth [of _ 1] in simp_all)

interpretation default_equal_jitter:
  capped_backoff "backoff_delay (EqualJitterBackoff (Fin 1) (Fin 2) (Some (Fin 60)) u)" 60 for u
  by (rule capped_strategy) (use default_growth [of _ 1] in simp_all)

interpretation default_decorrelated:
  capped_backoff "backoff_delay (DecorrelatedJitterBackoff (Fin 1) (Fin 3) (Fin 60) u)" 60 for u
  by (rule capped_strategy) (use default_growth [of _ 2] in simp_all)

subsection \<open>Properties\<close>

lemma equal_jitter_range:
  assumes "backoff_delay (EqualJitterBackoff i f m u) n prev w = (Inr v, w')"
    and "ceiling_of i f m n = Inr c"
  shows "fl_le (fl_mul c (Fin (1 / 2))) v \<and> fl_le v c"
proof -
  let ?h = "fl_mul c (Fin (1 / 2))"
  from assms obtain x where x: "sample u (Fin 0) ?h w = (Inr x, w')" and v: "v = fl_add ?h x"
    by (auto simp: Let_def split: sum.splits prod.splits)
  from ceiling_in_cap [OF assms(2)] have c0: "nonneg c" by (simp add: in_cap_def)
  then have "fl_le (Fin 0) ?h" by (auto simp: nonneg_def fl_le_def fl_mul_def)
  from half_in_cap [OF c0] sample_range [OF x this] v show ?thesis by simp
qed

text \<open>
  No strategy ever returns a negative, infinite-minus or NaN delay, and none exceeds its
  maximum, whatever the random source returns. The jittered strategies stay in their envelope: full jitter
  between zero and the exponential delay, equal jitter in its upper half, decorrelated
  jitter between the initial delay and the maximum.
\<close>

theorem backoff_envelope:
  assumes "new_backoff s = Inr ()" and "backoff_delay s n prev w = (Inr v, w')"
  shows "fl_le (Fin 0) v \<and> (\<forall>c. delay_cap s = Some c \<longrightarrow> fl_le v c)
    \<and> (\<forall>i f m u c. s = FullJitterBackoff i f m u \<longrightarrow> exponential_delay i f m n = Inr c \<longrightarrow> fl_le v c)
    \<and> (\<forall>i f m u c. s = EqualJitterBackoff i f m u \<longrightarrow> exponential_delay i f m n = Inr c \<longrightarrow>
         fl_le (fl_mul c (Fin (1 / 2))) v \<and> fl_le v c)
    \<and> (\<forall>i f m u. s = DecorrelatedJitterBackoff i f m u \<longrightarrow> fl_le i v)"
proof (intro conjI allI impI)
  from backoff_in_cap [OF assms] have cap: "in_cap v (delay_cap s)" .
  then show "fl_le (Fin 0) v" by (simp add: in_cap_def nonneg_le)
  from cap show "fl_le v c" if "delay_cap s = Some c" for c using that by (simp add: in_cap_def)
next
  fix i f m u c
  assume s: "s = FullJitterBackoff i f m u" and "exponential_delay i f m n = Inr c"
  with assms(1) have c: "ceiling_of i f m n = Inr c" by (simp add: ceiling_of_def)
  from ceiling_in_cap [OF this] have "fl_le (Fin 0) c" by (simp add: in_cap_def nonneg_le)
  with sample_range assms(2) s c show "fl_le v c" by fastforce
next
  fix i f m u c
  assume s: "s = EqualJitterBackoff i f m u" and "exponential_delay i f m n = Inr c"
  with assms(1) have "ceiling_of i f m n = Inr c" by (simp add: ceiling_of_def)
  from equal_jitter_range [OF assms(2) [unfolded s] this]
  show "fl_le (fl_mul c (Fin (1 / 2))) v" and "fl_le v c" by auto
next
  fix i f m u
  assume "s = DecorrelatedJitterBackoff i f m u"
  with assms decorrelated_range [of i f m "()" u n prev w v w'] show "fl_le i v" by simp
qed

text \<open>A source that counts its calls and always returns the middle of the range.\<close>

definition middle_source :: "nat sampler" where
  "middle_source l h k = (Inr (fl_mul (fl_add l h) (Fin (1 / 2))), Suc k)"

theorem backoff_envelope_witness:
  "backoff_delay (EqualJitterBackoff (Fin 1) (Fin 2) (Some (Fin 60)) middle_source) 4 None 0
     = (Inr (Fin 6), 1) \<and> fl_le (Fin 4) (Fin 6)"
proof -
  let ?s = "EqualJitterBackoff (Fin 1) (Fin 2) (Some (Fin 60)) middle_source"
  have ok: "new_backoff ?s = Inr ()" using default_growth [of True 1] by simp
  have ceil: "exponential_delay (Fin 1) (Fin 2) (Some (Fin 60)) 4 = Inr (Fin 8)"
    by (simp add: exponential_delay_def validate_attempt_def py_pow_def fl_over_def double_limit_def
        bounded_def)
  have run: "backoff_delay ?s 4 None 0 = (Inr (Fin 6), 1)"
    using ok ceil
    by (simp add: ceiling_of_def sample_def middle_source_def)
  from backoff_envelope [OF ok run] ceil have "fl_le (fl_mul (Fin 8) (Fin (1 / 2))) (Fin 6)" by blast
  with run show ?thesis by simp
qed

lemma fl_over_mono: "a \<le> b \<Longrightarrow> 0 \<le> a \<Longrightarrow> fl_le (fl_over (Fin a)) (fl_over (Fin b))"
  using double_limit_pos by (auto simp: fl_over_def fl_le_def)

lemma bounded_mono: "fl_le a b \<Longrightarrow> fl_le (bounded a m) (bounded b m) \<or> m = Some NaN"
  by (cases m; cases a; cases b; cases "the m") (auto simp: bounded_def fl_min_def fl_le_def)

lemma fl_le_PosInf: "nonneg v \<Longrightarrow> fl_le v PosInf"
  by (cases v) (auto simp: fl_le_def)

lemma fl_over_add_mono:
  "0 \<le> a \<Longrightarrow> nonneg v \<Longrightarrow> fl_le v v' \<Longrightarrow>
   fl_le (fl_over (fl_add (Fin a) v)) (fl_over (fl_add (Fin a) v'))"
  by (cases v; cases v')
     (auto simp: fl_le_def fl_over_def double_limit_def split: if_splits)

lemma grown_mono:
  fixes a b :: rat
  assumes "0 \<le> a" and "1 \<le> b" and "k \<le> l"
  shows "fl_le (case py_pow (Fin b) k of Inl e \<Rightarrow> PosInf | Inr p \<Rightarrow> fl_over (fl_mul (Fin a) p))
               (case py_pow (Fin b) l of Inl e \<Rightarrow> PosInf | Inr p \<Rightarrow> fl_over (fl_mul (Fin a) p))"
proof -
  from assms have pow: "b ^ k \<le> b ^ l" by (simp add: power_increasing)
  have pos: "0 < b ^ k" "0 < b ^ l" using assms by simp_all
  show ?thesis
  proof (cases "double_limit \<le> b ^ l")
    case True
    with pos assms show ?thesis
      by (auto simp: py_pow_def intro!: fl_le_PosInf nonneg_over)
  next
    case False
    with pow have "\<not> double_limit \<le> b ^ k" by simp
    moreover have "a * b ^ k \<le> a * b ^ l" using pow assms by (simp add: mult_left_mono)
    ultimately show ?thesis
      using False pos assms by (auto simp: py_pow_def intro!: fl_over_mono)
  qed
qed

lemma bounded_le_bounded:
  assumes "fl_le x y" and "\<forall>c. m = Some c \<longrightarrow> (\<exists>d. c = Fin d \<and> 0 \<le> d \<and> a \<le> d)"
  shows "fl_le (bounded x m) (bounded y m)"
  using bounded_mono [OF assms(1), of m] assms(2) by auto

lemma linear_mono:
  assumes "0 \<le> a" and "0 \<le> b" and "1 \<le> k" and "k \<le> l"
  shows "fl_le (fl_over (fl_add (Fin a) (fl_over (fl_mul (Fin b) (Fin (of_int (k - 1)))))))
               (fl_over (fl_add (Fin a) (fl_over (fl_mul (Fin b) (Fin (of_int (l - 1)))))))"
proof (rule fl_over_add_mono [OF assms(1)])
  have "0 \<le> b * of_int (k - 1)" using assms by simp
  moreover have "b * of_int (k - 1) \<le> b * of_int (l - 1)" using assms by (intro mult_left_mono) simp_all
  ultimately show "fl_le (fl_over (fl_mul (Fin b) (Fin (of_int (k - 1)))))
      (fl_over (fl_mul (Fin b) (Fin (of_int (l - 1)))))"
    and "nonneg (fl_over (fl_mul (Fin b) (Fin (of_int (k - 1)))))"
    by (simp_all only: fl_mul_Fin fl_over_mono nonneg_over)
qed

text \<open>
  The deterministic strategies back off. With a multiplier of at least one (or any
  non-negative increment) the delay of a later attempt is never shorter, through the region where
  floating-point arithmetic overflows and the maximum takes over.
\<close>

theorem backoff_monotone:
  assumes "new_backoff s = Inr ()" and "1 \<le> k" and "k \<le> l"
    and kind: "(\<exists>i b m. s = ExponentialBackoff i (Fin b) m \<and> 1 \<le> b) \<or> (\<exists>i inc m. s = LinearBackoff i inc m)"
  shows "\<exists>x y. backoff_delay s k p w = (Inr x, w) \<and> backoff_delay s l q v = (Inr y, v) \<and> fl_le x y"
  using kind
proof (elim disjE exE conjE)
  fix i b m
  assume s: "s = ExponentialBackoff i (Fin b) m" and b: "1 \<le> b"
  with assms(1) have "validate_growth True i (Fin b) m = Inr ()" by simp
  from validate_growth_Inr [OF this] obtain a where a: "i = Fin a" "0 \<le> a"
    and m: "\<forall>c. m = Some c \<longrightarrow> (\<exists>d. c = Fin d \<and> 0 \<le> d \<and> a \<le> d)" by blast
  have "nat (k - 1) \<le> nat (l - 1)" using assms(3) by simp
  from bounded_le_bounded [OF grown_mono [OF a(2) b this] m] show ?thesis
    using s a assms(2,3) by (simp add: exponential_delay_def validate_attempt_def)
next
  fix i inc m
  assume s: "s = LinearBackoff i inc m"
  with assms(1) have "validate_growth False i inc m = Inr ()" by simp
  from validate_growth_Inr [OF this] obtain a b where a: "i = Fin a" "inc = Fin b" "0 \<le> a" "0 \<le> b"
    and m: "\<forall>c. m = Some c \<longrightarrow> (\<exists>d. c = Fin d \<and> 0 \<le> d \<and> a \<le> d)" by blast
  from bounded_le_bounded [OF linear_mono [OF a(3,4) assms(2,3)] m] show ?thesis
    using s a assms(2,3) by (simp add: linear_delay_def validate_attempt_def)
qed

theorem backoff_monotone_witness:
  "\<exists>x y. backoff_delay (ExponentialBackoff (Fin 1) (Fin 2) (Some (Fin 60))) 3 None ()
        = (Inr x, ())
     \<and> backoff_delay (ExponentialBackoff (Fin 1) (Fin 2) (Some (Fin 60))) 2000 None () = (Inr y, ())
     \<and> fl_le x y"
  by (rule backoff_monotone) (use default_growth [of True 1] in simp_all)

text \<open>
  A strategy whose initial delay is zero does not wait, until the power overflows: from then on it waits
  for the maximum. The infinity stands for the power alone, before it is multiplied by zero.
\<close>

lemma zero_initial_jumps:
  "new_backoff (ExponentialBackoff (Fin 0) (Fin 2) (Some (Fin 60))) = Inr ()"
  "exponential_delay (Fin 0) (Fin 2) (Some (Fin 60)) 1024 = Inr (Fin 0)"
  "exponential_delay (Fin 0) (Fin 2) (Some (Fin 60)) 1025 = Inr (Fin 60)"
  by (simp_all add: validate_growth_split validate_number_Inr validate_maximum_Inr
      exponential_delay_def validate_attempt_def py_pow_def bounded_def fl_over_def double_limit_def
      fl_min_def)

text \<open>A source that never raises and honours every finite range.\<close>

definition honest :: "'w sampler \<Rightarrow> bool" where
  "honest u \<longleftrightarrow> (\<forall>l h w. \<exists>v w'. u l h w = (Inr v, w')
     \<and> (fl_finite l \<and> fl_finite h \<and> fl_le l h \<longrightarrow> fl_le l v \<and> fl_le v h))"

lemma sample_honest:
  assumes "honest u" and "l = Fin a" and "h = Fin b \<or> h = PosInf" and "fl_le l h"
  shows "\<exists>v w'. sample u l h w = (Inr v, w')"
proof -
  from assms(1) obtain v w' where u: "u l h w = (Inr v, w')"
    and v: "fl_finite l \<and> fl_finite h \<and> fl_le l h \<longrightarrow> fl_le l v \<and> fl_le v h"
    unfolding honest_def by blast
  from assms(3) show ?thesis
  proof
    assume h: "h = Fin b"
    with v assms obtain x where x: "v = Fin x" "a \<le> x" "x \<le> b"
      by (cases v) (auto simp: fl_le_def)
    have "0 \<le> max (max 1 \<bar>a\<bar>) \<bar>b\<bar> * (1 / 1000000000000)" by (simp add: le_max_iff_disj)
    with x u h assms(2) show ?thesis by (auto simp: sample_def Let_def)
  next
    assume h: "h = PosInf"
    have "\<not> fl_lt v NegInf" and "\<not> fl_lt PosInf v" by (cases v; simp)+
    with u h assms(2) show ?thesis
      by (simp add: sample_def Let_def fl_max_def fl_mul_def fl_sub_def)
  qed
qed

fun source_of :: "'w backoff \<Rightarrow> 'w sampler option" where
  "source_of (FullJitterBackoff i f m u) = Some u"
| "source_of (EqualJitterBackoff i f m u) = Some u"
| "source_of (DecorrelatedJitterBackoff i f m u) = Some u"
| "source_of _ = None"

lemma in_cap_Fin: "in_cap v (Some (Fin c)) \<longleftrightarrow> (\<exists>a. v = Fin a \<and> 0 \<le> a \<and> a \<le> c)"
  by (cases v) (auto simp: in_cap_def fl_le_def)

lemma capped_ceiling:
  assumes "validate_growth True i f (Some (Fin c)) = Inr t" and "1 \<le> n"
  shows "\<exists>a. ceiling_of i f (Some (Fin c)) n = Inr (Fin a) \<and> 0 \<le> a \<and> a \<le> c"
proof -
  from assms obtain v where v: "ceiling_of i f (Some (Fin c)) n = Inr v"
    by (simp add: ceiling_of_def exponential_delay_def validate_attempt_def)
  from ceiling_in_cap [OF this] show ?thesis using v by (auto simp: in_cap_Fin)
qed

lemma decorrelated_upper:
  "0 \<le> i \<Longrightarrow> 0 \<le> p \<Longrightarrow> fl_max (Fin i) (fl_over (Fin p)) = PosInf
     \<or> (\<exists>b. fl_max (Fin i) (fl_over (Fin p)) = Fin b \<and> i \<le> b)"
  using double_limit_pos by (auto simp: fl_over_def fl_max_def)

lemma backoff_delay_total:
  assumes valid: "new_backoff s = Inr t" and cap: "delay_cap s = Some (Fin c)" and n: "1 \<le> n"
    and prev: "prev = None \<or> (\<exists>p\<ge>0. prev = Some (Fin p))"
    and u: "\<forall>u. source_of s = Some u \<longrightarrow> honest u"
  shows "\<exists>v w'. backoff_delay s n prev w = (Inr v, w')"
proof (cases s)
  case (FullJitterBackoff i f m u)
  with valid cap n obtain a where a: "ceiling_of i f m n = Inr (Fin a)" "0 \<le> a"
    using capped_ceiling by fastforce
  with sample_honest [of u "Fin 0" 0 "Fin a" a w] FullJitterBackoff assms(5) show ?thesis by auto
next
  case (EqualJitterBackoff i f m u)
  with valid cap n obtain a where a: "ceiling_of i f m n = Inr (Fin a)" "0 \<le> a"
    using capped_ceiling by fastforce
  with sample_honest [of u "Fin 0" 0 "Fin (a / 2)" "a / 2" w] EqualJitterBackoff assms(5)
  obtain v w' where "sample u (Fin 0) (Fin (a / 2)) w = (Inr v, w')" by auto
  with a EqualJitterBackoff show ?thesis by simp
next
  case (DecorrelatedJitterBackoff i f m u)
  with valid have "validate_growth True i f (Some m) = Inr t" by simp
  from validate_growth_Inr [OF this] obtain a b where ab: "i = Fin a" "f = Fin b" "0 \<le> a" "0 \<le> b"
    by blast
  let ?prior = "case prev of None \<Rightarrow> i | Some p \<Rightarrow> p"
  from prev ab obtain p where p: "?prior = Fin p" "0 \<le> p" by auto
  let ?upper = "fl_max (Fin a) (fl_over (Fin (p * b)))"
  have "?upper = PosInf \<or> (\<exists>b. ?upper = Fin b \<and> a \<le> b)"
    using p ab by (intro decorrelated_upper) simp_all
  then have "\<exists>v w'. sample u (Fin a) ?upper w = (Inr v, w')"
    using sample_honest [of u "Fin a" a ?upper _ w] DecorrelatedJitterBackoff assms(5)
    by (auto simp: fl_le_def le_less)
  then obtain v w' where "sample u (Fin a) ?upper w = (Inr v, w')" by blast
  with p ab n DecorrelatedJitterBackoff show ?thesis
    by (cases prev) (auto simp: decorrelated_delay_def validate_attempt_def validate_number_def Let_def)
qed (use assms in \<open>auto simp: validate_attempt_def linear_delay_def exponential_delay_def\<close>)

text \<open>
  A capped strategy always produces a usable delay. For every strategy of the module that has a
  maximum, an attempt number of at least one and a random source that keeps its own range,
  the validated calculation returns (it does not raise) a finite delay between zero and the
  maximum, also where the exponential overflows.
\<close>

theorem calculate_backoff_total:
  assumes "new_backoff s = Inr ()" and "delay_cap s = Some (Fin c)" and "1 \<le> n"
    and "prev = None \<or> (\<exists>p\<ge>0. prev = Some (Fin p))"
    and "\<forall>u. source_of s = Some u \<longrightarrow> honest u"
  shows "\<exists>a w'. calculate_backoff (backoff_delay s) n prev w = (Inr a, w') \<and> 0 \<le> a \<and> a \<le> c"
proof -
  from backoff_delay_total [OF assms] obtain v w' where v: "backoff_delay s n prev w = (Inr v, w')"
    by blast
  from backoff_in_cap [OF assms(1) this] assms(2) obtain a where "v = Fin a" "0 \<le> a" "a \<le> c"
    by (auto simp: in_cap_Fin)
  with v show ?thesis by (simp add: calculate_backoff_def)
qed

theorem calculate_backoff_total_witness:
  "\<exists>a w'. calculate_backoff (backoff_delay
       (DecorrelatedJitterBackoff (Fin 1) (Fin 3) (Fin 60) (\<lambda>l h k. (Inr l, Suc k)))) 5
       (Some (Fin 40)) 0 = (Inr a, w') \<and> 0 \<le> a \<and> a \<le> 60"
proof -
  have ok: "new_backoff (DecorrelatedJitterBackoff (Fin 1) (Fin 3) (Fin 60) (\<lambda>l h k. (Inr l, Suc k)))
      = Inr ()"
    using default_growth [of True 2] by simp
  have honest: "honest (\<lambda>l h k. (Inr l, Suc k))"
    by (auto simp: honest_def fl_le_def fl_finite_iff)
  show ?thesis
    by (rule calculate_backoff_total [OF ok]) (use honest in auto)
qed

end
