(* ===== verification/Retry.thy ===== *)
theory Retry
  imports Backoff
begin

text \<open>
  \<open>broka/reliability/retry.py\<close>: the sliding-window retry budget, the failure classifiers and
  the retry loop. The world \<open>'w\<close> holds everything the loop's collaborators touch: the
  operation, the clock, the sleep, the callbacks, the random source and the budget. The
  operation receives the attempt timeout, and an attempt that \<open>asyncio.timeout\<close> cuts off is an
  operation that raises \<open>TimeoutError\<close>. Error messages and metadata are left out.
\<close>

subsection \<open>The retry budget\<close>

record retry_budget =
  rb_max :: int
  rb_window :: seconds
  rb_uses :: "seconds list"

definition new_budget :: "int \<Rightarrow> seconds \<Rightarrow> retry_budget result" where
  "new_budget max_retries window =
     (if max_retries < 0 then raise ValueError
      else if window \<le> 0 then raise ValueError
      else Inr \<lparr>rb_max = max_retries, rb_window = window, rb_uses = []\<rparr>)"

definition expire_uses :: "seconds \<Rightarrow> retry_budget \<Rightarrow> retry_budget" where
  "expire_uses now b = b\<lparr>rb_uses := dropWhile (\<lambda>t. t \<le> now - rb_window b) (rb_uses b)\<rparr>"

definition try_consume :: "seconds \<Rightarrow> retry_budget \<Rightarrow> bool \<times> retry_budget" where
  "try_consume now b =
     (let b' = expire_uses now b
      in if rb_max b' \<le> int (length (rb_uses b')) then (False, b')
         else (True, b'\<lparr>rb_uses := rb_uses b' @ [now]\<rparr>))"

definition budget_remaining :: "seconds \<Rightarrow> retry_budget \<Rightarrow> int \<times> retry_budget" where
  "budget_remaining now b =
     (let b' = expire_uses now b in (max 0 (rb_max b' - int (length (rb_uses b'))), b'))"

definition budget_reset :: "retry_budget \<Rightarrow> retry_budget" where
  "budget_reset b = b\<lparr>rb_uses := []\<rparr>"

text \<open>A sequence of calls at the given times, with the times at which a token was granted.\<close>

fun consume_all :: "seconds list \<Rightarrow> retry_budget \<Rightarrow> seconds list \<times> retry_budget" where
  "consume_all [] b = ([], b)"
| "consume_all (t # ts) b =
     (let (ok, b') = try_consume t b; (gs, b'') = consume_all ts b'
      in (if ok then t # gs else gs, b''))"

subsection \<open>Classification\<close>

datatype failure_decision = FD_RETRY | FD_DO_NOT_RETRY

datatype classifier =
    TypeClassifier (cl_retryable: "exc_class list") (cl_terminal: "exc_class list")
  | CallableClassifier "pyexc \<Rightarrow> (bool + failure_decision) result"

definition isinstance_any :: "pyexc \<Rightarrow> exc_class list \<Rightarrow> bool" where
  "isinstance_any e cs = list_ex (isinstance e) cs"

fun classify :: "classifier \<Rightarrow> pyexc \<Rightarrow> failure_decision result" where
  "classify (TypeClassifier retryable terminal) e =
     (if isinstance_any e [CancelledError, KeyboardInterrupt, SystemExit] then Inr FD_DO_NOT_RETRY
      else if isinstance_any e terminal then Inr FD_DO_NOT_RETRY
      else Inr (if isinstance_any e retryable then FD_RETRY else FD_DO_NOT_RETRY))"
| "classify (CallableClassifier f) e =
     (case f e of
        Inl e' \<Rightarrow> Inl e'
      | Inr (Inr d) \<Rightarrow> Inr d
      | Inr (Inl b) \<Rightarrow> Inr (if b then FD_RETRY else FD_DO_NOT_RETRY))"

subsection \<open>Policies and runs\<close>

datatype terminal_action = TA_RAISE | TA_DEAD_LETTER | TA_REJECT
datatype cancellation = CB_PROPAGATE | CB_CLASSIFY

record 'w retry_policy =
  rp_max_attempts :: int
  rp_max_elapsed :: "seconds option"
  rp_backoff :: "'w delay_fn"
  rp_classifier :: classifier
  rp_budget :: "('w \<Rightarrow> bool \<times> 'w) option"
  rp_attempt_timeout :: "seconds option"
  rp_cancellation :: cancellation
  rp_terminal_action :: terminal_action
  rp_name :: string

definition validate_policy :: "'w retry_policy \<Rightarrow> unit result" where
  "validate_policy p =
     (if rp_max_attempts p < 1 then raise ValueError
      else if (\<exists>s \<in> set_option (rp_max_elapsed p). s \<le> 0) then raise ValueError
      else if (\<exists>s \<in> set_option (rp_attempt_timeout p). s \<le> 0) then raise ValueError
      else if rp_name p = [] then raise ValueError
      else Inr ())"

text \<open>A budget kept in the world, read at the budget's own clock.\<close>

definition budget_in ::
  "('w \<Rightarrow> retry_budget) \<Rightarrow> (retry_budget \<Rightarrow> 'w \<Rightarrow> 'w) \<Rightarrow> ('w \<Rightarrow> seconds \<times> 'w) \<Rightarrow> 'w \<Rightarrow> bool \<times> 'w"
where
  "budget_in get put clock w =
     (let (now, w1) = clock w; (ok, b) = try_consume now (get w1) in (ok, put b w1))"

record retry_error =
  re_attempt :: int
  re_type :: exc_class
  re_elapsed :: seconds

record notification =
  rn_attempt :: int
  rn_next_attempt :: int
  rn_delay :: seconds
  rn_elapsed :: seconds
  rn_error :: pyexc
  rn_history :: "retry_error list"

record 'w retry_manager =
  rm_clock :: "'w \<Rightarrow> seconds \<times> 'w"
  rm_sleep :: "seconds \<Rightarrow> 'w action"
  rm_on_retry :: "(notification \<Rightarrow> 'w action) option"
  rm_events :: "(notification \<Rightarrow> 'w action) option"

datatype exhaustion_reason = ER_MAX_ATTEMPTS | ER_BUDGET | ER_ELAPSED

record exhaustion =
  ex_attempts :: int
  ex_elapsed :: seconds
  ex_reason :: exhaustion_reason
  ex_action :: terminal_action
  ex_history :: "retry_error list"
  ex_cause :: pyexc

datatype 'a run_outcome = Returned 'a | Raised pyexc | Exhausted exhaustion

text \<open>The exception of an outcome: exhaustion is a \<open>RetryExhaustedError\<close> that is never retryable.\<close>

fun outcome_error :: "'a run_outcome \<Rightarrow> pyexc option" where
  "outcome_error (Returned _) = None"
| "outcome_error (Raised e) = Some e"
| "outcome_error (Exhausted _) = Some (PyExc RetryExhaustedError False)"

definition exhausted ::
  "'w retry_policy \<Rightarrow> retry_error list \<Rightarrow> seconds \<Rightarrow> pyexc \<Rightarrow> exhaustion_reason \<Rightarrow> 'a run_outcome"
where
  "exhausted p history elapsed e reason =
     Exhausted \<lparr>ex_attempts = int (length history), ex_elapsed = elapsed, ex_reason = reason,
       ex_action = rp_terminal_action p, ex_history = history, ex_cause = e\<rparr>"

definition optional_call :: "(notification \<Rightarrow> 'w action) option \<Rightarrow> notification \<Rightarrow> 'w action" where
  "optional_call f n w = (case f of None \<Rightarrow> (Inr (), w) | Some g \<Rightarrow> g n w)"

definition retry_notify :: "'w retry_manager \<Rightarrow> notification \<Rightarrow> 'w action" where
  "retry_notify m n w =
     (case optional_call (rm_on_retry m) n w of
        (Inl e, w1) \<Rightarrow> (Inl e, w1)
      | (Inr _, w1) \<Rightarrow> optional_call (rm_events m) n w1)"

text \<open>
  The two except clauses: cancellation propagates unless the policy classifies it, other
  base exceptions are not caught, and everything else goes to the classifier.
\<close>

definition decide_failure :: "'w retry_policy \<Rightarrow> pyexc \<Rightarrow> failure_decision result" where
  "decide_failure p e =
     (if isinstance e CancelledError
      then (if rp_cancellation p = CB_PROPAGATE then Inr FD_DO_NOT_RETRY else classify (rp_classifier p) e)
      else if is_exception e then classify (rp_classifier p) e
      else Inr FD_DO_NOT_RETRY)"

text \<open>What follows a retryable failure: the end of the run, or the delay before the next attempt.\<close>

definition after_failure ::
  "'w retry_manager \<Rightarrow> 'w retry_policy \<Rightarrow> seconds \<Rightarrow> int \<Rightarrow> retry_error list \<Rightarrow> pyfloat option
   \<Rightarrow> pyexc \<Rightarrow> 'w \<Rightarrow> ('a run_outcome + seconds \<times> retry_error list) \<times> 'w"
where
  "after_failure m p started attempt history previous e w =
     (let (now, w1) = rm_clock m w;
          elapsed = max 0 (now - started);
          history' = history @ [\<lparr>re_attempt = attempt, re_type = exc_cls e, re_elapsed = elapsed\<rparr>]
      in if rp_max_attempts p \<le> attempt
         then (Inl (exhausted p history' elapsed e ER_MAX_ATTEMPTS), w1)
         else if (\<exists>limit \<in> set_option (rp_max_elapsed p). limit \<le> elapsed)
         then (Inl (exhausted p history' elapsed e ER_MAX_ATTEMPTS), w1)
         else case (case rp_budget p of None \<Rightarrow> (True, w1) | Some consume \<Rightarrow> consume w1) of
             (False, w2) \<Rightarrow> (Inl (exhausted p history' elapsed e ER_BUDGET), w2)
           | (True, w2) \<Rightarrow>
               (case calculate_backoff (rp_backoff p) attempt previous w2 of
                  (Inl e', w3) \<Rightarrow> (Inl (Raised e'), w3)
                | (Inr delay, w3) \<Rightarrow>
                    if (\<exists>limit \<in> set_option (rp_max_elapsed p). limit < elapsed + delay)
                    then (Inl (exhausted p history' elapsed e ER_ELAPSED), w3)
                    else case retry_notify m \<lparr>rn_attempt = attempt, rn_next_attempt = attempt + 1,
                             rn_delay = delay, rn_elapsed = elapsed, rn_error = e,
                             rn_history = history'\<rparr> w3 of
                        (Inl e', w4) \<Rightarrow> (Inl (Raised e'), w4)
                      | (Inr _, w4) \<Rightarrow>
                          (case rm_sleep m delay w4 of
                             (Inl e', w5) \<Rightarrow> (Inl (Raised e'), w5)
                           | (Inr _, w5) \<Rightarrow> (Inr (delay, history'), w5))))"

text \<open>The \<open>for\<close> loop, over the attempts that are left.\<close>

fun retry_loop ::
  "'w retry_manager \<Rightarrow> 'w retry_policy \<Rightarrow> (seconds option \<Rightarrow> 'w \<Rightarrow> 'a result \<times> 'w) \<Rightarrow> seconds
   \<Rightarrow> nat \<Rightarrow> int \<Rightarrow> retry_error list \<Rightarrow> pyfloat option \<Rightarrow> 'w \<Rightarrow> 'a run_outcome \<times> 'w"
where
  "retry_loop m p operation started 0 attempt history previous w =
     (Raised (PyExc AssertionError False), w)"
| "retry_loop m p operation started (Suc n) attempt history previous w =
     (case operation (rp_attempt_timeout p) w of
        (Inr x, w1) \<Rightarrow> (Returned x, w1)
      | (Inl e, w1) \<Rightarrow>
          (case decide_failure p e of
             Inl e' \<Rightarrow> (Raised e', w1)
           | Inr FD_DO_NOT_RETRY \<Rightarrow> (Raised e, w1)
           | Inr FD_RETRY \<Rightarrow>
               (case after_failure m p started attempt history previous e w1 of
                  (Inl out, w2) \<Rightarrow> (out, w2)
                | (Inr (delay, history'), w2) \<Rightarrow>
                    retry_loop m p operation started n (attempt + 1) history' (Some (Fin delay)) w2)))"

definition retry_run ::
  "'w retry_manager \<Rightarrow> 'w retry_policy \<Rightarrow> (seconds option \<Rightarrow> 'w \<Rightarrow> 'a result \<times> 'w) \<Rightarrow> 'w
   \<Rightarrow> 'a run_outcome \<times> 'w"
where
  "retry_run m p operation w =
     (let (started, w1) = rm_clock m w
      in retry_loop m p operation started (nat (rp_max_attempts p)) 1 [] None w1)"

subsection \<open>The budget's window\<close>

lemma length_filter_mono_le:
  "(\<And>x. x \<in> set xs \<Longrightarrow> P x \<Longrightarrow> Q x) \<Longrightarrow> length (filter P xs) \<le> length (filter Q xs)"
  by (induction xs) (auto intro: le_SucI)

lemma sorted_dropWhile_le:
  fixes xs :: "'a::linorder list"
  shows "sorted xs \<Longrightarrow> dropWhile (\<lambda>x. x \<le> c) xs = filter (\<lambda>x. c < x) xs"
proof (induction xs)
  case (Cons x xs)
  show ?case
  proof (cases "x \<le> c")
    case False
    with Cons.prems have "\<forall>y \<in> set (x # xs). c < y" by auto
    then show ?thesis using False by (simp add: filter_True)
  qed (use Cons in auto)
qed simp

text \<open>
  The tokens granted so far, and the deque that remembers those of the current window. \<open>bound\<close> is
  the time of the last call.
\<close>

definition budget_inv :: "seconds list \<Rightarrow> seconds \<Rightarrow> retry_budget \<Rightarrow> bool" where
  "budget_inv granted bound b \<longleftrightarrow>
     sorted granted \<and> (\<forall>g \<in> set granted. g \<le> bound)
     \<and> (\<exists>c \<le> bound - rb_window b. rb_uses b = filter (\<lambda>g. c < g) granted)
     \<and> (\<forall>t. int (length (filter (\<lambda>g. t - rb_window b < g \<and> g \<le> t) granted)) \<le> rb_max b)"

lemma expire_uses_inv:
  assumes "budget_inv G bound b" and "bound \<le> now"
  shows "rb_uses (expire_uses now b) = filter (\<lambda>g. now - rb_window b < g) G"
proof -
  from assms obtain c where sorted: "sorted G" and c: "c \<le> bound - rb_window b"
    and uses: "rb_uses b = filter (\<lambda>g. c < g) G"
    unfolding budget_inv_def by blast
  have "sorted (filter (\<lambda>g. c < g) G)" using sorted by (rule sorted_wrt_filter)
  then have "rb_uses (expire_uses now b) = filter (\<lambda>g. now - rb_window b < g) (filter (\<lambda>g. c < g) G)"
    by (simp add: expire_uses_def uses sorted_dropWhile_le)
  moreover have "now - rb_window b < g \<and> c < g \<longleftrightarrow> now - rb_window b < g" for g
    using c assms(2) by auto
  ultimately show ?thesis by (simp add: conj_commute)
qed

lemma try_consume_inv:
  assumes inv: "budget_inv G bound b" and "bound \<le> now" and "0 < rb_window b"
    and run: "try_consume now b = (ok, b')"
  shows "budget_inv (if ok then G @ [now] else G) now b'
    \<and> rb_window b' = rb_window b \<and> rb_max b' = rb_max b"
proof -
  let ?e = "expire_uses now b"
  let ?window = "filter (\<lambda>g. now - rb_window b < g) G"
  have uses: "rb_uses ?e = ?window" by (rule expire_uses_inv [OF inv assms(2)])
  have frame: "rb_window ?e = rb_window b" "rb_max ?e = rb_max b" by (simp_all add: expire_uses_def)
  from inv have sorted: "sorted G" and le: "\<forall>g \<in> set G. g \<le> bound"
    and cap: "\<And>t. int (length (filter (\<lambda>g. t - rb_window b < g \<and> g \<le> t) G)) \<le> rb_max b"
    by (auto simp: budget_inv_def)
  show ?thesis
  proof (cases "rb_max b \<le> int (length ?window)")
    case True
    with run uses frame have "\<not> ok" and "b' = ?e" by (auto simp: try_consume_def)
    with sorted le cap uses frame assms(2) show ?thesis by (auto simp: budget_inv_def)
  next
    case False
    with run uses frame have ok: ok and b': "b' = ?e\<lparr>rb_uses := ?window @ [now]\<rparr>"
      by (auto simp: try_consume_def)
    have "int (length (filter (\<lambda>g. t - rb_window b < g \<and> g \<le> t) (G @ [now]))) \<le> rb_max b" for t
    proof (cases "t < now")
      case True
      with cap [of t] show ?thesis by simp
    next
      case past: False
      have "length (filter (\<lambda>g. t - rb_window b < g \<and> g \<le> t) G) \<le> length ?window"
        using past by (intro length_filter_mono_le) auto
      with False show ?thesis by auto
    qed
    with sorted le ok b' frame assms(2,3) show ?thesis
      by (auto simp: budget_inv_def sorted_append intro!: exI [of _ "now - rb_window b"])
  qed
qed

lemma consume_all_inv:
  "budget_inv G bound b \<Longrightarrow> 0 < rb_window b \<Longrightarrow> sorted (bound # ts) \<Longrightarrow> consume_all ts b = (gs, b') \<Longrightarrow>
   budget_inv (G @ gs) (last (bound # ts)) b' \<and> rb_window b' = rb_window b \<and> rb_max b' = rb_max b"
proof (induction ts arbitrary: G bound b gs)
  case (Cons t ts)
  obtain ok b1 where step: "try_consume t b = (ok, b1)" by (cases "try_consume t b")
  obtain gs1 b2 where rest: "consume_all ts b1 = (gs1, b2)" by (cases "consume_all ts b1")
  from Cons.prems(3) have le: "bound \<le> t" and sorted: "sorted (t # ts)" by auto
  note inv = try_consume_inv [OF Cons.prems(1) le Cons.prems(2) step]
  from Cons.prems(4) step rest have gs: "gs = (if ok then t # gs1 else gs1)" and "b' = b2" by simp_all
  with inv Cons.IH [of "if ok then G @ [t] else G" t b1 gs1] sorted rest Cons.prems(2)
  show ?case by (cases ok) simp_all
qed simp

text \<open>
  The retry budget is a true sliding window. For calls at non-decreasing times, however they
  are interleaved, no window of the configured length ever contains more granted retries than
  the budget allows, and the remaining count is the allowance minus the grants still in the window.
\<close>

theorem budget_window:
  assumes "new_budget k window = Inr b" and "sorted ts" and "consume_all ts b = (gs, b')"
    and "\<forall>s \<in> set ts. s \<le> t"
  shows "int (length (filter (\<lambda>g. u - window < g \<and> g \<le> u) gs)) \<le> k
    \<and> fst (budget_remaining t b') = k - int (length (filter (\<lambda>g. t - window < g) gs))"
proof -
  define bound where "bound = (if ts = [] then t else hd ts)"
  from assms(1) have b: "b = \<lparr>rb_max = k, rb_window = window, rb_uses = []\<rparr>" "0 < window" "0 \<le> k"
    by (auto simp: new_budget_def split: if_splits)
  then have "budget_inv [] bound b"
    by (auto simp: budget_inv_def intro!: exI [of _ "bound - window"])
  moreover have sorted: "sorted (bound # ts)"
    using assms(2) by (cases ts) (auto simp: bound_def)
  ultimately have inv: "budget_inv gs (last (bound # ts)) b'" and frame: "rb_window b' = window" "rb_max b' = k"
    using consume_all_inv [of "[]" bound b ts gs b'] assms(3) b by auto
  from inv have cap: "\<And>t. int (length (filter (\<lambda>g. t - window < g \<and> g \<le> t) gs)) \<le> k"
    by (simp add: budget_inv_def frame)
  have last: "last (bound # ts) \<le> t" using assms(4) by (auto simp: bound_def)
  have "rb_uses (expire_uses t b') = filter (\<lambda>g. t - window < g) gs"
    using expire_uses_inv [OF inv last] by (simp add: frame)
  moreover have "\<forall>g \<in> set gs. g \<le> t" using inv last by (auto simp: budget_inv_def dest: order.trans)
  then have "filter (\<lambda>g. t - window < g) gs = filter (\<lambda>g. t - window < g \<and> g \<le> t) gs"
    by (intro filter_cong) auto
  ultimately show ?thesis
    using cap [of t] cap [of u] by (simp add: budget_remaining_def Let_def expire_uses_def frame)
qed

theorem budget_window_witness:
  "consume_all [0, 1, 2, 11] \<lparr>rb_max = 2, rb_window = 10, rb_uses = []\<rparr>
     = ([0, 1, 11], \<lparr>rb_max = 2, rb_window = 10, rb_uses = [11]\<rparr>)
   \<and> fst (budget_remaining 12 \<lparr>rb_max = 2, rb_window = 10, rb_uses = [11]\<rparr>) = 1"
proof -
  let ?b = "\<lparr>rb_max = 2, rb_window = 10, rb_uses = []\<rparr>"
  let ?b' = "\<lparr>rb_max = 2, rb_window = 10, rb_uses = [11]\<rparr>"
  have new: "new_budget 2 10 = Inr ?b" by code_simp
  have run: "consume_all [0, 1, 2, 11] ?b = ([0, 1, 11], ?b')"
    by (simp add: try_consume_def expire_uses_def)
  have "fst (budget_remaining 12 ?b') = 2 - int (length (filter (\<lambda>g. 12 - 10 < g) [0, 1, 11::rat]))"
    using budget_window [OF new _ run, of 12 0] by simp
  with run show ?thesis by simp
qed

subsection \<open>The retry loop\<close>

lemma calculate_backoff_world: "snd (calculate_backoff d n prev w) = snd (d n prev w)"
  by (auto simp: calculate_backoff_def split: sum.splits prod.splits pyfloat.splits)

lemma after_failure_stops:
  assumes "after_failure m p started attempt history prev e w = (Inl (Exhausted x), w')"
  shows "\<exists>elapsed \<ge> 0. ex_history x =
      history @ [\<lparr>re_attempt = attempt, re_type = exc_cls e, re_elapsed = elapsed\<rparr>]
    \<and> ex_attempts x = int (length (ex_history x)) \<and> ex_cause x = e \<and> ex_elapsed x = elapsed
    \<and> ex_action x = rp_terminal_action p
    \<and> (ex_reason x = ER_MAX_ATTEMPTS \<longrightarrow>
         rp_max_attempts p \<le> attempt \<or> (\<exists>limit. rp_max_elapsed p = Some limit \<and> limit \<le> elapsed))
    \<and> (ex_reason x = ER_BUDGET \<longrightarrow> rp_budget p \<noteq> None)
    \<and> (ex_reason x = ER_ELAPSED \<longrightarrow> rp_max_elapsed p \<noteq> None)"
proof -
  obtain now w1 where "rm_clock m w = (now, w1)" by (cases "rm_clock m w")
  with assms show ?thesis
    unfolding after_failure_def Let_def exhausted_def
    by (intro exI [of _ "max 0 (now - started)"])
       (auto split: if_splits sum.splits prod.splits bool.splits option.splits)
qed

lemma after_failure_continues:
  assumes "after_failure m p started attempt history prev e w = (Inr (d, h), w')"
  shows "attempt < rp_max_attempts p
    \<and> (\<exists>elapsed \<ge> 0. h = history @ [\<lparr>re_attempt = attempt, re_type = exc_cls e, re_elapsed = elapsed\<rparr>]
         \<and> (\<forall>limit. rp_max_elapsed p = Some limit \<longrightarrow> elapsed + d \<le> limit))"
proof -
  obtain now w1 where "rm_clock m w = (now, w1)" by (cases "rm_clock m w")
  with assms show ?thesis
    unfolding after_failure_def Let_def
    by (auto split: if_splits sum.splits prod.splits bool.splits option.splits
          intro!: exI [of _ "max 0 (now - started)"])
qed

text \<open>A measure of the world that only the operation can change.\<close>

definition quiet :: "('w \<Rightarrow> 'x) \<Rightarrow> 'w retry_manager \<Rightarrow> 'w retry_policy \<Rightarrow> bool" where
  "quiet f m p \<longleftrightarrow>
     (\<forall>w. f (snd (rm_clock m w)) = f w)
     \<and> (\<forall>d w. f (snd (rm_sleep m d w)) = f w)
     \<and> (\<forall>n w. f (snd (retry_notify m n w)) = f w)
     \<and> (\<forall>c w. rp_budget p = Some c \<longrightarrow> f (snd (c w)) = f w)
     \<and> (\<forall>n prev w. f (snd (rp_backoff p n prev w)) = f w)"

lemma quietD:
  assumes "quiet f m p"
  shows "rm_clock m w = (a, w') \<Longrightarrow> f w' = f w"
    and "rm_sleep m d w = (r, w') \<Longrightarrow> f w' = f w"
    and "retry_notify m n w = (r, w') \<Longrightarrow> f w' = f w"
    and "rp_budget p = Some c \<Longrightarrow> c w = (ok, w') \<Longrightarrow> f w' = f w"
    and "calculate_backoff (rp_backoff p) k prev w = (q, w') \<Longrightarrow> f w' = f w"
proof -
  show "f w' = f w" if "rm_clock m w = (a, w')" using assms that unfolding quiet_def by (metis snd_conv)
  show "f w' = f w" if "rm_sleep m d w = (r, w')" using assms that unfolding quiet_def by (metis snd_conv)
  show "f w' = f w" if "retry_notify m n w = (r, w')"
    using assms that unfolding quiet_def by (metis snd_conv)
  show "f w' = f w" if "rp_budget p = Some c" "c w = (ok, w')"
    using assms that unfolding quiet_def by (metis snd_conv)
  show "f w' = f w" if "calculate_backoff (rp_backoff p) k prev w = (q, w')"
    using assms that calculate_backoff_world unfolding quiet_def by (metis snd_conv)
qed

lemma after_failure_quiet:
  assumes "quiet f m p" and "after_failure m p started attempt history prev e w = (r, w')"
  shows "f w' = f w"
  using assms(2) unfolding after_failure_def Let_def
  by (auto split: if_splits sum.splits prod.splits bool.splits option.splits
        dest!: quietD [OF assms(1)])

lemma retry_loop_attempts:
  fixes operation :: "seconds option \<Rightarrow> 'w \<Rightarrow> 'a result \<times> 'w"
  assumes q: "quiet f m p" and count: "\<And>t w. f (snd (operation t w)) = Suc (f w)"
  shows "retry_loop m p operation started n attempt history prev w = (out, w') \<Longrightarrow>
     int (length history) = attempt - 1 \<Longrightarrow> map re_attempt history = [1..attempt - 1] \<Longrightarrow>
     attempt + int n = rp_max_attempts p + 1 \<Longrightarrow> 0 < n \<Longrightarrow>
     f w < f w' \<and> f w' \<le> f w + n
     \<and> (\<forall>x. out = Exhausted x \<longrightarrow> ex_attempts x = attempt - 1 + int (f w' - f w)
          \<and> map re_attempt (ex_history x) = [1..ex_attempts x])"
proof (induction n arbitrary: attempt history prev w)
  case (Suc n)
  obtain r w1 where op: "operation (rp_attempt_timeout p) w = (r, w1)"
    by (cases "operation (rp_attempt_timeout p) w")
  then have w1: "f w1 = Suc (f w)" using count [of "rp_attempt_timeout p" w] by simp
  show ?case
  proof (cases "\<exists>e. r = Inl e \<and> decide_failure p e = Inr FD_RETRY")
    case False
    with Suc.prems(1) op have "w' = w1" and "\<And>x. out \<noteq> Exhausted x"
      by (auto split: sum.splits failure_decision.splits)
    with w1 show ?thesis by simp
  next
    case True
    then obtain e where e: "r = Inl e" "decide_failure p e = Inr FD_RETRY" by blast
    obtain s :: "'a run_outcome + _" and w2
      where af: "after_failure m p started attempt history prev e w1 = (s, w2)"
      by (rule prod.exhaust)
    from after_failure_quiet [OF q af] w1 have w2: "f w2 = Suc (f w)" by simp
    show ?thesis
    proof (cases s)
      case (Inl o1)
      with Suc.prems(1) op e af have out: "out = o1" "w' = w2" by simp_all
      have "ex_attempts x = attempt \<and> map re_attempt (ex_history x) = [1..attempt]"
        if "o1 = Exhausted x" for x
      proof -
        from af Inl that have "after_failure m p started attempt history prev e w1 =
            (Inl (Exhausted x) :: 'a run_outcome + _, w2)" by simp
        from after_failure_stops [OF this] Suc.prems(1-4) show ?thesis by (auto simp: upto_rec2)
      qed
      with out w2 show ?thesis by auto
    next
      case (Inr dh)
      then obtain d h where dh: "s = Inr (d, h)" by (cases dh) auto
      from after_failure_continues [OF af [unfolded dh]]
      obtain elapsed where lt: "attempt < rp_max_attempts p"
        and h: "h = history @ [\<lparr>re_attempt = attempt, re_type = exc_cls e, re_elapsed = elapsed\<rparr>]"
        by blast
      from Suc.prems(1) op e af dh
      have rec: "retry_loop m p operation started n (attempt + 1) h (Some (Fin d)) w2 = (out, w')"
        by simp
      have "0 < n" using lt Suc.prems(4) by auto
      moreover have "map re_attempt h = [1..attempt]" and "int (length h) = attempt"
        using h Suc.prems(2,3) by (auto simp: upto_rec2)
      ultimately show ?thesis
        using Suc.IH [OF rec] Suc.prems(4) w2 by auto
    qed
  qed
qed simp

subsection \<open>Reasoning about a run\<close>

text \<open>
  A rule for runs: a predicate that the collaborators keep, and that a failing call keeps, holds after
  every run that fails; a run that returns does so with what a successful call establishes.
\<close>

definition keeps :: "('w \<Rightarrow> bool) \<Rightarrow> 'w retry_manager \<Rightarrow> 'w retry_policy \<Rightarrow> bool" where
  "keeps Q m p \<longleftrightarrow>
     (\<forall>w. Q w \<longrightarrow> Q (snd (rm_clock m w)) \<and> (\<forall>d. Q (snd (rm_sleep m d w))) \<and> (\<forall>n. Q (snd (retry_notify m n w)))
        \<and> (\<forall>c. rp_budget p = Some c \<longrightarrow> Q (snd (c w))) \<and> (\<forall>n prev. Q (snd (rp_backoff p n prev w))))"

lemma quiet_keeps: "quiet f m p \<Longrightarrow> keeps (\<lambda>w. P (f w)) m p"
  by (simp add: quiet_def keeps_def)

lemma keepsD:
  assumes "keeps Q m p" and "Q w"
  shows "rm_clock m w = (a, w') \<Longrightarrow> Q w'"
    and "rm_sleep m d w = (r, w') \<Longrightarrow> Q w'"
    and "retry_notify m n w = (r, w') \<Longrightarrow> Q w'"
    and "rp_budget p = Some c \<Longrightarrow> c w = (ok, w') \<Longrightarrow> Q w'"
    and "calculate_backoff (rp_backoff p) k prev w = (q, w') \<Longrightarrow> Q w'"
proof -
  from assms have keep: "Q (snd (rm_clock m w))" "Q (snd (rm_sleep m d w))" "Q (snd (retry_notify m n w))"
    "rp_budget p = Some c \<longrightarrow> Q (snd (c w))" "Q (snd (rp_backoff p k prev w))" for c
    unfolding keeps_def by blast+
  show "Q w'" if "rm_clock m w = (a, w')" using keep(1) that by simp
  show "Q w'" if "rm_sleep m d w = (r, w')" using keep(2) that by simp
  show "Q w'" if "retry_notify m n w = (r, w')" using keep(3) that by simp
  show "Q w'" if "rp_budget p = Some c" "c w = (ok, w')" using keep(4) [of c] that by simp
  show "Q w'" if "calculate_backoff (rp_backoff p) k prev w = (q, w')"
    using keep(5) calculate_backoff_world [of "rp_backoff p" k prev w] that by simp
qed

lemma after_failure_keeps:
  assumes k: "keeps Q m p" and "Q w" and "after_failure m p started attempt history prev e w = (r, w')"
  shows "Q w'"
proof -
  obtain now w1 where clock: "rm_clock m w = (now, w1)" by (rule prod.exhaust)
  obtain go w2 where budget: "(case rp_budget p of None \<Rightarrow> (True, w1) | Some consume \<Rightarrow> consume w1) = (go, w2)"
    by (rule prod.exhaust)
  obtain q w3 where backoff: "calculate_backoff (rp_backoff p) attempt prev w2 = (q, w3)" by (rule prod.exhaust)
  have Q1: "Q w1" by (rule keepsD(1) [OF k assms(2) clock])
  have Q2: "Q w2" using budget Q1 keepsD(4) [OF k Q1] by (auto split: option.splits)
  have Q3: "Q w3" by (rule keepsD(5) [OF k Q2 backoff])
  have notify: "retry_notify m n w3 = (r4, w4) \<Longrightarrow> Q w4" for n r4 w4 by (rule keepsD(3) [OF k Q3])
  have sleep: "retry_notify m n w3 = (r4, w4) \<Longrightarrow> rm_sleep m d w4 = (r5, w5) \<Longrightarrow> Q w5" for n r4 w4 d r5 w5
    by (rule keepsD(2) [OF k notify])
  from assms(3) Q1 Q2 Q3 show ?thesis
    unfolding after_failure_def Let_def
    by (auto simp: clock budget backoff split: if_splits sum.splits prod.splits bool.splits
        intro: notify sleep)
qed

lemma retry_loop_rule:
  fixes operation :: "seconds option \<Rightarrow> 'w \<Rightarrow> 'a result \<times> 'w"
  assumes k: "keeps Q m p"
    and fails: "\<And>t w e w'. Q w \<Longrightarrow> operation t w = (Inl e, w') \<Longrightarrow> Q w'"
    and returns: "\<And>t w x w'. Q w \<Longrightarrow> operation t w = (Inr x, w') \<Longrightarrow> R x w'"
  shows "Q w \<Longrightarrow> retry_loop m p operation started n attempt history prev w = (out, w') \<Longrightarrow>
    (case out of Returned x \<Rightarrow> R x w' | _ \<Rightarrow> Q w')"
proof (induction n arbitrary: attempt history prev w)
  case (Suc n)
  obtain r w1 where op: "operation (rp_attempt_timeout p) w = (r, w1)" by (rule prod.exhaust)
  show ?case
  proof (cases r)
    case (Inr x)
    with Suc.prems op returns show ?thesis by auto
  next
    case (Inl e)
    with op fails Suc.prems(1) have Q1: "Q w1" by blast
    show ?thesis
    proof (cases "decide_failure p e = Inr FD_RETRY")
      case False
      with Suc.prems(2) op Inl Q1 show ?thesis by (auto split: sum.splits failure_decision.splits)
    next
      case True
      obtain s :: "'a run_outcome + _" and w2
        where af: "after_failure m p started attempt history prev e w1 = (s, w2)" by (rule prod.exhaust)
      from after_failure_keeps [OF k Q1 af] have Q2: "Q w2" .
      show ?thesis
      proof (cases s)
        case (Inl o1)
        have "\<And>x. o1 \<noteq> Returned x"
          using af Inl unfolding after_failure_def Let_def exhausted_def
          by (auto split: if_splits sum.splits prod.splits bool.splits option.splits)
        moreover have "out = o1" "w' = w2" using Suc.prems(2) op \<open>r = Inl e\<close> True af Inl by simp_all
        ultimately show ?thesis using Q2 by (cases out) auto
      next
        case (Inr dh)
        then obtain d h where "s = Inr (d, h)" by (cases dh) auto
        with Suc.prems(2) op \<open>r = Inl e\<close> True af
        have "retry_loop m p operation started n (attempt + 1) h (Some (Fin d)) w2 = (out, w')" by simp
        from Suc.IH [OF Q2 this] show ?thesis .
      qed
    qed
  qed
qed auto

lemma retry_run_rule:
  fixes operation :: "seconds option \<Rightarrow> 'w \<Rightarrow> 'a result \<times> 'w"
  assumes "keeps Q m p"
    and "\<And>t w e w'. Q w \<Longrightarrow> operation t w = (Inl e, w') \<Longrightarrow> Q w'"
    and "\<And>t w x w'. Q w \<Longrightarrow> operation t w = (Inr x, w') \<Longrightarrow> R x w'"
    and "Q w" and "retry_run m p operation w = (out, w')"
  shows "case out of Returned x \<Rightarrow> R x w' | _ \<Rightarrow> Q w'"
proof -
  obtain started w1 where clock: "rm_clock m w = (started, w1)" by (rule prod.exhaust)
  have Q1: "Q w1" by (rule keepsD(1) [OF assms(1,4) clock])
  from assms(5) clock
  have loop: "retry_loop m p operation started (nat (rp_max_attempts p)) 1 [] None w1 = (out, w')"
    by (simp add: retry_run_def)
  show ?thesis
    by (rule retry_loop_rule [of Q m p operation R, OF assms(1) _ _ Q1 loop])
       (erule (1) assms(2), erule (1) assms(3))
qed

text \<open>What an awaited run gives its caller.\<close>

definition outcome_result :: "'a run_outcome \<Rightarrow> 'a result" where
  "outcome_result out =
     (case out of
        Returned x \<Rightarrow> Inr x
      | Raised e \<Rightarrow> Inl e
      | Exhausted x \<Rightarrow> Inl (PyExc RetryExhaustedError False))"

lemma outcome_result_simps [simp]:
  "outcome_result (Returned x) = Inr x"
  "outcome_result (Raised e) = Inl e"
  "outcome_result (Exhausted y) = Inl (PyExc RetryExhaustedError False)"
  by (simp_all add: outcome_result_def)

subsection \<open>How long a run sleeps\<close>

definition only_sleep ::
  "('w \<Rightarrow> seconds) \<Rightarrow> 'w retry_manager \<Rightarrow> 'w retry_policy \<Rightarrow> (seconds option \<Rightarrow> 'w \<Rightarrow> 'a result \<times> 'w) \<Rightarrow> bool"
where
  "only_sleep slept m p operation \<longleftrightarrow>
     quiet slept (m\<lparr>rm_sleep := \<lambda>d w. (Inr (), w)\<rparr>) p
     \<and> (\<forall>t w. slept (snd (operation t w)) = slept w)
     \<and> (\<forall>d \<ge> 0. \<forall>w. slept w \<le> slept (snd (rm_sleep m d w)) \<and> slept (snd (rm_sleep m d w)) \<le> slept w + d)"

lemma only_sleepD:
  assumes "only_sleep slept m p operation"
  shows "rm_clock m w = (a, w') \<Longrightarrow> slept w' = slept w"
    and "retry_notify m n w = (r, w') \<Longrightarrow> slept w' = slept w"
    and "rp_budget p = Some c \<Longrightarrow> c w = (ok, w') \<Longrightarrow> slept w' = slept w"
    and "calculate_backoff (rp_backoff p) k prev w = (q, w') \<Longrightarrow> slept w' = slept w"
    and "operation t w = (res, w') \<Longrightarrow> slept w' = slept w"
    and "rm_sleep m d w = (r, w') \<Longrightarrow> 0 \<le> d \<Longrightarrow> slept w' \<le> slept w + d"
proof -
  let ?m = "m\<lparr>rm_sleep := \<lambda>d w. (Inr (), w)\<rparr>"
  from assms have q: "quiet slept ?m p" by (simp add: only_sleep_def)
  have same: "retry_notify ?m n w = retry_notify m n w" "rm_clock ?m w = rm_clock m w"
    by (simp_all add: retry_notify_def split: sum.splits prod.splits)
  show "slept w' = slept w" if "rm_clock m w = (a, w')" using quietD(1) [OF q] same(2) that by simp
  show "slept w' = slept w" if "retry_notify m n w = (r, w')" using quietD(3) [OF q] same(1) that by simp
  show "slept w' = slept w" if "rp_budget p = Some c" "c w = (ok, w')" using quietD(4) [OF q] that .
  show "slept w' = slept w" if "calculate_backoff (rp_backoff p) k prev w = (q, w')"
    using quietD(5) [OF q] that .
  show "slept w' = slept w" if "operation t w = (res, w')"
    using assms that unfolding only_sleep_def by (metis snd_conv)
  show "slept w' \<le> slept w + d" if "rm_sleep m d w = (r, w')" "0 \<le> d"
    using assms that unfolding only_sleep_def by (metis snd_conv)
qed

context capped_backoff begin

lemma after_failure_slept:
  assumes o: "only_sleep slept m p operation" and b: "rp_backoff p = delay" and "0 \<le> cap"
    and run: "after_failure m p started attempt history prev e w = (r, w')"
  shows "slept w' \<le> slept w + (if rp_max_attempts p \<le> attempt then 0 else cap)"
proof -
  have capped: "slept u' = slept u \<and> 0 \<le> d \<and> d \<le> cap"
    if "calculate_backoff (rp_backoff p) attempt prev u = (Inr d, u')" for d u u'
    using calculate_capped [of attempt prev u d u'] only_sleepD(4) [OF o that] that b by simp
  from run assms(3) show ?thesis
    unfolding after_failure_def Let_def
    by (auto split: if_splits sum.splits prod.splits bool.splits option.splits
          dest!: only_sleepD(1-3) [OF o] capped dest: only_sleepD(4,6) [OF o])
qed

lemma retry_loop_slept:
  fixes operation :: "seconds option \<Rightarrow> 'w \<Rightarrow> 'b result \<times> 'w"
  assumes o: "only_sleep slept m p operation" and b: "rp_backoff p = delay" and c: "0 \<le> cap"
  shows "retry_loop m p operation started n attempt history prev w = (out, w') \<Longrightarrow>
     attempt + int n = rp_max_attempts p + 1 \<Longrightarrow> slept w' \<le> slept w + of_nat (n - 1) * cap"
proof (induction n arbitrary: attempt history prev w)
  case (Suc n)
  obtain r w1 where op: "operation (rp_attempt_timeout p) w = (r, w1)" by (rule prod.exhaust)
  from only_sleepD(5) [OF o op] have w1: "slept w1 = slept w" .
  show ?case
  proof (cases "\<exists>e. r = Inl e \<and> decide_failure p e = Inr FD_RETRY")
    case False
    with Suc.prems(1) op have "w' = w1" by (auto split: sum.splits failure_decision.splits)
    with w1 c show ?thesis by simp
  next
    case True
    then obtain e where e: "r = Inl e" "decide_failure p e = Inr FD_RETRY" by blast
    obtain s :: "'b run_outcome + _" and w2
      where af: "after_failure m p started attempt history prev e w1 = (s, w2)"
      by (rule prod.exhaust)
    from after_failure_slept [OF o b c af] w1
    have w2: "slept w2 \<le> slept w + (if rp_max_attempts p \<le> attempt then 0 else cap)" by simp
    show ?thesis
    proof (cases s)
      case (Inl o1)
      with Suc.prems(1) op e af have "w' = w2" by simp
      moreover have "(if rp_max_attempts p \<le> attempt then 0 else cap) \<le> of_nat n * cap"
        using Suc.prems(2) c by (cases n) (auto simp: algebra_simps)
      ultimately show ?thesis using w2 by simp
    next
      case (Inr dh)
      then obtain d h where dh: "s = Inr (d, h)" by (cases dh) auto
      from after_failure_continues [OF af [unfolded dh]] have "attempt < rp_max_attempts p" by blast
      with w2 Suc.prems(2) have w2': "slept w2 \<le> slept w + cap" and n: "0 < n" by auto
      from Suc.prems(1) op e af dh
      have "retry_loop m p operation started n (attempt + 1) h (Some (Fin d)) w2 = (out, w')" by simp
      from Suc.IH [OF this] Suc.prems(2) have "slept w' \<le> slept w2 + of_nat (n - 1) * cap" by simp
      moreover have "cap + of_nat (n - 1) * cap = of_nat n * cap"
        using n by (cases n) (simp_all add: algebra_simps)
      ultimately show ?thesis using w2' by simp
    qed
  qed
qed (use c in simp)

end

subsection \<open>What a run returns\<close>

text \<open>
  A specification of the loop for an operation whose \<open>i\<close>-th call has the outcome \<open>outcome i\<close>: the
  first call that succeeds or fails for good decides, and its outcome is the run's.
\<close>

fun first_decisive :: "'w retry_policy \<Rightarrow> (nat \<Rightarrow> 'a result) \<Rightarrow> nat \<Rightarrow> nat \<Rightarrow> nat option" where
  "first_decisive p outcome 0 i = None"
| "first_decisive p outcome (Suc n) i =
     (case outcome i of
        Inr x \<Rightarrow> Some i
      | Inl e \<Rightarrow> if decide_failure p e = Inr FD_RETRY then first_decisive p outcome n (Suc i)
                 else Some i)"

fun decided :: "'w retry_policy \<Rightarrow> 'a result \<Rightarrow> 'a run_outcome" where
  "decided p (Inr x) = Returned x"
| "decided p (Inl e) = Raised (case decide_failure p e of Inl e' \<Rightarrow> e' | Inr d \<Rightarrow> e)"

definition calls_in_order ::
  "('w \<Rightarrow> nat) \<Rightarrow> (nat \<Rightarrow> 'a result) \<Rightarrow> (seconds option \<Rightarrow> 'w \<Rightarrow> 'a result \<times> 'w) \<Rightarrow> bool"
where
  "calls_in_order f outcome operation \<longleftrightarrow>
     (\<forall>t w. fst (operation t w) = outcome (f w) \<and> f (snd (operation t w)) = Suc (f w))"

text \<open>No limit but the number of attempts, and collaborators that do not raise.\<close>

definition usable_delay :: "pyfloat option \<Rightarrow> bool" where
  "usable_delay prev \<longleftrightarrow> prev = None \<or> (\<exists>q \<ge> 0. prev = Some (Fin q))"

definition benign :: "'w retry_manager \<Rightarrow> 'w retry_policy \<Rightarrow> bool" where
  "benign m p \<longleftrightarrow>
     rp_budget p = None \<and> rp_max_elapsed p = None
     \<and> (\<forall>d w. fst (rm_sleep m d w) = Inr ())
     \<and> (\<forall>n w. fst (retry_notify m n w) = Inr ())
     \<and> (\<forall>n prev w. 1 \<le> n \<longrightarrow> usable_delay prev \<longrightarrow> is_ok (fst (calculate_backoff (rp_backoff p) n prev w)))"

lemma calculate_backoff_nonneg: "calculate_backoff d n prev w = (Inr a, w') \<Longrightarrow> 0 \<le> a"
  by (auto simp: calculate_backoff_def split: sum.splits prod.splits pyfloat.splits if_splits)

lemma after_failure_benign:
  assumes "benign m p" and "1 \<le> attempt" and "usable_delay prev" and "attempt < rp_max_attempts p"
  shows "\<exists>d h w'. after_failure m p started attempt history prev e w = (Inr (d, h), w') \<and> 0 \<le> d"
proof -
  obtain now w1 where clock: "rm_clock m w = (now, w1)" by (rule prod.exhaust)
  have no_limit: "rp_budget p = None" "rp_max_elapsed p = None" using assms(1) by (simp_all add: benign_def)
  have "is_ok (fst (calculate_backoff (rp_backoff p) attempt prev w1))"
    using assms(1-3) by (simp add: benign_def)
  then obtain a w2 where a: "calculate_backoff (rp_backoff p) attempt prev w1 = (Inr a, w2)"
    by (cases "calculate_backoff (rp_backoff p) attempt prev w1") (auto simp: is_ok_iff)
  have notify: "fst (retry_notify m n w2) = Inr ()" for n using assms(1) by (simp add: benign_def)
  have sleep: "fst (rm_sleep m a v) = Inr ()" for v using assms(1) by (simp add: benign_def)
  show ?thesis
    using assms(4) notify sleep calculate_backoff_nonneg [OF a]
    by (simp add: after_failure_def Let_def clock no_limit a split_beta)
qed

lemma after_failure_last:
  assumes "rp_max_attempts p \<le> attempt"
  shows "\<exists>x w'. after_failure m p started attempt history prev e w = (Inl (Exhausted x), w')
    \<and> ex_reason x = ER_MAX_ATTEMPTS \<and> ex_cause x = e \<and> ex_action x = rp_terminal_action p"
  using assms by (simp add: after_failure_def Let_def exhausted_def split_beta)

lemma retry_loop_refines:
  fixes operation :: "seconds option \<Rightarrow> 'w \<Rightarrow> 'a result \<times> 'w"
  assumes q: "quiet f m p" and b: "benign m p" and c: "calls_in_order f outcome operation"
  shows "attempt + int n = rp_max_attempts p + 1 \<Longrightarrow> 1 \<le> attempt \<Longrightarrow> usable_delay prev \<Longrightarrow> 0 < n \<Longrightarrow>
    \<exists>out w'. retry_loop m p operation started n attempt history prev w = (out, w')
      \<and> (case first_decisive p outcome n (f w) of
           Some k \<Rightarrow> out = decided p (outcome k) \<and> f w' = Suc k
         | None \<Rightarrow> f w' = f w + n \<and> (\<exists>x. out = Exhausted x \<and> ex_reason x = ER_MAX_ATTEMPTS
             \<and> outcome (f w + n - 1) = Inl (ex_cause x) \<and> ex_action x = rp_terminal_action p))"
proof (induction n arbitrary: attempt history prev w)
  case (Suc n)
  obtain w1 where op: "operation (rp_attempt_timeout p) w = (outcome (f w), w1)" and w1: "f w1 = Suc (f w)"
    using c unfolding calls_in_order_def by (metis prod.collapse)
  show ?case
  proof (cases "\<exists>e. outcome (f w) = Inl e \<and> decide_failure p e = Inr FD_RETRY")
    case False
    then show ?thesis
      using op w1 by (auto split: sum.splits failure_decision.splits)
  next
    case True
    then obtain e where e: "outcome (f w) = Inl e" "decide_failure p e = Inr FD_RETRY" by blast
    show ?thesis
    proof (cases n)
      case 0
      with Suc.prems(1) have "rp_max_attempts p \<le> attempt" by simp
      from after_failure_last [OF this] obtain x w2
        where af: "after_failure m p started attempt history prev e w1 = (Inl (Exhausted x) :: 'a run_outcome + _, w2)"
        and x: "ex_reason x = ER_MAX_ATTEMPTS" "ex_cause x = e" "ex_action x = rp_terminal_action p"
        by blast
      from after_failure_quiet [OF q af] w1 0 op e af x show ?thesis by simp
    next
      case (Suc n')
      with Suc.prems(1) have "attempt < rp_max_attempts p" by simp
      from after_failure_benign [OF b Suc.prems(2,3) this] obtain d h w2
        where af: "after_failure m p started attempt history prev e w1 = (Inr (d, h) :: 'a run_outcome + _, w2)"
        and "0 \<le> d"
        by blast
      then have "usable_delay (Some (Fin d))" by (simp add: usable_delay_def)
      with Suc.IH [of "attempt + 1" "Some (Fin d)" h w2] Suc.prems Suc
      obtain out w' where loop: "retry_loop m p operation started n (attempt + 1) h (Some (Fin d)) w2 = (out, w')"
        and spec: "case first_decisive p outcome n (f w2) of
           Some k \<Rightarrow> out = decided p (outcome k) \<and> f w' = Suc k
         | None \<Rightarrow> f w' = f w2 + n \<and> (\<exists>x. out = Exhausted x \<and> ex_reason x = ER_MAX_ATTEMPTS
             \<and> outcome (f w2 + n - 1) = Inl (ex_cause x) \<and> ex_action x = rp_terminal_action p)"
        by auto
      from after_failure_quiet [OF q af] w1 have w2: "f w2 = Suc (f w)" by simp
      show ?thesis
        using op e af loop spec w2 by (auto split: option.splits)
    qed
  qed
qed simp

subsection \<open>Properties of a run\<close>

text \<open>
  C8: a run makes at least one and at most \<open>max_attempts\<close> calls of the operation, whatever
  the operation, the clock, the callbacks and the budget do; and when it ends in exhaustion,
  the reported attempt count is the number of calls made and the history has one entry per
  call, numbered from one.
\<close>

theorem retry_attempts_bounded:
  assumes "validate_policy p = Inr ()" and "quiet f m p"
    and "\<forall>t w. f (snd (operation t w)) = Suc (f w)"
    and "retry_run m p operation w = (out, w')"
  shows "f w < f w' \<and> int (f w' - f w) \<le> rp_max_attempts p
    \<and> (\<forall>x. out = Exhausted x \<longrightarrow> ex_attempts x = int (f w' - f w)
         \<and> map re_attempt (ex_history x) = [1..ex_attempts x])"
proof -
  obtain started w1 where clock: "rm_clock m w = (started, w1)" by (rule prod.exhaust)
  from assms(1) have "1 \<le> rp_max_attempts p" by (simp add: validate_policy_def split: if_splits)
  with assms(4) clock retry_loop_attempts [OF assms(2), of operation started "nat (rp_max_attempts p)" 1 "[]" None w1 out w']
    assms(3) quietD(1) [OF assms(2) clock]
  show ?thesis by (auto simp: retry_run_def)
qed

text \<open>A world of two counters: calls made and seconds slept.\<close>

definition counting_manager :: "(nat \<times> rat) retry_manager" where
  "counting_manager =
     \<lparr>rm_clock = (\<lambda>w. (snd w, w)), rm_sleep = (\<lambda>d w. (Inr (), (fst w, snd w + d))),
      rm_on_retry = None, rm_events = None\<rparr>"

definition sample_policy :: "(nat \<times> rat) retry_policy" where
  "sample_policy =
     \<lparr>rp_max_attempts = 3, rp_max_elapsed = None, rp_backoff = backoff_delay (FixedBackoff (Fin 1)),
      rp_classifier = TypeClassifier [Exception] [], rp_budget = None, rp_attempt_timeout = None,
      rp_cancellation = CB_PROPAGATE, rp_terminal_action = TA_RAISE, rp_name = ''default''\<rparr>"

definition failing_operation :: "seconds option \<Rightarrow> nat \<times> rat \<Rightarrow> nat result \<times> nat \<times> rat" where
  "failing_operation t w = (raise OSError, (Suc (fst w), snd w))"

lemma sample_run_parts:
  "validate_policy sample_policy = Inr ()"
  "quiet fst counting_manager sample_policy"
  "only_sleep snd counting_manager sample_policy failing_operation"
  "benign counting_manager sample_policy"
  by (simp_all add: validate_policy_def sample_policy_def quiet_def counting_manager_def
      retry_notify_def optional_call_def only_sleep_def failing_operation_def benign_def
      calculate_backoff_def validate_attempt_def split: sum.splits prod.splits)

lemma failing_run:
  "\<exists>x. retry_run counting_manager sample_policy failing_operation (0, 0) = (Exhausted x, (3, 2))"
  by (simp add: retry_run_def counting_manager_def sample_policy_def failing_operation_def eval_nat_numeral
      decide_failure_def isinstance_def is_subclass.simps isinstance_any_def after_failure_def
      calculate_backoff_def validate_attempt_def retry_notify_def optional_call_def exhausted_def)

theorem retry_attempts_bounded_witness:
  "\<exists>x. retry_run counting_manager sample_policy failing_operation (0, 0) = (Exhausted x, (3, 2))
     \<and> ex_attempts x = 3 \<and> map re_attempt (ex_history x) = [1, 2, 3]"
proof -
  obtain x where run: "retry_run counting_manager sample_policy failing_operation (0, 0)
      = (Exhausted x, (3, 2))"
    using failing_run by blast
  have "\<forall>t w. fst (snd (failing_operation t w)) = Suc (fst w)" by (simp add: failing_operation_def)
  from retry_attempts_bounded [OF sample_run_parts(1,2) this run]
  have "ex_attempts x = 3" and "map re_attempt (ex_history x) = [1..ex_attempts x]" by simp_all
  moreover have "[1..3] = [1, 2, 3::int]" by (simp add: upto_rec1)
  ultimately show ?thesis using run by auto
qed

text \<open>
  A run never sleeps longer than its policy's backoff allows: with a strategy whose delays are capped
  at \<open>c\<close> seconds, the total requested sleep is at most \<open>c\<close> for each attempt but the last.
\<close>

theorem retry_sleep_bounded:
  assumes "validate_policy p = Inr ()" and "new_backoff s = Inr ()"
    and "delay_cap s = Some (Fin c)" and "0 \<le> c" and "rp_backoff p = backoff_delay s"
    and "only_sleep slept m p operation" and "retry_run m p operation w = (out, w')"
  shows "slept w' \<le> slept w + of_int (rp_max_attempts p - 1) * c"
proof -
  obtain started w1 where clock: "rm_clock m w = (started, w1)" by (rule prod.exhaust)
  from assms(1) have n: "1 \<le> rp_max_attempts p" by (simp add: validate_policy_def split: if_splits)
  from assms(7) clock
  have "retry_loop m p operation started (nat (rp_max_attempts p)) 1 [] None w1 = (out, w')"
    by (simp add: retry_run_def)
  from capped_backoff.retry_loop_slept [OF capped_strategy [OF assms(2,3)] assms(6,5,4) this] n
  have "slept w' \<le> slept w1 + of_nat (nat (rp_max_attempts p) - 1) * c" by simp
  moreover have "(of_nat (nat (rp_max_attempts p) - 1) :: rat) = of_int (rp_max_attempts p - 1)"
    using n by (simp add: of_nat_diff nat_diff_distrib')
  ultimately show ?thesis using only_sleepD(1) [OF assms(6) clock] by simp
qed

theorem retry_sleep_bounded_witness:
  "(\<exists>x. retry_run counting_manager sample_policy failing_operation (0, 0) = (Exhausted x, (3, 2)))
   \<and> (2::rat) \<le> 0 + of_int (rp_max_attempts sample_policy - 1) * 1"
proof
  obtain x where run: "retry_run counting_manager sample_policy failing_operation (0, 0)
      = (Exhausted x, (3, 2))"
    using failing_run by blast
  then show "\<exists>x. retry_run counting_manager sample_policy failing_operation (0, 0) = (Exhausted x, (3, 2))"
    by (rule exI)
  have "new_backoff (FixedBackoff (Fin 1)) = Inr ()" by (simp add: validate_number_Inr)
  from retry_sleep_bounded [OF sample_run_parts(1) this _ _ _ sample_run_parts(3) run]
  show "(2::rat) \<le> 0 + of_int (rp_max_attempts sample_policy - 1) * 1"
    by (simp add: sample_policy_def)
qed

text \<open>
  C9: a run computes the outcome of the first decisive call. When nothing but the number of attempts limits
  it, the run returns the value of the first successful call, or raises unchanged the
  first failure that is not to be retried (a cancellation that the policy propagates, an exit, an error
  the classifier calls terminal), having made exactly the calls up to it; if all
  attempts fail retryably it makes all of them and ends in exhaustion caused by the last.
\<close>

theorem retry_run_refines:
  assumes "validate_policy p = Inr ()" and "quiet f m p" and "benign m p"
    and "calls_in_order f outcome operation"
  shows "\<exists>out w'. retry_run m p operation w = (out, w')
    \<and> (case first_decisive p outcome (nat (rp_max_attempts p)) (f w) of
         Some k \<Rightarrow> out = decided p (outcome k) \<and> f w' = Suc k
       | None \<Rightarrow> f w' = f w + nat (rp_max_attempts p)
           \<and> (\<exists>x. out = Exhausted x \<and> ex_reason x = ER_MAX_ATTEMPTS
                \<and> outcome (f w + nat (rp_max_attempts p) - 1) = Inl (ex_cause x)
                \<and> ex_action x = rp_terminal_action p))"
proof -
  obtain started w1 where clock: "rm_clock m w = (started, w1)" by (rule prod.exhaust)
  from assms(1) have n: "1 \<le> rp_max_attempts p" by (simp add: validate_policy_def split: if_splits)
  note w1 = quietD(1) [OF assms(2) clock]
  from n have "1 + int (nat (rp_max_attempts p)) = rp_max_attempts p + 1" "0 < nat (rp_max_attempts p)"
    by simp_all
  then show ?thesis
    unfolding retry_run_def clock Let_def prod.case
    by (intro retry_loop_refines [OF assms(2-4), where w = w1, unfolded w1])
       (simp_all add: usable_delay_def)
qed

definition third_time_lucky :: "nat \<Rightarrow> nat result" where
  "third_time_lucky i = (if i < 2 then raise OSError else Inr i)"

definition lucky_operation :: "seconds option \<Rightarrow> nat \<times> rat \<Rightarrow> nat result \<times> nat \<times> rat" where
  "lucky_operation t w = (third_time_lucky (fst w), (Suc (fst w), snd w))"

theorem retry_run_refines_witness:
  "\<exists>w'. retry_run counting_manager sample_policy lucky_operation (0, 0) = (Returned 2, w') \<and> fst w' = 3"
proof -
  have "calls_in_order fst third_time_lucky lucky_operation"
    by (simp add: calls_in_order_def lucky_operation_def)
  from retry_run_refines [OF sample_run_parts(1,2,4) this, of "(0, 0)"]
  obtain out w' where run: "retry_run counting_manager sample_policy lucky_operation (0, 0) = (out, w')"
    and spec: "case first_decisive sample_policy third_time_lucky (nat (rp_max_attempts sample_policy)) 0 of
         Some k \<Rightarrow> out = decided sample_policy (third_time_lucky k) \<and> fst w' = Suc k
       | None \<Rightarrow> fst w' = 0 + nat (rp_max_attempts sample_policy)
           \<and> (\<exists>x. out = Exhausted x \<and> ex_reason x = ER_MAX_ATTEMPTS
                \<and> third_time_lucky (0 + nat (rp_max_attempts sample_policy) - 1) = Inl (ex_cause x)
                \<and> ex_action x = rp_terminal_action sample_policy)"
    unfolding fst_conv by blast
  have "first_decisive sample_policy third_time_lucky (nat (rp_max_attempts sample_policy)) 0 = Some 2"
    by (simp add: sample_policy_def third_time_lucky_def eval_nat_numeral decide_failure_def
        isinstance_def is_subclass.simps isinstance_any_def)
  with spec have "out = Returned 2" and "fst w' = 3" by (simp_all add: third_time_lucky_def)
  with run show ?thesis by blast
qed

text \<open>
  Two facts on cancellation: a policy that propagates it ends the run at once, and so does the
  default classifier under a policy that classifies it.
\<close>

lemma cancellation_not_retried:
  assumes "isinstance e CancelledError" and "operation (rp_attempt_timeout p) w = (Inl e, w1)"
    and "rp_cancellation p = CB_PROPAGATE \<or> rp_classifier p = TypeClassifier retryable terminal"
  shows "retry_loop m p operation started (Suc n) attempt history prev w = (Raised e, w1)"
  using assms by (auto simp: decide_failure_def isinstance_any_def)

end
