(* ===== verification/Circuit.thy ===== *)
theory Circuit
  imports Exceptions
begin

text \<open>
  \<open>broka/reliability/circuit_breaker.py\<close>. Every operation of a breaker runs its whole state
  change under the breaker's lock, so it is one atomic step at the time \<open>now\<close> its clock shows; the
  transition event is emitted after the lock is released and is part of the composed \<open>circuit_call\<close>.
  Interleaved calls are sequences of steps (\<open>calls_step\<close>). The failure rate is an exact quotient.
\<close>

datatype circuit_state = CS_CLOSED | CS_OPEN | CS_HALF_OPEN

record circuit_config =
  cc_failure_threshold :: int
  cc_recovery_timeout :: seconds
  cc_half_open_max :: int
  cc_success_threshold :: int
  cc_window_size :: int
  cc_minimum_calls :: int
  cc_failure_rate :: "rat option"
  cc_excluded :: "exc_class list"

definition validate_config :: "circuit_config \<Rightarrow> unit result" where
  "validate_config c =
     (if cc_failure_threshold c < 1 then raise ValueError
      else if cc_recovery_timeout c < 0 then raise ValueError
      else if cc_half_open_max c < 1 then raise ValueError
      else if cc_success_threshold c < 1 then raise ValueError
      else if cc_window_size c < 1 then raise ValueError
      else if \<not> (1 \<le> cc_minimum_calls c \<and> cc_minimum_calls c \<le> cc_window_size c) then raise ValueError
      else if (\<exists>r \<in> set_option (cc_failure_rate c). \<not> (0 \<le> r \<and> r \<le> 1)) then raise ValueError
      else Inr ())"

record breaker =
  cb_state :: circuit_state
  cb_window :: "bool list"
  cb_consecutive :: int
  cb_opened_at :: "seconds option"
  cb_inflight :: int
  cb_successes :: int

definition new_breaker :: "string \<Rightarrow> circuit_config \<Rightarrow> breaker result" where
  "new_breaker name c =
     (if name = [] then raise ValueError
      else Inr \<lparr>cb_state = CS_CLOSED, cb_window = [], cb_consecutive = 0, cb_opened_at = None,
                cb_inflight = 0, cb_successes = 0\<rparr>)"

text \<open>\<open>deque(maxlen=n).append\<close>: the oldest outcome falls out on the left.\<close>

definition push_window :: "int \<Rightarrow> bool list \<Rightarrow> bool \<Rightarrow> bool list" where
  "push_window n xs x = (let ys = xs @ [x] in drop (length ys - nat n) ys)"

definition open_locked :: "seconds \<Rightarrow> breaker \<Rightarrow> breaker" where
  "open_locked now b =
     b\<lparr>cb_state := CS_OPEN, cb_opened_at := Some now, cb_inflight := 0, cb_successes := 0\<rparr>"

definition close_locked :: "breaker \<Rightarrow> breaker" where
  "close_locked b =
     b\<lparr>cb_state := CS_CLOSED, cb_opened_at := None, cb_consecutive := 0, cb_window := [],
       cb_inflight := 0, cb_successes := 0\<rparr>"

definition failures_in :: "bool list \<Rightarrow> nat" where
  "failures_in xs = length (filter Not xs)"

definition should_open :: "circuit_config \<Rightarrow> breaker \<Rightarrow> bool" where
  "should_open c b \<longleftrightarrow>
     (if cc_failure_threshold c \<le> cb_consecutive b then True
      else case cc_failure_rate c of
        None \<Rightarrow> False
      | Some threshold \<Rightarrow>
          if int (length (cb_window b)) < cc_minimum_calls c then False
          else threshold \<le> of_nat (failures_in (cb_window b)) / of_nat (length (cb_window b)))"

type_synonym circuit_transition = "circuit_state \<times> circuit_state"

abbreviation circuit_open_error :: pyexc where
  "circuit_open_error \<equiv> PyExc CircuitOpenError True"

definition before_call ::
  "circuit_config \<Rightarrow> seconds \<Rightarrow> breaker \<Rightarrow> circuit_transition option result \<times> breaker"
where
  "before_call c now b =
     (let admit = (\<lambda>t b. if cb_state b = CS_HALF_OPEN
                         then (if cc_half_open_max c \<le> cb_inflight b then (Inl circuit_open_error, b)
                               else (Inr t, b\<lparr>cb_inflight := cb_inflight b + 1\<rparr>))
                         else (Inr t, b))
      in if cb_state b = CS_OPEN
         then case cb_opened_at b of
             None \<Rightarrow> (raise AssertionError, b)
           | Some opened \<Rightarrow>
               (let elapsed = max 0 (now - opened);
                    retry_after = max 0 (cc_recovery_timeout c - elapsed)
                in if retry_after \<le> 0
                   then admit (Some (CS_OPEN, CS_HALF_OPEN))
                          (b\<lparr>cb_state := CS_HALF_OPEN, cb_successes := 0, cb_inflight := 0\<rparr>)
                   else (Inl circuit_open_error, b))
         else admit None b)"

definition record_success :: "circuit_config \<Rightarrow> breaker \<Rightarrow> circuit_transition option \<times> breaker" where
  "record_success c b =
     (if cb_state b = CS_HALF_OPEN
      then (let b' = b\<lparr>cb_inflight := max 0 (cb_inflight b - 1), cb_successes := cb_successes b + 1\<rparr>
            in if cc_success_threshold c \<le> cb_successes b'
               then (Some (CS_HALF_OPEN, CS_CLOSED), close_locked b')
               else (None, b'))
      else if cb_state b = CS_CLOSED
      then (None, b\<lparr>cb_window := push_window (cc_window_size c) (cb_window b) True, cb_consecutive := 0\<rparr>)
      else (None, b))"

definition record_failure ::
  "circuit_config \<Rightarrow> seconds \<Rightarrow> breaker \<Rightarrow> circuit_transition option \<times> breaker"
where
  "record_failure c now b =
     (if cb_state b = CS_HALF_OPEN
      then (Some (CS_HALF_OPEN, CS_OPEN), open_locked now (b\<lparr>cb_inflight := max 0 (cb_inflight b - 1)\<rparr>))
      else if cb_state b = CS_CLOSED
      then (let b' = b\<lparr>cb_window := push_window (cc_window_size c) (cb_window b) False,
                       cb_consecutive := cb_consecutive b + 1\<rparr>
            in if should_open c b' then (Some (CS_CLOSED, CS_OPEN), open_locked now b')
               else (None, b'))
      else (None, b))"

definition release_probe :: "breaker \<Rightarrow> breaker" where
  "release_probe b =
     (if cb_state b = CS_HALF_OPEN then b\<lparr>cb_inflight := max 0 (cb_inflight b - 1)\<rparr> else b)"

definition moved :: "breaker \<Rightarrow> breaker \<Rightarrow> circuit_transition option" where
  "moved b b' = (if cb_state b \<noteq> cb_state b' then Some (cb_state b, cb_state b') else None)"

definition reset_breaker :: "breaker \<Rightarrow> circuit_transition option \<times> breaker" where
  "reset_breaker b = (let b' = close_locked b in (moved b b', b'))"

definition trip_breaker :: "seconds \<Rightarrow> breaker \<Rightarrow> circuit_transition option \<times> breaker" where
  "trip_breaker now b = (let b' = open_locked now b in (moved b b', b'))"

record breaker_snapshot =
  sn_name :: string
  sn_state :: circuit_state
  sn_consecutive :: int
  sn_window_calls :: nat
  sn_window_failures :: nat
  sn_failure_rate :: rat
  sn_inflight :: int
  sn_successes :: int
  sn_opened_at :: "seconds option"
  sn_retry_after :: "seconds option"

definition snapshot :: "string \<Rightarrow> circuit_config \<Rightarrow> seconds \<Rightarrow> breaker \<Rightarrow> breaker_snapshot" where
  "snapshot name c now b =
     (let failures = failures_in (cb_window b); calls = length (cb_window b)
      in \<lparr>sn_name = name, sn_state = cb_state b, sn_consecutive = cb_consecutive b,
          sn_window_calls = calls, sn_window_failures = failures,
          sn_failure_rate = (if calls \<noteq> 0 then of_nat failures / of_nat calls else 0),
          sn_inflight = cb_inflight b, sn_successes = cb_successes b,
          sn_opened_at = cb_opened_at b,
          sn_retry_after =
            (if cb_state b = CS_OPEN
             then (case cb_opened_at b of
                     None \<Rightarrow> None
                   | Some opened \<Rightarrow> Some (max 0 (cc_recovery_timeout c - (now - opened))))
             else None)\<rparr>)"

subsection \<open>A protected call\<close>

definition emit_transition ::
  "(circuit_transition \<Rightarrow> 'w action) option \<Rightarrow> circuit_transition option \<Rightarrow> 'w action"
where
  "emit_transition emit t w =
     (case t of
        None \<Rightarrow> (Inr (), w)
      | Some tr \<Rightarrow> (case emit of None \<Rightarrow> (Inr (), w) | Some f \<Rightarrow> f tr w))"

definition is_excluded :: "circuit_config \<Rightarrow> pyexc \<Rightarrow> bool" where
  "is_excluded c e = list_ex (isinstance e) (cc_excluded c)"

text \<open>The operation runs while no other call of this breaker does; \<open>clock\<close> reads the world's time.\<close>

definition circuit_call ::
  "circuit_config \<Rightarrow> ('w \<Rightarrow> seconds) \<Rightarrow> (circuit_transition \<Rightarrow> 'w action) option
   \<Rightarrow> ('w \<Rightarrow> 'a result \<times> 'w) \<Rightarrow> breaker \<Rightarrow> 'w \<Rightarrow> 'a result \<times> breaker \<times> 'w"
where
  "circuit_call c clock emit operation b w =
     (case before_call c (clock w) b of
        (Inl e, b1) \<Rightarrow> (Inl e, b1, w)
      | (Inr t, b1) \<Rightarrow>
          (case emit_transition emit t w of
             (Inl e, w1) \<Rightarrow> (Inl e, b1, w1)
           | (Inr _, w1) \<Rightarrow>
               (case operation w1 of
                  (Inr x, w2) \<Rightarrow>
                    (let (t', b2) = record_success c b1
                     in case emit_transition emit t' w2 of
                          (Inl e, w3) \<Rightarrow> (Inl e, b2, w3)
                        | (Inr _, w3) \<Rightarrow> (Inr x, b2, w3))
                | (Inl e, w2) \<Rightarrow>
                    if isinstance e CancelledError then (Inl e, release_probe b1, w2)
                    else (let (t', b2) = (if is_excluded c e then record_success c b1
                                          else record_failure c (clock w2) b1)
                          in case emit_transition emit t' w2 of
                               (Inl e', w3) \<Rightarrow> (Inl e', b2, w3)
                             | (Inr _, w3) \<Rightarrow> (Inl e, b2, w3)))))"

subsection \<open>The registry\<close>

type_synonym 'b breaker_registry = "(string, 'b) dict"

definition register_breaker ::
  "string \<Rightarrow> 'b \<Rightarrow> bool \<Rightarrow> 'b breaker_registry \<Rightarrow> unit result \<times> 'b breaker_registry"
where
  "register_breaker name b replace r =
     (if dict_has r name \<and> \<not> replace then (raise ValueError, r) else (Inr (), dict_set name b r))"

definition get_breaker :: "string \<Rightarrow> 'b breaker_registry \<Rightarrow> 'b result" where
  "get_breaker name r = (case dict_get r name of None \<Rightarrow> raise KeyError | Some b \<Rightarrow> Inr b)"

definition breaker_names :: "'b breaker_registry \<Rightarrow> string list" where
  "breaker_names r = sort (dict_keys r)"

subsection \<open>Steps and the invariant\<close>

datatype circuit_op =
    CO_before seconds | CO_success | CO_failure seconds | CO_release | CO_reset | CO_trip seconds

fun circuit_step :: "circuit_config \<Rightarrow> circuit_op \<Rightarrow> breaker \<Rightarrow> breaker" where
  "circuit_step c (CO_before now) b = snd (before_call c now b)"
| "circuit_step c CO_success b = snd (record_success c b)"
| "circuit_step c (CO_failure now) b = snd (record_failure c now b)"
| "circuit_step c CO_release b = release_probe b"
| "circuit_step c CO_reset b = snd (reset_breaker b)"
| "circuit_step c (CO_trip now) b = snd (trip_breaker now b)"

definition breaker_ok :: "circuit_config \<Rightarrow> breaker \<Rightarrow> bool" where
  "breaker_ok c b \<longleftrightarrow>
     0 \<le> cb_inflight b \<and> cb_inflight b \<le> cc_half_open_max c
     \<and> 0 \<le> cb_successes b \<and> cb_successes b < cc_success_threshold c
     \<and> 0 \<le> cb_consecutive b \<and> int (length (cb_window b)) \<le> cc_window_size c
     \<and> (cb_state b = CS_CLOSED \<longrightarrow> cb_opened_at b = None \<and> cb_consecutive b < cc_failure_threshold c)
     \<and> (cb_state b \<noteq> CS_CLOSED \<longrightarrow> cb_opened_at b \<noteq> None)
     \<and> (cb_state b \<noteq> CS_HALF_OPEN \<longrightarrow> cb_inflight b = 0 \<and> cb_successes b = 0)"

lemma validate_configD:
  "validate_config c = Inr u \<Longrightarrow>
   1 \<le> cc_failure_threshold c \<and> 0 \<le> cc_recovery_timeout c \<and> 1 \<le> cc_half_open_max c
   \<and> 1 \<le> cc_success_threshold c \<and> 1 \<le> cc_window_size c \<and> 1 \<le> cc_minimum_calls c"
  by (auto simp: validate_config_def split: if_splits)

lemma length_push_window: "0 \<le> n \<Longrightarrow> int (length (push_window n xs x)) \<le> n"
  by (simp add: push_window_def Let_def)

lemma new_breaker_ok: "validate_config c = Inr u \<Longrightarrow> new_breaker name c = Inr b \<Longrightarrow> breaker_ok c b"
  by (auto simp: new_breaker_def breaker_ok_def dest!: validate_configD split: if_splits)

lemma open_locked_ok [inv_intros]:
  "validate_config c = Inr u \<Longrightarrow> breaker_ok c b \<Longrightarrow> breaker_ok c (open_locked now b)"
  by (drule validate_configD) (simp add: breaker_ok_def open_locked_def)

lemma close_locked_ok [inv_intros]:
  "validate_config c = Inr u \<Longrightarrow> breaker_ok c (close_locked b)"
  by (drule validate_configD) (simp add: breaker_ok_def close_locked_def)

lemma before_call_ok [inv_intros]:
  "validate_config c = Inr u \<Longrightarrow> breaker_ok c b \<Longrightarrow> breaker_ok c (snd (before_call c now b))"
  by (drule validate_configD) (auto simp: breaker_ok_def before_call_def Let_def split: option.splits)

lemma record_success_ok [inv_intros]:
  assumes "validate_config c = Inr u" and "breaker_ok c b"
  shows "breaker_ok c (snd (record_success c b))"
proof -
  note c = validate_configD [OF assms(1)]
  consider "cb_state b = CS_HALF_OPEN" "cc_success_threshold c \<le> cb_successes b + 1"
    | "cb_state b = CS_HALF_OPEN" "\<not> cc_success_threshold c \<le> cb_successes b + 1"
    | "cb_state b = CS_CLOSED" | "cb_state b = CS_OPEN" by (cases "cb_state b") auto
  then show ?thesis
  proof cases
    case 1
    then show ?thesis using close_locked_ok [OF assms(1)] by (simp add: record_success_def Let_def)
  next
    case 2
    with assms(2) show ?thesis by (auto simp: record_success_def Let_def breaker_ok_def)
  next
    case 3
    with assms(2) c show ?thesis by (simp add: record_success_def breaker_ok_def length_push_window)
  next
    case 4
    with assms(2) show ?thesis by (simp add: record_success_def)
  qed
qed

lemma record_failure_ok [inv_intros]:
  assumes "validate_config c = Inr u" and "breaker_ok c b"
  shows "breaker_ok c (snd (record_failure c now b))"
proof -
  note c = validate_configD [OF assms(1)]
  let ?b = "b\<lparr>cb_window := push_window (cc_window_size c) (cb_window b) False,
                       cb_consecutive := cb_consecutive b + 1\<rparr>"
  consider "cb_state b = CS_HALF_OPEN" | "cb_state b = CS_CLOSED" "should_open c ?b"
    | "cb_state b = CS_CLOSED" "\<not> should_open c ?b" | "cb_state b = CS_OPEN" by (cases "cb_state b") auto
  then show ?thesis
  proof cases
    case 1
    with assms(2) c show ?thesis by (auto simp: record_failure_def open_locked_def breaker_ok_def)
  next
    case 2
    with assms(2) c show ?thesis
      by (simp add: record_failure_def Let_def open_locked_def breaker_ok_def length_push_window)
  next
    case 3
    then have "\<not> cc_failure_threshold c \<le> cb_consecutive b + 1"
      by (auto simp: should_open_def split: if_splits)
    with 3 assms(2) c show ?thesis
      by (simp add: record_failure_def Let_def breaker_ok_def length_push_window)
  next
    case 4
    with assms(2) show ?thesis by (simp add: record_failure_def)
  qed
qed

lemma release_probe_ok [inv_intros]: "breaker_ok c b \<Longrightarrow> breaker_ok c (release_probe b)"
  by (auto simp: breaker_ok_def release_probe_def)

lemma circuit_step_ok:
  "validate_config c = Inr u \<Longrightarrow> breaker_ok c b \<Longrightarrow> breaker_ok c (circuit_step c x b)"
  by (cases x) (auto simp: reset_breaker_def trip_breaker_def Let_def intro: inv_intros)

lemma fold_circuit_step_ok:
  "validate_config c = Inr u \<Longrightarrow> breaker_ok c b \<Longrightarrow> breaker_ok c (fold (circuit_step c) xs b)"
  by (induction xs arbitrary: b) (simp_all add: circuit_step_ok)

subsection \<open>When a closed circuit opens\<close>

text \<open>
  The specification over the whole list of outcomes since the circuit closed: the failures at its
  end, and the last \<open>window_size\<close> outcomes.
\<close>

definition trailing_failures :: "bool list \<Rightarrow> nat" where
  "trailing_failures xs = length (takeWhile Not (rev xs))"

definition recent :: "int \<Rightarrow> bool list \<Rightarrow> bool list" where
  "recent n xs = drop (length xs - nat n) xs"

definition trips :: "circuit_config \<Rightarrow> bool list \<Rightarrow> bool" where
  "trips c xs \<longleftrightarrow>
     xs \<noteq> [] \<and> \<not> last xs
     \<and> (cc_failure_threshold c \<le> int (trailing_failures xs)
        \<or> (\<exists>r. cc_failure_rate c = Some r \<and> cc_minimum_calls c \<le> int (length (recent (cc_window_size c) xs))
             \<and> r * of_nat (length (recent (cc_window_size c) xs))
                 \<le> of_nat (failures_in (recent (cc_window_size c) xs))))"

definition record_outcome :: "circuit_config \<Rightarrow> seconds \<Rightarrow> bool \<Rightarrow> breaker \<Rightarrow> breaker" where
  "record_outcome c now ok b = snd (if ok then record_success c b else record_failure c now b)"

lemma recent_snoc: "0 \<le> n \<Longrightarrow> push_window n (recent n xs) x = recent n (xs @ [x])"
  by (cases "nat n \<le> length xs") (auto simp: push_window_def recent_def Let_def Suc_diff_le)

lemma trailing_failures_snoc:
  "trailing_failures (xs @ [x]) = (if x then 0 else Suc (trailing_failures xs))"
  by (simp add: trailing_failures_def)

lemma length_recent: "0 < n \<Longrightarrow> xs \<noteq> [] \<Longrightarrow> 0 < length (recent n xs)"
  by (cases xs) (auto simp: recent_def)

lemma should_open_trips:
  assumes "1 \<le> cc_window_size c" and "cb_window b = recent (cc_window_size c) (xs @ [False])"
    and "cb_consecutive b = int (trailing_failures (xs @ [False]))"
  shows "should_open c b \<longleftrightarrow> trips c (xs @ [False])"
proof -
  let ?w = "recent (cc_window_size c) (xs @ [False])"
  have "0 < (of_nat (length ?w) :: rat)" using assms(1) length_recent [of "cc_window_size c" "xs @ [False]"]
    by simp
  then show ?thesis
    using assms(2,3) by (auto simp: should_open_def trips_def pos_le_divide_eq split: option.splits)
qed

lemma record_outcome_open: "cb_state b = CS_OPEN \<Longrightarrow> record_outcome c now x b = b"
  by (simp add: record_outcome_def record_success_def record_failure_def)

lemma fold_record_open:
  "cb_state b = CS_OPEN \<Longrightarrow> fold (\<lambda>(now, ok). record_outcome c now ok) xs b = b"
  by (induction xs arbitrary: b) (auto simp: record_outcome_open)

definition follows :: "circuit_config \<Rightarrow> bool list \<Rightarrow> breaker \<Rightarrow> bool" where
  "follows c xs b \<longleftrightarrow> cb_state b = CS_CLOSED \<and> cb_window b = recent (cc_window_size c) xs
     \<and> cb_consecutive b = int (trailing_failures xs)"

lemma record_outcome_follows:
  assumes "1 \<le> cc_window_size c" and "follows c xs b"
  shows "if trips c (xs @ [ok]) then cb_state (record_outcome c now ok b) = CS_OPEN
         else follows c (xs @ [ok]) (record_outcome c now ok b)"
proof (cases ok)
  case True
  with assms show ?thesis
    by (simp add: record_outcome_def record_success_def follows_def recent_snoc trailing_failures_snoc trips_def)
next
  case False
  let ?b = "b\<lparr>cb_window := push_window (cc_window_size c) (cb_window b) False,
                       cb_consecutive := cb_consecutive b + 1\<rparr>"
  from assms have b: "cb_state b = CS_CLOSED" "cb_window ?b = recent (cc_window_size c) (xs @ [False])"
    "cb_consecutive ?b = int (trailing_failures (xs @ [False]))"
    by (simp_all add: follows_def recent_snoc trailing_failures_snoc)
  from should_open_trips [OF assms(1) b(2,3)] b False show ?thesis
    by (simp add: record_outcome_def record_failure_def Let_def follows_def open_locked_def)
qed

lemma fold_record_follows:
  "1 \<le> cc_window_size c \<Longrightarrow> follows c xs b \<Longrightarrow>
   (if \<exists>k. 0 < k \<and> k \<le> length ys \<and> trips c (xs @ take k (map snd ys))
    then cb_state (fold (\<lambda>(now, ok). record_outcome c now ok) ys b) = CS_OPEN
    else follows c (xs @ map snd ys) (fold (\<lambda>(now, ok). record_outcome c now ok) ys b))"
proof (induction ys arbitrary: xs b)
  case (Cons y ys)
  obtain now ok where y: "y = (now, ok)" by (cases y)
  let ?b = "record_outcome c now ok b"
  have ex: "(\<exists>k. 0 < k \<and> k \<le> length (y # ys) \<and> trips c (xs @ take k (map snd (y # ys)))) \<longleftrightarrow>
      trips c (xs @ [ok]) \<or> (\<exists>k. 0 < k \<and> k \<le> length ys \<and> trips c ((xs @ [ok]) @ take k (map snd ys)))"
    (is "?l \<longleftrightarrow> ?r")
  proof
    assume ?l
    then obtain k where k: "0 < k" "k \<le> length (y # ys)" "trips c (xs @ take k (map snd (y # ys)))" by blast
    show ?r
    proof (cases "k = 1")
      case True
      with k y show ?thesis by simp
    next
      case False
      with k y have "0 < k - 1 \<and> k - 1 \<le> length ys \<and> trips c ((xs @ [ok]) @ take (k - 1) (map snd ys))"
        by (cases k) auto
      then show ?thesis by blast
    qed
  next
    assume ?r
    then show ?l
    proof (elim disjE exE conjE)
      assume "trips c (xs @ [ok])"
      with y show ?l by (intro exI [of _ 1]) simp
    next
      fix k
      assume "0 < k" "k \<le> length ys" "trips c ((xs @ [ok]) @ take k (map snd ys))"
      with y show ?l by (intro exI [of _ "Suc k"]) simp
    qed
  qed
  from record_outcome_follows [OF Cons.prems, of ok now] show ?case
    unfolding ex using Cons.IH [of "xs @ [ok]" ?b] Cons.prems(1) fold_record_open [of ?b]
    by (cases "trips c (xs @ [ok])") (auto simp: y split: if_splits)
qed simp

subsection \<open>Concurrent calls\<close>

text \<open>
  The calls in flight, each tagged with the half-open period that admitted it as a probe, or with
  0 when it was admitted by a closed circuit. The tags are bookkeeping of the model; the
  breaker does not see them. An event is one locked section of one call, or a manual operation.
\<close>

datatype call_end = CE_success | CE_failure seconds | CE_cancel

datatype call_event = EV_start seconds | EV_end nat call_end | EV_reset | EV_trip seconds

record calls =
  ca_breaker :: breaker
  ca_period :: nat
  ca_running :: "nat list"

fun end_op :: "call_end \<Rightarrow> circuit_op" where
  "end_op CE_success = CO_success"
| "end_op (CE_failure now) = CO_failure now"
| "end_op CE_cancel = CO_release"

fun calls_event :: "circuit_config \<Rightarrow> call_event \<Rightarrow> calls \<Rightarrow> calls" where
  "calls_event c (EV_start now) s =
     (case before_call c now (ca_breaker s) of
        (Inl e, b) \<Rightarrow> s\<lparr>ca_breaker := b\<rparr>
      | (Inr t, b) \<Rightarrow>
          let period = (if t = None then ca_period s else Suc (ca_period s))
          in \<lparr>ca_breaker = b, ca_period = period,
              ca_running = (if cb_state b = CS_HALF_OPEN then period else 0) # ca_running s\<rparr>)"
| "calls_event c (EV_end k e) s =
     (if k \<in> set (ca_running s)
      then s\<lparr>ca_breaker := circuit_step c (end_op e) (ca_breaker s), ca_running := remove1 k (ca_running s)\<rparr>
      else s)"
| "calls_event c EV_reset s = s\<lparr>ca_breaker := circuit_step c CO_reset (ca_breaker s)\<rparr>"
| "calls_event c (EV_trip now) s = s\<lparr>ca_breaker := circuit_step c (CO_trip now) (ca_breaker s)\<rparr>"

text \<open>A call of an earlier period that ends while the circuit is half open.\<close>

fun stale_end :: "calls \<Rightarrow> call_event \<Rightarrow> bool" where
  "stale_end s (EV_end k e) \<longleftrightarrow> cb_state (ca_breaker s) = CS_HALF_OPEN \<and> k \<noteq> ca_period s"
| "stale_end s _ \<longleftrightarrow> False"

inductive calls_reach :: "circuit_config \<Rightarrow> bool \<Rightarrow> calls \<Rightarrow> bool" for c strict where
  initial: "new_breaker name c = Inr b \<Longrightarrow>
     calls_reach c strict \<lparr>ca_breaker = b, ca_period = 0, ca_running = []\<rparr>"
| event: "calls_reach c strict s \<Longrightarrow> (strict \<Longrightarrow> \<not> stale_end s ev) \<Longrightarrow>
     calls_reach c strict (calls_event c ev s)"

definition calls_ok :: "circuit_config \<Rightarrow> calls \<Rightarrow> bool" where
  "calls_ok c s \<longleftrightarrow> breaker_ok c (ca_breaker s) \<and> (\<forall>k \<in> set (ca_running s). k \<le> ca_period s)"

definition probes_counted :: "calls \<Rightarrow> bool" where
  "probes_counted s \<longleftrightarrow>
     (cb_state (ca_breaker s) = CS_HALF_OPEN \<longrightarrow>
        int (count_list (ca_running s) (ca_period s)) = cb_inflight (ca_breaker s))"

lemma before_call_admitted:
  assumes "before_call c now b = (Inr t, b')"
  shows "(t = None \<and> cb_state b' = cb_state b \<and> cb_state b \<noteq> CS_OPEN
           \<and> cb_inflight b' = (if cb_state b = CS_HALF_OPEN then cb_inflight b + 1 else cb_inflight b))
       \<or> (t = Some (CS_OPEN, CS_HALF_OPEN) \<and> cb_state b = CS_OPEN \<and> cb_state b' = CS_HALF_OPEN \<and> cb_inflight b' = 1)"
  using assms by (auto simp: before_call_def Let_def split: option.splits if_splits)

lemma before_call_rejected:
  "before_call c now b = (Inl e, b') \<Longrightarrow>
   cb_state b = CS_HALF_OPEN \<and> b' = b \<or> cb_state b = CS_OPEN \<and> cb_state b' = CS_OPEN \<and> b' = b
   \<or> cb_state b = CS_OPEN \<and> cc_half_open_max c \<le> 0"
  by (auto simp: before_call_def Let_def split: option.splits if_splits)

lemma calls_event_ok:
  assumes "validate_config c = Inr u" and "calls_ok c s"
  shows "calls_ok c (calls_event c ev s)"
proof (cases ev)
  case (EV_start now)
  obtain r b where r: "before_call c now (ca_breaker s) = (r, b)" by (rule prod.exhaust)
  with before_call_ok [OF assms(1), of "ca_breaker s" now] assms(2) have "breaker_ok c b"
    by (simp add: calls_ok_def)
  with assms(2) EV_start r show ?thesis
    by (cases r) (auto simp: calls_ok_def Let_def)
next
  case (EV_end k e)
  with assms circuit_step_ok [OF assms(1), of "ca_breaker s" "end_op e"] show ?thesis
    by (auto simp: calls_ok_def dest: notin_set_remove1)
qed (use assms circuit_step_ok [OF assms(1), of "ca_breaker s"] in
      \<open>auto simp: calls_ok_def simp del: circuit_step.simps\<close>)

lemma calls_reach_ok: "calls_reach c strict s \<Longrightarrow> validate_config c = Inr u \<Longrightarrow> calls_ok c s"
proof (induction rule: calls_reach.induct)
  case (initial name b)
  then show ?case by (simp add: calls_ok_def new_breaker_ok)
qed (simp add: calls_event_ok)

lemma end_half_open:
  "cb_state (circuit_step c (end_op e) b) = CS_HALF_OPEN \<Longrightarrow>
   cb_state b = CS_HALF_OPEN \<and> cb_inflight (circuit_step c (end_op e) b) = max 0 (cb_inflight b - 1)"
  by (cases e)
     (auto simp: record_success_def record_failure_def release_probe_def Let_def open_locked_def
        close_locked_def split: if_splits)

lemma count_list_remove1: "count_list (remove1 k xs) k = count_list xs k - 1"
  by (induction xs) auto

lemma count_list_fresh: "\<forall>j \<in> set xs. j < k \<Longrightarrow> count_list xs k = 0" for k :: nat
  by (metis count_list_0_iff less_irrefl)

lemma probes_counted_event:
  assumes c: "validate_config c = Inr u" and ok: "calls_ok c s" and probes: "probes_counted s"
    and fresh: "\<not> stale_end s ev"
  shows "probes_counted (calls_event c ev s)"
proof (cases ev)
  case (EV_start now)
  obtain r b where r: "before_call c now (ca_breaker s) = (r, b)" by (rule prod.exhaust)
  show ?thesis
  proof (cases r)
    case (Inl e)
    with r before_call_rejected [of c now "ca_breaker s" e b] validate_configD [OF c] probes EV_start
    show ?thesis by (auto simp: probes_counted_def)
  next
    case (Inr t)
    from ok have "count_list (ca_running s) (Suc (ca_period s)) = 0"
      by (intro count_list_fresh) (auto simp: calls_ok_def less_Suc_eq_le)
    with before_call_admitted [of c now "ca_breaker s" t b] r Inr EV_start probes show ?thesis
      by (auto simp: probes_counted_def Let_def)
  qed
next
  case (EV_end k e)
  show ?thesis
  proof (cases "k \<in> set (ca_running s) \<and> cb_state (circuit_step c (end_op e) (ca_breaker s)) = CS_HALF_OPEN")
    case True
    note half = end_half_open [OF conjunct2 [OF True]]
    with fresh EV_end have k: "k = ca_period s" by simp
    have "count_list (ca_running s) k \<noteq> 0" using True by (simp add: count_list_0_iff)
    with half k probes True EV_end show ?thesis
      by (simp add: probes_counted_def count_list_remove1 del: circuit_step.simps)
  next
    case False
    with probes EV_end show ?thesis by (auto simp: probes_counted_def simp del: circuit_step.simps)
  qed
qed (auto simp: probes_counted_def reset_breaker_def trip_breaker_def close_locked_def open_locked_def Let_def)

lemma probes_counted_reach:
  "calls_reach c strict s \<Longrightarrow> strict \<Longrightarrow> validate_config c = Inr u \<Longrightarrow> probes_counted s"
proof (induction rule: calls_reach.induct)
  case (initial name b)
  then show ?case by (auto simp: probes_counted_def new_breaker_def split: if_splits)
next
  case (event s ev)
  then show ?case using probes_counted_event [OF _ calls_reach_ok [OF event(1)]] by blast
qed

subsection \<open>Properties\<close>

definition sample_config :: circuit_config where
  "sample_config =
     \<lparr>cc_failure_threshold = 1, cc_recovery_timeout = 30, cc_half_open_max = 1, cc_success_threshold = 1,
      cc_window_size = 4, cc_minimum_calls = 2, cc_failure_rate = Some (1 / 2), cc_excluded = []\<rparr>"

definition closed_breaker :: breaker where
  "closed_breaker =
     \<lparr>cb_state = CS_CLOSED, cb_window = [], cb_consecutive = 0, cb_opened_at = None,
      cb_inflight = 0, cb_successes = 0\<rparr>"

lemma sample_circuit: "validate_config sample_config = Inr ()" "new_breaker ''db'' c = Inr closed_breaker"
  by (simp_all add: sample_config_def validate_config_def new_breaker_def closed_breaker_def)

text \<open>
  C10: a breaker's bookkeeping never goes wrong. For a validated configuration, after any sequence of
  operations in any order, the probe count stays between zero and its bound and is zero outside the half-open
  state, an open circuit knows when it opened, a closed one has fewer consecutive
  failures than the threshold, and the window never outgrows its size.
\<close>

theorem breaker_invariant:
  assumes "validate_config c = Inr ()" and "new_breaker name c = Inr b"
  shows "breaker_ok c (fold (circuit_step c) xs b)"
  by (rule fold_circuit_step_ok [OF assms(1) new_breaker_ok [OF assms]])

theorem breaker_invariant_witness:
  "breaker_ok sample_config
     (fold (circuit_step sample_config) [CO_failure 5, CO_before 40, CO_before 40, CO_success] closed_breaker)"
  by (rule breaker_invariant [OF sample_circuit])

text \<open>
  An open circuit protects the dependency for exactly the recovery timeout. Whatever
  operations led to the open state, a call before the timeout has passed is rejected with a retryable
  CircuitOpenError and changes nothing; the first call at or after it is admitted as the only probe of a
  half-open circuit; and the snapshot reports a positive retry delay exactly when calls are
  rejected.
\<close>

theorem open_circuit_recovers:
  assumes "validate_config c = Inr ()" and "new_breaker name c = Inr b0"
    and "b = fold (circuit_step c) xs b0" and "cb_state b = CS_OPEN"
  shows "\<exists>opened. cb_opened_at b = Some opened
    \<and> (now < opened + cc_recovery_timeout c \<and> 0 < cc_recovery_timeout c \<longrightarrow>
         before_call c now b = (Inl circuit_open_error, b)
         \<and> (\<exists>r > 0. sn_retry_after (snapshot name c now b) = Some r))
    \<and> (opened + cc_recovery_timeout c \<le> now \<longrightarrow>
         before_call c now b = (Inr (Some (CS_OPEN, CS_HALF_OPEN)),
           b\<lparr>cb_state := CS_HALF_OPEN, cb_successes := 0, cb_inflight := 1\<rparr>)
         \<and> sn_retry_after (snapshot name c now b) = Some 0)"
proof -
  have "breaker_ok c b"
    using fold_circuit_step_ok [OF assms(1) new_breaker_ok [OF assms(1,2)]] assms(3) by simp
  then obtain opened where o: "cb_opened_at b = Some opened"
    using assms(4) by (auto simp: breaker_ok_def)
  from validate_configD [OF assms(1)] have "1 \<le> cc_half_open_max c" and "0 \<le> cc_recovery_timeout c" by simp_all
  with o assms(4) show ?thesis
    by (intro exI [of _ opened]) (auto simp: before_call_def Let_def snapshot_def max_def)
qed

theorem open_circuit_recovers_witness:
  "before_call sample_config 34 (circuit_step sample_config (CO_failure 5) closed_breaker)
     = (Inl circuit_open_error, circuit_step sample_config (CO_failure 5) closed_breaker)
   \<and> fst (before_call sample_config 35 (circuit_step sample_config (CO_failure 5) closed_breaker))
     = Inr (Some (CS_OPEN, CS_HALF_OPEN))"
proof -
  let ?b = "circuit_step sample_config (CO_failure 5) closed_breaker"
  have b: "?b = fold (circuit_step sample_config) [CO_failure 5] closed_breaker" by simp
  have s: "cb_state ?b = CS_OPEN" "cb_opened_at ?b = Some 5"
    by (simp_all add: record_failure_def closed_breaker_def should_open_def sample_config_def open_locked_def Let_def)
  have t: "cc_recovery_timeout sample_config = 30" by (simp add: sample_config_def)
  from open_circuit_recovers [OF sample_circuit b s(1), of 34]
    open_circuit_recovers [OF sample_circuit b s(1), of 35] s(2) t
  show ?thesis by (simp del: circuit_step.simps)
qed

text \<open>
  C11: a closed circuit opens exactly when it should. Fed any list of outcomes, it is open if and
  only if some prefix of the list ends in a failure and either has enough failures at its end or, when a rate is
  configured, has enough calls among its last \<open>window_size\<close> and a failure rate of at least the
  threshold among them; otherwise it is closed and its counters are those of the list.
\<close>

theorem circuit_opens_exactly:
  assumes "validate_config c = Inr ()" and "new_breaker name c = Inr b0"
  shows "let b = fold (\<lambda>(now, ok). record_outcome c now ok) outcomes b0
    in if \<exists>k. 0 < k \<and> k \<le> length outcomes \<and> trips c (take k (map snd outcomes))
    then cb_state b = CS_OPEN
    else cb_state b = CS_CLOSED
      \<and> cb_window b = recent (cc_window_size c) (map snd outcomes)
      \<and> cb_consecutive b = int (trailing_failures (map snd outcomes))"
proof -
  from assms(2) have "follows c [] b0"
    by (auto simp: new_breaker_def follows_def recent_def trailing_failures_def split: if_splits)
  from fold_record_follows [OF _ this, of outcomes] validate_configD [OF assms(1)] show ?thesis
    unfolding Let_def follows_def by (simp split: if_splits)
qed

theorem circuit_opens_exactly_witness:
  "cb_state (fold (\<lambda>(now, ok). record_outcome (sample_config\<lparr>cc_failure_threshold := 3\<rparr>) now ok)
      [(0, True), (1, True), (2, False), (3, False)] closed_breaker) = CS_OPEN"
proof -
  let ?c = "sample_config\<lparr>cc_failure_threshold := 3\<rparr>"
  have valid: "validate_config ?c = Inr ()" by (simp add: validate_config_def sample_config_def)
  have "trips ?c [True, True, False, False]"
    by (simp add: trips_def recent_def failures_in_def sample_config_def exI [of _ "1 / 2"])
  then have "\<exists>k. 0 < k \<and> k \<le> length [(0::rat, True), (1, True), (2, False), (3, False)]
      \<and> trips ?c (take k (map snd [(0::rat, True), (1, True), (2, False), (3, False)]))"
    by (intro exI [of _ 4]) simp
  with circuit_opens_exactly [OF valid sample_circuit(2), of "[(0, True), (1, True), (2, False), (3, False)]"]
  show ?thesis by (simp only: if_True Let_def)
qed

text \<open>
  C12: half-open probes are bounded as long as no call outlives its period. In every
  interleaving of calls in which a call that was admitted earlier does not end while the
  circuit is half open, the number of probes running is exactly the in-flight count and never more than
  the configured maximum.
\<close>

theorem half_open_probes_bounded:
  assumes "validate_config c = Inr ()" and "calls_reach c True s"
    and "cb_state (ca_breaker s) = CS_HALF_OPEN"
  shows "int (count_list (ca_running s) (ca_period s)) = cb_inflight (ca_breaker s)
    \<and> int (count_list (ca_running s) (ca_period s)) \<le> cc_half_open_max c"
  using probes_counted_reach [OF assms(2) TrueI assms(1)] calls_reach_ok [OF assms(2,1)] assms(3)
  by (simp add: probes_counted_def calls_ok_def breaker_ok_def)

definition initial_calls :: calls where
  "initial_calls = \<lparr>ca_breaker = closed_breaker, ca_period = 0, ca_running = []\<rparr>"

lemma initial_calls_reach: "calls_reach c strict initial_calls"
  unfolding initial_calls_def by (rule calls_reach.initial [OF sample_circuit(2)])

theorem half_open_probes_bounded_witness:
  "let s = fold (calls_event sample_config) [EV_start 0, EV_end 0 (CE_failure 1), EV_start 31] initial_calls
   in cb_state (ca_breaker s) = CS_HALF_OPEN \<and> count_list (ca_running s) (ca_period s) = 1
      \<and> int (count_list (ca_running s) (ca_period s)) \<le> cc_half_open_max sample_config"
proof -
  let ?s1 = "calls_event sample_config (EV_start 0) initial_calls"
  let ?s2 = "calls_event sample_config (EV_end 0 (CE_failure 1)) ?s1"
  let ?s3 = "calls_event sample_config (EV_start 31) ?s2"
  have "\<not> stale_end ?s1 (EV_end 0 (CE_failure 1))" by code_simp
  then have "calls_reach sample_config True ?s3"
    by (auto intro!: calls_reach.event initial_calls_reach simp del: calls_event.simps)
  moreover have half: "cb_state (ca_breaker ?s3) = CS_HALF_OPEN"
    and one: "count_list (ca_running ?s3) (ca_period ?s3) = 1" by code_simp+
  ultimately have "int (count_list (ca_running ?s3) (ca_period ?s3)) \<le> cc_half_open_max sample_config"
    using half_open_probes_bounded [OF sample_circuit(1)] by blast
  with half one show ?thesis by (simp add: Let_def del: calls_event.simps)
qed

text \<open>
  Without that restriction the bound fails: a call admitted while the circuit was closed and
  cancelled while it is half open gives back a slot it never took, and a second probe is admitted. The
  same call ending in success would close the circuit.
\<close>

lemma stale_call_admits_extra_probe:
  "let s = fold (calls_event sample_config)
       [EV_start 0, EV_start 0, EV_end 0 (CE_failure 1), EV_start 31, EV_end 0 CE_cancel, EV_start 31]
       initial_calls
   in cb_state (ca_breaker s) = CS_HALF_OPEN \<and> count_list (ca_running s) (ca_period s) = 2
      \<and> cc_half_open_max sample_config = 1"
  by code_simp

lemma stale_success_closes:
  "cb_state (ca_breaker (fold (calls_event sample_config)
       [EV_start 0, EV_start 0, EV_end 0 (CE_failure 1), EV_start 31, EV_end 0 CE_success]
       initial_calls)) = CS_CLOSED"
  by code_simp

subsection \<open>Calls\<close>

lemma emit_transition_none [simp]: "emit_transition None t w = (Inr (), w)"
  by (cases t) (simp_all add: emit_transition_def)

lemma record_inflight:
  "0 \<le> cb_inflight b \<Longrightarrow> cb_inflight (snd (record_success c b)) \<le> cb_inflight b"
  "0 \<le> cb_inflight b \<Longrightarrow> cb_inflight (snd (record_failure c now b)) \<le> cb_inflight b"
  by (auto simp: record_success_def record_failure_def Let_def close_locked_def open_locked_def)

lemma record_gives_back:
  assumes "cb_state b = CS_HALF_OPEN" and "1 \<le> cb_inflight b"
  shows "cb_inflight (snd (record_success c b)) \<le> cb_inflight b - 1"
    and "cb_inflight (snd (record_failure c now b)) \<le> cb_inflight b - 1"
    and "cb_inflight (release_probe b) \<le> cb_inflight b - 1"
  using assms
  by (auto simp: record_success_def record_failure_def release_probe_def Let_def close_locked_def
        open_locked_def)

text \<open>The breaker after an admitted call whose operation had the given outcome.\<close>

definition after_outcome :: "circuit_config \<Rightarrow> seconds \<Rightarrow> 'a result \<Rightarrow> breaker \<Rightarrow> breaker" where
  "after_outcome c now r b =
     (case r of
        Inr x \<Rightarrow> snd (record_success c b)
      | Inl e \<Rightarrow> if isinstance e CancelledError then release_probe b
                 else if is_excluded c e then snd (record_success c b)
                 else snd (record_failure c now b))"

lemma after_outcome_inflight:
  assumes "validate_config c = Inr u" and "breaker_ok c b" and "before_call c now b = (Inr t, b1)"
  shows "cb_inflight (after_outcome c now' r b1) \<le> cb_inflight b"
proof -
  from before_call_ok [OF assms(1,2), of now] assms(3) have ok: "breaker_ok c b1" by simp
  from assms(2) have "0 \<le> cb_inflight b" by (simp add: breaker_ok_def)
  show ?thesis
  proof (cases "cb_state b1 = CS_HALF_OPEN")
    case True
    with before_call_admitted [OF assms(3)] \<open>0 \<le> cb_inflight b\<close>
    have one: "1 \<le> cb_inflight b1" and le: "cb_inflight b1 - 1 \<le> cb_inflight b" by auto
    have "cb_inflight (after_outcome c now' r b1) \<le> cb_inflight b1 - 1"
      using record_gives_back [OF True one] by (simp add: after_outcome_def split: sum.splits)
    with le show ?thesis by linarith
  next
    case False
    with ok have "cb_inflight b1 = 0" by (simp add: breaker_ok_def)
    with record_inflight [of b1] \<open>0 \<le> cb_inflight b\<close> False show ?thesis
      by (auto simp: after_outcome_def release_probe_def split: sum.splits intro: order.trans)
  qed
qed

text \<open>
  A protected call is transparent and gives back what it took. With no listener attached, a call that
  the circuit admits runs the operation once and returns its value or raises its exception unchanged, a
  rejected call does not run it at all, cancellation counts neither as success nor as failure,
  and no call leaves more probe slots taken than it found.
\<close>

theorem circuit_call_transparent:
  assumes "validate_config c = Inr ()" and "breaker_ok c b"
  shows "case before_call c (clock w) b of
      (Inl e, b1) \<Rightarrow> circuit_call c clock None operation b w = (Inl e, b1, w)
    | (Inr t, b1) \<Rightarrow>
        (let (r, w1) = operation w;
             b2 = after_outcome c (clock w1) r b1
         in circuit_call c clock None operation b w = (r, b2, w1)
            \<and> cb_inflight b2 \<le> cb_inflight b \<and> breaker_ok c b2)"
proof -
  obtain p b1 where p: "before_call c (clock w) b = (p, b1)" by (rule prod.exhaust)
  obtain r w1 where r: "operation w = (r, w1)" by (rule prod.exhaust)
  from before_call_ok [OF assms, of "clock w"] p have ok: "breaker_ok c b1" by simp
  show ?thesis
  proof (cases p)
    case (Inl e)
    with p show ?thesis by (simp add: circuit_call_def)
  next
    case (Inr t)
    have "circuit_call c clock None operation b w = (r, after_outcome c (clock w1) r b1, w1)"
      by (simp add: circuit_call_def p r Inr after_outcome_def split_beta split: sum.splits)
    moreover have "breaker_ok c (after_outcome c (clock w1) r b1)"
      using ok assms(1) by (auto simp: after_outcome_def intro: inv_intros split: sum.splits)
    ultimately show ?thesis
      using after_outcome_inflight [OF assms p [unfolded Inr]] by (simp add: p r Inr)
  qed
qed

theorem circuit_call_transparent_witness:
  "circuit_call sample_config (\<lambda>w. w) None (\<lambda>w. (raise OSError :: nat result, w + 1)) closed_breaker 4
   = (raise OSError, snd (record_failure sample_config 5 closed_breaker), 5)"
proof -
  have "breaker_ok sample_config closed_breaker" by (rule new_breaker_ok [OF sample_circuit])
  from circuit_call_transparent [OF sample_circuit(1) this, where clock = "\<lambda>w. w" and w = 4
      and operation = "\<lambda>w. (raise OSError :: nat result, w + 1)"]
  show ?thesis
    by (simp add: before_call_def closed_breaker_def after_outcome_def is_excluded_def sample_config_def
        isinstance_def is_subclass.simps Let_def)
qed

text \<open>
  A listener that raises costs a probe slot for good: the probe is never run, its slot is
  never given back, and a half-open circuit with all slots taken rejects every call at any time.
\<close>

lemma half_open_full_rejects:
  "cb_state b = CS_HALF_OPEN \<Longrightarrow> cc_half_open_max c \<le> cb_inflight b \<Longrightarrow>
   before_call c now b = (Inl circuit_open_error, b)"
  by (simp add: before_call_def)

lemma raising_listener_blocks_circuit:
  "let (r, b, w) = circuit_call sample_config (\<lambda>w. w) (Some (\<lambda>t w. (raise (UserException 1), w)))
         (\<lambda>w. (Inr (7::nat), w)) (open_locked 5 closed_breaker) (40 :: rat)
   in r = raise (UserException 1) \<and> before_call sample_config now b = (Inl circuit_open_error, b)"
  by (simp add: circuit_call_def before_call_def emit_transition_def open_locked_def sample_config_def
      closed_breaker_def Let_def)

end
