(* ===== verification/Idempotency.thy ===== *)
theory Idempotency
  imports Exceptions
begin

text \<open>
  \<open>broka/reliability/idempotency.py\<close>: the in-memory idempotency store. Every operation holds
  the store's lock, so it is one atomic step at the time \<open>now\<close> of the store's clock. Metadata values are
  strings. The abstract state of a store at a time is the map of its unexpired records
  (\<open>active\<close>); expired records are invisible and only take up space until a later operation deletes them.
\<close>

datatype idem_status = IS_PROCESSING | IS_COMPLETED

record idem_record =
  ir_key :: string
  ir_status :: idem_status
  ir_acquired_at :: seconds
  ir_expires_at :: seconds
  ir_completed_at :: "seconds option"
  ir_metadata :: "(string, string) dict"

definition expired :: "idem_record \<Rightarrow> seconds \<Rightarrow> bool" where
  "expired r now \<longleftrightarrow> ir_expires_at r \<le> now"

record idem_store =
  im_default_ttl :: seconds
  im_processing_ttl :: seconds
  im_max_entries :: int
  im_records :: "(string, idem_record) dict"

definition new_idem_store :: "seconds \<Rightarrow> seconds \<Rightarrow> int \<Rightarrow> idem_store result" where
  "new_idem_store default_ttl processing_ttl max_entries =
     (if default_ttl \<le> 0 \<or> processing_ttl \<le> 0 then raise ValueError
      else if max_entries < 1 then raise ValueError
      else Inr \<lparr>im_default_ttl = default_ttl, im_processing_ttl = processing_ttl,
                im_max_entries = max_entries, im_records = []\<rparr>)"

definition drop_expired :: "seconds \<Rightarrow> idem_store \<Rightarrow> idem_store" where
  "drop_expired now s = s\<lparr>im_records := filter (\<lambda>(k, r). \<not> expired r now) (im_records s)\<rparr>"

definition make_capacity :: "seconds \<Rightarrow> idem_store \<Rightarrow> unit result \<times> idem_store" where
  "make_capacity now s =
     (let s' = drop_expired now s
      in if im_max_entries s' \<le> int (length (im_records s')) then (raise OverflowError, s')
         else (Inr (), s'))"

definition idem_claim ::
  "string \<Rightarrow> seconds option \<Rightarrow> (string, string) dict option \<Rightarrow> seconds \<Rightarrow> idem_store
   \<Rightarrow> bool result \<times> idem_store"
where
  "idem_claim key ttl metadata now s =
     (if key = [] then (raise ValueError, s)
      else let claim_ttl = (case ttl of None \<Rightarrow> im_processing_ttl s | Some t \<Rightarrow> t)
      in if claim_ttl \<le> 0 then (raise ValueError, s)
      else let fresh = (\<lambda>s1. case make_capacity now s1 of
              (Inl e, s2) \<Rightarrow> (Inl e, s2)
            | (Inr _, s2) \<Rightarrow>
                (Inr True, s2\<lparr>im_records := dict_set key
                   \<lparr>ir_key = key, ir_status = IS_PROCESSING, ir_acquired_at = now,
                    ir_expires_at = now + claim_ttl, ir_completed_at = None,
                    ir_metadata = (case metadata of None \<Rightarrow> [] | Some m \<Rightarrow> m)\<rparr> (im_records s2)\<rparr>))
      in case dict_get (im_records s) key of
           None \<Rightarrow> fresh s
         | Some r \<Rightarrow> if \<not> expired r now then (Inr False, s)
                     else fresh (s\<lparr>im_records := dict_del key (im_records s)\<rparr>))"

definition idem_complete ::
  "string \<Rightarrow> seconds option \<Rightarrow> seconds \<Rightarrow> idem_store \<Rightarrow> unit result \<times> idem_store"
where
  "idem_complete key ttl now s =
     (let completion_ttl = (case ttl of None \<Rightarrow> im_default_ttl s | Some t \<Rightarrow> t)
      in if completion_ttl \<le> 0 then (raise ValueError, s)
         else case dict_get (im_records s) key of
             None \<Rightarrow> (raise KeyError, s)
           | Some r \<Rightarrow>
               if expired r now then (raise KeyError, s)
               else (Inr (), s\<lparr>im_records := dict_set key
                      (r\<lparr>ir_status := IS_COMPLETED, ir_completed_at := Some now,
                         ir_expires_at := now + completion_ttl\<rparr>) (im_records s)\<rparr>))"

definition idem_release :: "string \<Rightarrow> idem_store \<Rightarrow> bool \<times> idem_store" where
  "idem_release key s =
     (case dict_get (im_records s) key of
        None \<Rightarrow> (False, s)
      | Some r \<Rightarrow> if ir_status r = IS_COMPLETED then (False, s)
                  else (True, s\<lparr>im_records := dict_del key (im_records s)\<rparr>))"

definition idem_get :: "string \<Rightarrow> seconds \<Rightarrow> idem_store \<Rightarrow> idem_record option \<times> idem_store" where
  "idem_get key now s =
     (case dict_get (im_records s) key of
        None \<Rightarrow> (None, s)
      | Some r \<Rightarrow> if expired r now then (None, s\<lparr>im_records := dict_del key (im_records s)\<rparr>)
                  else (Some r, s))"

definition idem_contains :: "string \<Rightarrow> bool \<Rightarrow> seconds \<Rightarrow> idem_store \<Rightarrow> bool \<times> idem_store" where
  "idem_contains key completed_only now s =
     (let (r, s') = idem_get key now s
      in (case r of None \<Rightarrow> False | Some x \<Rightarrow> \<not> completed_only \<or> ir_status x = IS_COMPLETED, s'))"

definition idem_purge :: "seconds \<Rightarrow> idem_store \<Rightarrow> nat \<times> idem_store" where
  "idem_purge now s = (length (filter (\<lambda>(k, r). expired r now) (im_records s)), drop_expired now s)"

subsection \<open>The abstract state\<close>

definition active :: "idem_store \<Rightarrow> seconds \<Rightarrow> string \<Rightarrow> idem_record option" where
  "active s now k =
     (case dict_get (im_records s) k of None \<Rightarrow> None | Some r \<Rightarrow> if expired r now then None else Some r)"

definition idem_ok :: "idem_store \<Rightarrow> bool" where
  "idem_ok s \<longleftrightarrow> dict_ok (im_records s) \<and> int (length (im_records s)) \<le> im_max_entries s
     \<and> 0 < im_default_ttl s \<and> 0 < im_processing_ttl s"

lemma new_idem_store_ok: "new_idem_store d p m = Inr s \<Longrightarrow> idem_ok s"
  by (auto simp: new_idem_store_def idem_ok_def split: if_splits)

lemma active_drop_expired [simp]:
  "dict_ok (im_records s) \<Longrightarrow> active (drop_expired now s) now = active s now"
  by (auto simp: active_def drop_expired_def dict_get_filter split: option.splits)

lemma get_drop_expired:
  "dict_ok (im_records s) \<Longrightarrow> dict_get (im_records (drop_expired now s)) = active s now"
  by (rule ext) (auto simp: active_def drop_expired_def dict_get_filter split: option.splits)

lemma drop_expired_ok [inv_intros]:
  assumes "idem_ok s"
  shows "idem_ok (drop_expired now s)"
proof -
  have "int (length (filter (\<lambda>(k, r). \<not> expired r now) (im_records s))) \<le> im_max_entries s"
    using assms length_filter_le [of "\<lambda>(k, r). \<not> expired r now" "im_records s"]
    unfolding idem_ok_def by linarith
  with assms show ?thesis
    by (auto simp: idem_ok_def drop_expired_def intro: dict_ok_filter)
qed

lemma delete_ok [inv_intros]: "idem_ok s \<Longrightarrow> idem_ok (s\<lparr>im_records := dict_del k (im_records s)\<rparr>)"
  using length_dict_del_le [of k "im_records s"] by (auto simp: idem_ok_def intro: dict_ok_del)

lemma replace_ok [inv_intros]:
  "idem_ok s \<Longrightarrow> dict_get (im_records s) k \<noteq> None \<Longrightarrow> idem_ok (s\<lparr>im_records := dict_set k r (im_records s)\<rparr>)"
  by (auto simp: idem_ok_def length_dict_set dict_has_def intro: dict_ok_set)

text \<open>Every unexpired record, and nothing else, is what the store counts after making room.\<close>

definition active_count :: "idem_store \<Rightarrow> seconds \<Rightarrow> nat" where
  "active_count s now = length (im_records (drop_expired now s))"

lemma active_count_card: "dict_ok (im_records s) \<Longrightarrow> active_count s now = card (dom (active s now))"
proof -
  assume ok: "dict_ok (im_records s)"
  let ?live = "im_records (drop_expired now s)"
  have "dict_ok ?live" using ok by (simp add: drop_expired_def dict_ok_filter)
  then have "length ?live = card (fst ` set ?live)"
    by (metis dict_ok_def distinct_card length_map set_map)
  also have "fst ` set ?live = dom (active s now)"
    using get_drop_expired [OF ok] by (metis dom_map_of_conv_image_fst)
  finally show ?thesis by (simp add: active_count_def)
qed


lemma get_drop_expired_filter:
  "dict_ok d \<Longrightarrow> dict_get (filter (\<lambda>(k, r). \<not> expired r now) d) k =
   (case dict_get d k of None \<Rightarrow> None | Some r \<Rightarrow> if expired r now then None else Some r)"
  by (auto simp: dict_get_filter split: option.splits)

lemma drop_expired_delete:
  "dict_ok (im_records s) \<Longrightarrow> dict_get (im_records s) k = Some r \<Longrightarrow> expired r now \<Longrightarrow>
   im_records (drop_expired now (s\<lparr>im_records := dict_del k (im_records s)\<rparr>)) = im_records (drop_expired now s)"
  by (auto simp: drop_expired_def AList.delete_eq dict_get_eq_Some filter_filter dict_ok_def
      intro!: filter_cong dest: eq_key_imp_eq_value)

lemma drop_expired_frame [simp]:
  "im_max_entries (drop_expired now s) = im_max_entries s"
  "im_default_ttl (drop_expired now s) = im_default_ttl s"
  "im_processing_ttl (drop_expired now s) = im_processing_ttl s"
  by (simp_all add: drop_expired_def)

text \<open>Claiming a key with no unexpired record comes down to dropping the expired ones.\<close>

lemma idem_claim_free:
  assumes ok: "idem_ok s" and key: "key \<noteq> []" "0 < (case ttl of None \<Rightarrow> im_processing_ttl s | Some t \<Rightarrow> t)"
    and free: "active s now key = None"
  shows "idem_claim key ttl md now s =
    (if im_max_entries s \<le> int (active_count s now) then (raise OverflowError, drop_expired now s)
     else (Inr True, (drop_expired now s)\<lparr>im_records := dict_set key
        \<lparr>ir_key = key, ir_status = IS_PROCESSING, ir_acquired_at = now,
         ir_expires_at = now + (case ttl of None \<Rightarrow> im_processing_ttl s | Some t \<Rightarrow> t),
         ir_completed_at = None, ir_metadata = (case md of None \<Rightarrow> [] | Some m \<Rightarrow> m)\<rparr>
        (im_records (drop_expired now s))\<rparr>))"
proof (cases "dict_get (im_records s) key")
  case None
  with key show ?thesis
    by (simp add: idem_claim_def make_capacity_def Let_def active_count_def)
next
  case (Some r)
  with free have r: "expired r now" by (simp add: active_def split: if_splits)
  let ?s = "s\<lparr>im_records := dict_del key (im_records s)\<rparr>"
  from ok have "dict_ok (im_records s)" by (simp add: idem_ok_def)
  from drop_expired_delete [OF this Some r]
  have "drop_expired now ?s = drop_expired now s" by (simp add: drop_expired_def)
  with Some r key show ?thesis
    by (simp add: idem_claim_def make_capacity_def Let_def active_count_def)
qed

lemma active_set:
  "dict_ok d \<Longrightarrow> active (s\<lparr>im_records := dict_set k r d\<rparr>) now =
   (if expired r now then (active (s\<lparr>im_records := d\<rparr>) now)(k := None)
    else (active (s\<lparr>im_records := d\<rparr>) now)(k \<mapsto> r))"
  by (rule ext) (auto simp: active_def)

lemma active_del:
  "active (s\<lparr>im_records := dict_del k d\<rparr>) now = (active (s\<lparr>im_records := d\<rparr>) now)(k := None)"
  by (rule ext) (auto simp: active_def)

lemma idem_claim_taken:
  "active s now key = Some r \<Longrightarrow> key \<noteq> [] \<Longrightarrow> 0 < (case ttl of None \<Rightarrow> im_processing_ttl s | Some t \<Rightarrow> t) \<Longrightarrow>
   idem_claim key ttl md now s = (Inr False, s)"
  by (auto simp: active_def idem_claim_def Let_def split: option.splits if_splits)

lemma idem_claim_ok [inv_intros]:
  assumes "idem_ok s"
  shows "idem_ok (snd (idem_claim key ttl md now s))"
proof (cases "key = [] \<or> (case ttl of None \<Rightarrow> im_processing_ttl s | Some t \<Rightarrow> t) \<le> 0 \<or> active s now key \<noteq> None")
  case True
  then have "snd (idem_claim key ttl md now s) = s"
    by (auto simp: idem_claim_def Let_def active_def split: option.splits if_splits)
  with assms show ?thesis by simp
next
  case False
  then have key: "key \<noteq> []" "0 < (case ttl of None \<Rightarrow> im_processing_ttl s | Some t \<Rightarrow> t)"
    and free: "active s now key = None" by auto
  have ok: "idem_ok (drop_expired now s)" using assms by (rule inv_intros)
  then have "dict_ok (im_records (drop_expired now s))" by (simp add: idem_ok_def)
  moreover have "dict_get (im_records (drop_expired now s)) key = None"
    using get_drop_expired [of s now] assms free by (simp add: idem_ok_def)
  ultimately show ?thesis
    using ok unfolding idem_claim_free [OF assms key free]
    by (auto simp: idem_ok_def length_dict_set dict_has_def active_count_def intro: dict_ok_set)
qed

lemma idem_complete_ok [inv_intros]: "idem_ok s \<Longrightarrow> idem_ok (snd (idem_complete key ttl now s))"
  by (auto simp: idem_complete_def Let_def intro!: replace_ok split: option.splits)

lemma idem_release_ok [inv_intros]: "idem_ok s \<Longrightarrow> idem_ok (snd (idem_release key s))"
  by (auto simp: idem_release_def intro!: delete_ok split: option.splits)

lemma idem_get_ok [inv_intros]: "idem_ok s \<Longrightarrow> idem_ok (snd (idem_get key now s))"
  by (auto simp: idem_get_def intro!: delete_ok split: option.splits)

lemma idem_purge_ok [inv_intros]: "idem_ok s \<Longrightarrow> idem_ok (snd (idem_purge now s))"
  by (simp add: idem_purge_def drop_expired_ok)

subsection \<open>Sequences of operations\<close>

datatype idem_op =
    IO_claim string "seconds option" "(string, string) dict option"
  | IO_complete string "seconds option"
  | IO_release string
  | IO_get string
  | IO_purge

fun idem_step :: "seconds \<times> idem_op \<Rightarrow> idem_store \<Rightarrow> idem_store" where
  "idem_step (now, IO_claim key ttl md) s = snd (idem_claim key ttl md now s)"
| "idem_step (now, IO_complete key ttl) s = snd (idem_complete key ttl now s)"
| "idem_step (now, IO_release key) s = snd (idem_release key s)"
| "idem_step (now, IO_get key) s = snd (idem_get key now s)"
| "idem_step (now, IO_purge) s = snd (idem_purge now s)"

lemma idem_step_ok: "idem_ok s \<Longrightarrow> idem_ok (idem_step x s)"
  by (cases "(x, s)" rule: idem_step.cases) (auto intro: inv_intros)

lemma idem_step_frame:
  "im_processing_ttl (idem_step x s) = im_processing_ttl s \<and> im_max_entries (idem_step x s) = im_max_entries s"
  by (cases "(x, s)" rule: idem_step.cases)
     (auto simp: idem_claim_def make_capacity_def idem_complete_def idem_release_def idem_get_def
        idem_purge_def Let_def split: option.splits)

lemma fold_idem_step_frame:
  "im_processing_ttl (fold idem_step xs s) = im_processing_ttl s
   \<and> im_max_entries (fold idem_step xs s) = im_max_entries s"
  by (induction xs arbitrary: s) (simp_all add: idem_step_frame)

lemma fold_idem_step_ok: "idem_ok s \<Longrightarrow> idem_ok (fold idem_step xs s)"
  by (induction xs arbitrary: s) (simp_all add: idem_step_ok)

lemma drop_expired_keeps:
  "dict_ok (im_records s) \<Longrightarrow> dict_get (im_records s) k = Some r \<Longrightarrow> \<not> expired r now \<Longrightarrow>
   dict_get (im_records (drop_expired now s)) k = Some r"
  by (simp add: drop_expired_def get_drop_expired_filter)

text \<open>An operation at a time before the deadline leaves a record that lasts to the deadline in place.\<close>

fun leaves_claim :: "string \<Rightarrow> seconds \<Rightarrow> idem_store \<Rightarrow> seconds \<times> idem_op \<Rightarrow> bool" where
  "leaves_claim key deadline s (now, IO_complete k ttl) \<longleftrightarrow>
     now < deadline \<and> (k = key \<longrightarrow> deadline \<le> now + (case ttl of None \<Rightarrow> im_default_ttl s | Some t \<Rightarrow> t))"
| "leaves_claim key deadline s (now, IO_release k) \<longleftrightarrow> k \<noteq> key"
| "leaves_claim key deadline s (now, _) \<longleftrightarrow> now < deadline"

definition held :: "string \<Rightarrow> seconds \<Rightarrow> idem_store \<Rightarrow> bool" where
  "held key deadline s \<longleftrightarrow> (\<exists>r. dict_get (im_records s) key = Some r \<and> deadline \<le> ir_expires_at r)"

lemma claim_keeps_held:
  assumes ok: "idem_ok s" and held: "held key deadline s" and now: "now < deadline"
  shows "held key deadline (snd (idem_claim k ttl md now s))"
proof -
  from held obtain r where r: "dict_get (im_records s) key = Some r" "deadline \<le> ir_expires_at r"
    by (auto simp: held_def)
  with now have live: "\<not> expired r now" and act: "active s now key = Some r"
    by (auto simp: expired_def active_def)
  show ?thesis
  proof (cases "k = [] \<or> (case ttl of None \<Rightarrow> im_processing_ttl s | Some t \<Rightarrow> t) \<le> 0 \<or> active s now k \<noteq> None")
    case True
    then have "snd (idem_claim k ttl md now s) = s"
      by (auto simp: idem_claim_def Let_def active_def split: option.splits if_splits)
    with held show ?thesis by simp
  next
    case False
    then have k: "k \<noteq> []" "0 < (case ttl of None \<Rightarrow> im_processing_ttl s | Some t \<Rightarrow> t)"
      and free: "active s now k = None" by auto
    with act have "k \<noteq> key" by auto
    moreover have "dict_get (im_records (drop_expired now s)) key = Some r"
      using ok r live by (intro drop_expired_keeps) (simp_all add: idem_ok_def)
    ultimately show ?thesis
      unfolding idem_claim_free [OF ok k free] using r by (auto simp: held_def)
  qed
qed

lemma idem_step_keeps_held:
  assumes "idem_ok s" and "held key deadline s" and "leaves_claim key deadline s x"
  shows "held key deadline (idem_step x s)"
proof (cases "(x, s)" rule: idem_step.cases)
  case (1 now k ttl md)
  with assms claim_keeps_held [OF assms(1,2)] show ?thesis by simp
next
  case (2 now k ttl)
  with assms show ?thesis
    by (auto simp: idem_complete_def held_def Let_def expired_def split: option.splits)
next
  case (3 now k)
  with assms show ?thesis by (auto simp: idem_release_def held_def split: option.splits)
next
  case (4 now k)
  with assms show ?thesis by (auto simp: idem_get_def held_def expired_def split: option.splits)
next
  case (5 now)
  from assms(2) obtain r where r: "dict_get (im_records s) key = Some r" "deadline \<le> ir_expires_at r"
    by (auto simp: held_def)
  with 5 assms(1,3) have "dict_get (im_records (drop_expired now s)) key = Some r"
    by (intro drop_expired_keeps) (simp_all add: idem_ok_def expired_def)
  with 5 r show ?thesis by (auto simp: idem_purge_def held_def)
qed

fun leaves_all :: "string \<Rightarrow> seconds \<Rightarrow> (seconds \<times> idem_op) list \<Rightarrow> idem_store \<Rightarrow> bool" where
  "leaves_all key deadline [] s \<longleftrightarrow> True"
| "leaves_all key deadline (x # xs) s \<longleftrightarrow>
     leaves_claim key deadline s x \<and> leaves_all key deadline xs (idem_step x s)"

lemma fold_keeps_held:
  "idem_ok s \<Longrightarrow> held key deadline s \<Longrightarrow> leaves_all key deadline xs s \<Longrightarrow>
   held key deadline (fold idem_step xs s)"
  by (induction xs arbitrary: s) (auto simp: idem_step_ok idem_step_keeps_held)

subsection \<open>Properties\<close>

text \<open>
  C13: a claim is decided by the unexpired records alone. In every store the operations can build, claiming a key
  succeeds exactly when the key has no unexpired record and the unexpired records leave room; success adds the
  new record to what is active and nothing else, a refusal changes nothing, and an
  overflow loses no active record. The store never exceeds its capacity.
\<close>

theorem idem_claim_exact:
  assumes "new_idem_store d p m = Inr s0" and "s = fold idem_step xs s0"
    and "key \<noteq> []" and "ttl_ok = (case ttl of None \<Rightarrow> p | Some t \<Rightarrow> t)" and "0 < ttl_ok"
  shows "(case active s now key of
      Some r \<Rightarrow> idem_claim key ttl md now s = (Inr False, s)
    | None \<Rightarrow>
        (if m \<le> int (card (dom (active s now)))
         then fst (idem_claim key ttl md now s) = raise OverflowError
              \<and> active (snd (idem_claim key ttl md now s)) now = active s now
         else fst (idem_claim key ttl md now s) = Inr True
              \<and> active (snd (idem_claim key ttl md now s)) now = (active s now)(key \<mapsto>
                  \<lparr>ir_key = key, ir_status = IS_PROCESSING, ir_acquired_at = now, ir_expires_at = now + ttl_ok,
                   ir_completed_at = None, ir_metadata = (case md of None \<Rightarrow> [] | Some x \<Rightarrow> x)\<rparr>)))
    \<and> int (length (im_records s)) \<le> m"
proof -
  have ok: "idem_ok s" using fold_idem_step_ok [OF new_idem_store_ok [OF assms(1)]] assms(2) by simp
  from assms(1) have "im_processing_ttl s0 = p" "im_max_entries s0 = m"
    by (auto simp: new_idem_store_def split: if_splits)
  then have frame: "im_processing_ttl s = p" "im_max_entries s = m"
    using fold_idem_step_frame [of xs s0] assms(2) by simp_all
  then have dict: "dict_ok (im_records s)" and cap: "int (length (im_records s)) \<le> m"
    using ok by (simp_all add: idem_ok_def)
  have ttl: "0 < (case ttl of None \<Rightarrow> im_processing_ttl s | Some t \<Rightarrow> t)" unfolding frame(1) using assms(4,5) by simp
  have ttl_eq: "(case ttl of None \<Rightarrow> im_processing_ttl s | Some t \<Rightarrow> t) = ttl_ok"
    unfolding frame(1) assms(4) ..
  show ?thesis
  proof (cases "active s now key")
    case (Some r)
    with idem_claim_taken [OF Some assms(3) ttl] cap show ?thesis by simp
  next
    case None
    have "active (drop_expired now s) now = active s now" using dict by simp
    moreover have "dict_ok (im_records (drop_expired now s))"
      using drop_expired_ok [OF ok] by (simp add: idem_ok_def)
    ultimately show ?thesis
      using None cap assms(5)
      unfolding idem_claim_free [OF ok assms(3) ttl None] active_count_card [OF dict] ttl_eq frame(2)
      by (simp add: active_set expired_def)
  qed
qed

definition sample_store :: idem_store where
  "sample_store = \<lparr>im_default_ttl = 100, im_processing_ttl = 10, im_max_entries = 1, im_records = []\<rparr>"

lemma sample_store_new: "new_idem_store 100 10 1 = Inr sample_store"
  by (simp add: new_idem_store_def sample_store_def)

theorem idem_claim_exact_witness:
  "fst (idem_claim ''a'' None None 11 (fold idem_step [(0, IO_claim ''a'' None None)] sample_store)) = Inr True
   \<and> idem_claim ''a'' None None 9 (fold idem_step [(0, IO_claim ''a'' None None)] sample_store)
     = (Inr False, fold idem_step [(0, IO_claim ''a'' None None)] sample_store)"
proof -
  let ?s = "fold idem_step [(0, IO_claim ''a'' None None)] sample_store"
  have a: "active ?s 11 ''a'' = None" "dom (active ?s 11) = {}" "active ?s 9 ''a'' \<noteq> None"
    by (auto simp: idem_claim_def make_capacity_def drop_expired_def sample_store_def active_def expired_def
        split: if_splits)
  have "10 = (case (None :: rat option) of None \<Rightarrow> 10 | Some t \<Rightarrow> t)" by simp
  note exact = idem_claim_exact [OF sample_store_new refl _ this, of "''a''"]
  from exact [of "[(0, IO_claim ''a'' None None)]" 11 None] a(1,2)
  have "fst (idem_claim ''a'' None None 11 ?s) = Inr True" by (simp del: fold_simps)
  moreover from exact [of "[(0, IO_claim ''a'' None None)]" 9 None] a(3)
  have "idem_claim ''a'' None None 9 ?s = (Inr False, ?s)" by (auto simp del: fold_simps)
  ultimately show ?thesis by blast
qed

text \<open>
  A claim is exclusive until it expires. After a successful claim of a key, no later claim of
  the key succeeds before the deadline, whatever operations run in between (failing ones, other
  keys, purges), as long as the key is not released and no completion of it sets an expiry before the deadline.
\<close>

theorem idem_claim_exclusive:
  assumes "idem_ok s" and "idem_claim key ttl md t0 s = (Inr True, s1)"
    and "deadline \<le> t0 + (case ttl of None \<Rightarrow> im_processing_ttl s | Some t \<Rightarrow> t)"
    and "leaves_all key deadline xs s1" and "now < deadline"
    and "key \<noteq> []" and "0 < (case ttl' of None \<Rightarrow> im_processing_ttl s | Some t \<Rightarrow> t)"
  shows "idem_claim key ttl' md' now (fold idem_step xs s1) = (Inr False, fold idem_step xs s1)"
proof -
  let ?s = "fold idem_step xs s1"
  from assms(2) have pos: "0 < (case ttl of None \<Rightarrow> im_processing_ttl s | Some t \<Rightarrow> t)"
    and free: "active s t0 key = None"
    by (auto simp: idem_claim_def Let_def active_def split: if_splits option.splits)
  have s1: "idem_ok s1" using idem_claim_ok [OF assms(1), of key ttl md t0] assms(2) by simp
  have "held key deadline s1"
    using assms(2,3) unfolding idem_claim_free [OF assms(1,6) pos free]
    by (auto simp: held_def split: if_splits)
  from fold_keeps_held [OF s1 this assms(4)] obtain r
    where "dict_get (im_records ?s) key = Some r" "deadline \<le> ir_expires_at r"
    by (auto simp: held_def)
  with assms(5) have act: "active ?s now key = Some r" by (auto simp: active_def expired_def)
  have "s1 = idem_step (t0, IO_claim key ttl md) s" using assms(2) by simp
  then have "im_processing_ttl ?s = im_processing_ttl s"
    using fold_idem_step_frame [of xs s1] idem_step_frame [of "(t0, IO_claim key ttl md)" s] by simp
  then have "0 < (case ttl' of None \<Rightarrow> im_processing_ttl ?s | Some t \<Rightarrow> t)"
    using assms(7) by (simp split: option.splits)
  from idem_claim_taken [OF act assms(6) this] show ?thesis .
qed

theorem idem_claim_exclusive_witness:
  "let s1 = snd (idem_claim ''a'' None None 0 sample_store);
       s2 = fold idem_step [(1, IO_release ''b''), (2, IO_complete ''a'' None), (3, IO_purge)] s1
   in idem_claim ''a'' None None 9 s2 = (Inr False, s2)"
proof -
  let ?s1 = "snd (idem_claim ''a'' None None 0 sample_store)"
  have claim: "idem_claim ''a'' None None 0 sample_store = (Inr True, ?s1)"
    by (simp add: idem_claim_def make_capacity_def drop_expired_def sample_store_def)
  have "im_default_ttl (idem_step (1, IO_release ''b'') ?s1) = 100"
    by (simp add: idem_claim_def make_capacity_def drop_expired_def sample_store_def idem_release_def)
  then have "leaves_all ''a'' 10 [(1, IO_release ''b''), (2, IO_complete ''a'' None), (3, IO_purge)] ?s1"
    by simp
  from idem_claim_exclusive [OF new_idem_store_ok [OF sample_store_new] claim _ this]
  show ?thesis by (simp add: sample_store_def Let_def del: fold_simps)
qed

text \<open>
  Nothing ties a release to the claim it belongs to: a worker whose claim expired releases the
  claim of the worker that took over, and a third worker claims the key while the second still holds it.
\<close>

lemma late_release_frees_successor:
  "let s = sample_store; s1 = snd (idem_claim ''a'' None None 0 s);
       (second, s2) = idem_claim ''a'' None None 11 s1; (released, s3) = idem_release ''a'' s2
   in second = Inr True \<and> released \<and> fst (idem_claim ''a'' None None 13 s3) = Inr True"
  by (simp add: idem_claim_def make_capacity_def drop_expired_def sample_store_def expired_def
      idem_release_def Let_def)

end
