(* ===== verification/Outbox.thy ===== *)
theory Outbox
  imports Backoff
begin

text \<open>
  \<open>broka/reliability/outbox.py\<close>: the transactional outbox. \<open>MemoryOutboxStore\<close> runs every
  operation under its lock, so one operation is one atomic step; the dispatcher calls a store
  through the operations of the \<open>OutboxStore\<close> protocol, here a record of actions on a world \<open>'w\<close>. A
  lease identifier is a fresh UUID in the code and a counter value here. Message metadata is left out.
\<close>

datatype outbox_status = OS_PENDING | OS_LEASED | OS_PUBLISHED | OS_FAILED | OS_DEAD_LETTERED

record 'e outbox_message =
  ob_envelope :: 'e
  ob_destination :: string
  ob_id :: string
  ob_status :: outbox_status
  ob_created_at :: instant
  ob_available_at :: instant
  ob_attempts :: int
  ob_last_error :: "string option"
  ob_lease_id :: "nat option"
  ob_leased_until :: "instant option"
  ob_published_at :: "instant option"

definition new_outbox_message ::
  "'e \<Rightarrow> string \<Rightarrow> string \<Rightarrow> datetime \<Rightarrow> datetime \<Rightarrow> int \<Rightarrow> 'e outbox_message result"
where
  "new_outbox_message envelope destination mid created_at available_at attempts =
     (if mid = [] then raise ValueError
      else if destination = [] then raise ValueError
      else if attempts < 0 then raise ValueError
      else if \<not> is_aware created_at \<or> \<not> is_aware available_at then raise ValueError
      else Inr \<lparr>ob_envelope = envelope, ob_destination = destination, ob_id = mid,
                ob_status = OS_PENDING, ob_created_at = utc_micros created_at,
                ob_available_at = utc_micros available_at, ob_attempts = attempts,
                ob_last_error = None, ob_lease_id = None, ob_leased_until = None,
                ob_published_at = None\<rparr>)"

record 'e outbox =
  ox_max_entries :: int
  ox_messages :: "(string, 'e outbox_message) dict"
  ox_next_lease :: nat

definition new_outbox :: "int \<Rightarrow> 'e outbox result" where
  "new_outbox max_entries =
     (if max_entries < 1 then raise ValueError
      else Inr \<lparr>ox_max_entries = max_entries, ox_messages = [], ox_next_lease = 0\<rparr>)"

definition outbox_add :: "'e outbox_message \<Rightarrow> 'e outbox \<Rightarrow> unit result \<times> 'e outbox" where
  "outbox_add message s =
     (if dict_has (ox_messages s) (ob_id message) then (raise ValueError, s)
      else if ox_max_entries s \<le> int (length (ox_messages s)) then (raise OverflowError, s)
      else (Inr (), s\<lparr>ox_messages := dict_set (ob_id message) message (ox_messages s)\<rparr>))"

definition outbox_get :: "string \<Rightarrow> 'e outbox \<Rightarrow> 'e outbox_message option" where
  "outbox_get mid s = dict_get (ox_messages s) mid"

text \<open>Leases that have expired become failures, so that another dispatcher can take the message.\<close>

definition recover :: "instant \<Rightarrow> 'e outbox_message \<Rightarrow> 'e outbox_message" where
  "recover now message =
     (if ob_status message = OS_LEASED
         \<and> (\<exists>until \<in> set_option (ob_leased_until message). until \<le> now)
      then message\<lparr>ob_status := OS_FAILED, ob_lease_id := None, ob_leased_until := None\<rparr>
      else message)"

definition lease_rank :: "'e outbox_message \<Rightarrow> instant \<times> instant \<times> string" where
  "lease_rank message = (ob_available_at message, ob_created_at message, ob_id message)"

definition leasable :: "instant \<Rightarrow> 'e outbox_message \<Rightarrow> bool" where
  "leasable now message \<longleftrightarrow>
     (ob_status message = OS_PENDING \<or> ob_status message = OS_FAILED) \<and> ob_available_at message \<le> now"

definition lease_one :: "instant \<Rightarrow> instant \<Rightarrow> nat \<Rightarrow> 'e outbox_message \<Rightarrow> 'e outbox_message" where
  "lease_one now until lease message =
     message\<lparr>ob_status := OS_LEASED, ob_lease_id := Some lease, ob_leased_until := Some until,
             ob_attempts := ob_attempts message + 1\<rparr>"

fun lease_all ::
  "instant \<Rightarrow> instant \<Rightarrow> 'e outbox_message list \<Rightarrow> 'e outbox \<Rightarrow> 'e outbox_message list \<times> 'e outbox"
where
  "lease_all now until [] s = ([], s)"
| "lease_all now until (message # messages) s =
     (let updated = lease_one now until (ox_next_lease s) message;
          s' = s\<lparr>ox_messages := dict_set (ob_id message) updated (ox_messages s),
                  ox_next_lease := Suc (ox_next_lease s)\<rparr>;
          (rest, s'') = lease_all now until messages s'
      in (updated # rest, s''))"

definition recover_all :: "instant \<Rightarrow> 'e outbox \<Rightarrow> 'e outbox" where
  "recover_all now s = s\<lparr>ox_messages := map (\<lambda>(k, v). (k, recover now v)) (ox_messages s)\<rparr>"

definition candidates :: "instant \<Rightarrow> 'e outbox \<Rightarrow> 'e outbox_message list" where
  "candidates now s = sort_key lease_rank (filter (leasable now) (dict_values (ox_messages s)))"

definition outbox_lease ::
  "int \<Rightarrow> seconds \<Rightarrow> datetime \<Rightarrow> 'e outbox \<Rightarrow> 'e outbox_message list result \<times> 'e outbox"
where
  "outbox_lease limit duration now s =
     (if limit < 1 then (raise ValueError, s)
      else if duration \<le> 0 then (raise ValueError, s)
      else if \<not> is_aware now then (raise ValueError, s)
      else let current = utc_micros now;
               s1 = recover_all current s;
               (leased, s2) = lease_all current (current + micros_of_seconds duration)
                                (take (nat limit) (candidates current s1)) s1
           in (Inr leased, s2))"

definition require_lease :: "string \<Rightarrow> nat \<Rightarrow> 'e outbox \<Rightarrow> 'e outbox_message result" where
  "require_lease mid lease s =
     (case dict_get (ox_messages s) mid of
        None \<Rightarrow> raise KeyError
      | Some message \<Rightarrow>
          if ob_status message \<noteq> OS_LEASED \<or> ob_lease_id message \<noteq> Some lease then raise ValueError
          else Inr message)"

definition outbox_mark_published ::
  "string \<Rightarrow> nat \<Rightarrow> instant \<Rightarrow> 'e outbox \<Rightarrow> unit result \<times> 'e outbox"
where
  "outbox_mark_published mid lease now s =
     (case require_lease mid lease s of
        Inl e \<Rightarrow> (Inl e, s)
      | Inr message \<Rightarrow>
          (Inr (), s\<lparr>ox_messages := dict_set mid
             (message\<lparr>ob_status := OS_PUBLISHED, ob_published_at := Some now, ob_lease_id := None,
                      ob_leased_until := None, ob_last_error := None\<rparr>) (ox_messages s)\<rparr>))"

definition outbox_mark_failed ::
  "string \<Rightarrow> nat \<Rightarrow> string \<Rightarrow> datetime option \<Rightarrow> bool \<Rightarrow> 'e outbox \<Rightarrow> unit result \<times> 'e outbox"
where
  "outbox_mark_failed mid lease error retry_at terminal s =
     (if (\<exists>t \<in> set_option retry_at. \<not> is_aware t) then (raise ValueError, s)
      else case require_lease mid lease s of
        Inl e \<Rightarrow> (Inl e, s)
      | Inr message \<Rightarrow>
          (Inr (), s\<lparr>ox_messages := dict_set mid
             (message\<lparr>ob_status := (if terminal then OS_DEAD_LETTERED else OS_FAILED),
                      ob_available_at := (case retry_at of None \<Rightarrow> ob_available_at message
                                                         | Some t \<Rightarrow> utc_micros t),
                      ob_last_error := Some error, ob_lease_id := None, ob_leased_until := None\<rparr>)
             (ox_messages s)\<rparr>))"

definition outbox_list :: "outbox_status option \<Rightarrow> 'e outbox \<Rightarrow> 'e outbox_message list" where
  "outbox_list status s =
     sort_key (\<lambda>m. (ob_created_at m, ob_id m))
       (filter (\<lambda>m. status = None \<or> Some (ob_status m) = status) (dict_values (ox_messages s)))"

definition outbox_purge :: "datetime \<Rightarrow> 'e outbox \<Rightarrow> nat result \<times> 'e outbox" where
  "outbox_purge before s =
     (if \<not> is_aware before then (raise ValueError, s)
      else let old = (\<lambda>m. ob_status m = OS_PUBLISHED
                 \<and> (\<exists>t \<in> set_option (ob_published_at m). t < utc_micros before));
               ids = map ob_id (filter old (dict_values (ox_messages s)))
           in (Inr (length ids), s\<lparr>ox_messages := fold dict_del ids (ox_messages s)\<rparr>))"

subsection \<open>The dispatcher\<close>

record ('e, 'w) outbox_api =
  oa_lease :: "int \<Rightarrow> seconds \<Rightarrow> 'w \<Rightarrow> 'e outbox_message list result \<times> 'w"
  oa_mark_published :: "string \<Rightarrow> nat \<Rightarrow> 'w action"
  oa_mark_failed :: "string \<Rightarrow> nat \<Rightarrow> string \<Rightarrow> datetime option \<Rightarrow> bool \<Rightarrow> 'w action"

record ('e, 'w) dispatcher =
  di_publish :: "'e outbox_message \<Rightarrow> 'w action"
  di_batch_size :: int
  di_lease_duration :: seconds
  di_max_attempts :: int
  di_backoff :: "'w delay_fn"
  di_idle_delay :: seconds
  di_sleep :: "seconds \<Rightarrow> 'w action"
  di_clock :: "'w \<Rightarrow> instant"
  di_describe :: "pyexc \<Rightarrow> string"

definition validate_dispatcher :: "('e, 'w) dispatcher \<Rightarrow> unit result" where
  "validate_dispatcher d =
     (if di_batch_size d < 1 \<or> di_max_attempts d < 1 then raise ValueError
      else if di_lease_duration d \<le> 0 \<or> di_idle_delay d < 0 then raise ValueError
      else Inr ())"

text \<open>One leased message: publish it, then record what happened.\<close>

definition dispatch_one :: "('e, 'w) outbox_api \<Rightarrow> ('e, 'w) dispatcher \<Rightarrow> 'e outbox_message \<Rightarrow> 'w action" where
  "dispatch_one api d message w =
     (case ob_lease_id message of
        None \<Rightarrow> (raise AssertionError, w)
      | Some lease \<Rightarrow>
          (case di_publish d message w of
             (Inr _, w1) \<Rightarrow> oa_mark_published api (ob_id message) lease w1
           | (Inl e, w1) \<Rightarrow>
               if isinstance e CancelledError
               then (case oa_mark_failed api (ob_id message) lease ''dispatcher cancelled''
                            (Some (Aware (di_clock d w1))) False w1 of
                       (Inl e', w2) \<Rightarrow> (Inl e', w2)
                     | (Inr _, w2) \<Rightarrow> (Inl e, w2))
               else if is_exception e
               then (let terminal = di_max_attempts d \<le> ob_attempts message
                     in case calculate_backoff (di_backoff d) (max 1 (ob_attempts message)) None w1 of
                          (Inl e', w2) \<Rightarrow> (Inl e', w2)
                        | (Inr delay, w2) \<Rightarrow>
                            oa_mark_failed api (ob_id message) lease (di_describe d e)
                              (if terminal then None
                               else Some (Aware (di_clock d w2 + micros_of_seconds delay)))
                              terminal w2)
               else (Inl e, w1)))"

fun dispatch_all :: "('e, 'w) outbox_api \<Rightarrow> ('e, 'w) dispatcher \<Rightarrow> 'e outbox_message list \<Rightarrow> 'w action" where
  "dispatch_all api d [] w = (Inr (), w)"
| "dispatch_all api d (message # messages) w =
     (case dispatch_one api d message w of
        (Inl e, w1) \<Rightarrow> (Inl e, w1)
      | (Inr _, w1) \<Rightarrow> dispatch_all api d messages w1)"

definition dispatch_once :: "('e, 'w) outbox_api \<Rightarrow> ('e, 'w) dispatcher \<Rightarrow> 'w \<Rightarrow> nat result \<times> 'w" where
  "dispatch_once api d w =
     (case oa_lease api (di_batch_size d) (di_lease_duration d) w of
        (Inl e, w1) \<Rightarrow> (Inl e, w1)
      | (Inr messages, w1) \<Rightarrow>
          (case dispatch_all api d messages w1 of
             (Inl e, w2) \<Rightarrow> (Inl e, w2)
           | (Inr _, w2) \<Rightarrow> (Inr (length messages), w2)))"

text \<open>
  \<open>run\<close> loops until the stop event is set; \<open>stopped\<close> reads it. It may run for ever, so it is a
  partial function: None means that it does not return.
\<close>

partial_function (option) outbox_run ::
  "('e, 'w) outbox_api \<Rightarrow> ('e, 'w) dispatcher \<Rightarrow> ('w \<Rightarrow> bool) \<Rightarrow> 'w \<Rightarrow> (unit result \<times> 'w) option"
where
  "outbox_run api d stopped w =
     (if stopped w then Some (Inr (), w)
      else case dispatch_once api d w of
        (Inl e, w1) \<Rightarrow> Some (Inl e, w1)
      | (Inr n, w1) \<Rightarrow>
          (if n = 0
           then (case di_sleep d (di_idle_delay d) w1 of
                   (Inl e, w2) \<Rightarrow> Some (Inl e, w2)
                 | (Inr _, w2) \<Rightarrow> outbox_run api d stopped w2)
           else outbox_run api d stopped w1))"

subsection \<open>The store's invariant\<close>

definition message_ok :: "nat \<Rightarrow> string \<Rightarrow> 'e outbox_message \<Rightarrow> bool" where
  "message_ok bound k m \<longleftrightarrow>
     ob_id m = k
     \<and> (ob_status m = OS_LEASED \<longleftrightarrow> ob_lease_id m \<noteq> None)
     \<and> (ob_status m = OS_LEASED \<longleftrightarrow> ob_leased_until m \<noteq> None)
     \<and> (\<forall>l. ob_lease_id m = Some l \<longrightarrow> l < bound)"

definition outbox_ok :: "'e outbox \<Rightarrow> bool" where
  "outbox_ok s \<longleftrightarrow>
     dict_ok (ox_messages s) \<and> int (length (ox_messages s)) \<le> ox_max_entries s
     \<and> (\<forall>k m. outbox_get k s = Some m \<longrightarrow> message_ok (ox_next_lease s) k m)"

lemma outbox_okD:
  "outbox_ok s \<Longrightarrow> dict_ok (ox_messages s)"
  "outbox_ok s \<Longrightarrow> outbox_get k s = Some m \<Longrightarrow> message_ok (ox_next_lease s) k m"
  by (simp_all add: outbox_ok_def)

lemma new_outbox_ok: "new_outbox n = Inr s \<Longrightarrow> outbox_ok s"
  by (auto simp: new_outbox_def outbox_ok_def outbox_get_def split: if_splits)

lemma recover_id [simp]: "ob_id (recover now m) = ob_id m"
  by (simp add: recover_def)

lemma recover_ok: "message_ok b k m \<Longrightarrow> message_ok b k (recover now m)"
  by (auto simp: message_ok_def recover_def)

lemma message_ok_mono: "message_ok b k m \<Longrightarrow> b \<le> c \<Longrightarrow> message_ok c k m"
  by (auto simp: message_ok_def)

lemma recover_live:
  "ob_leased_until m = Some t \<Longrightarrow> now < t \<Longrightarrow> recover now m = m"
  by (simp add: recover_def)

lemma get_recover_all [simp]:
  "outbox_get k (recover_all now s) = map_option (recover now) (outbox_get k s)"
  by (simp add: outbox_get_def recover_all_def map_of_map)

lemma recover_all_frame [simp]:
  "ox_next_lease (recover_all now s) = ox_next_lease s"
  "ox_max_entries (recover_all now s) = ox_max_entries s"
  "dict_ok (ox_messages (recover_all now s)) = dict_ok (ox_messages s)"
  "length (ox_messages (recover_all now s)) = length (ox_messages s)"
  by (simp_all add: recover_all_def dict_ok_def comp_def split_def)

lemma recover_all_ok [inv_intros]: "outbox_ok s \<Longrightarrow> outbox_ok (recover_all now s)"
  by (auto simp: outbox_ok_def intro: recover_ok)

lemma candidates_stored:
  "dict_ok (ox_messages s) \<Longrightarrow> m \<in> set (candidates now s) \<Longrightarrow> leasable now m \<and> (\<exists>k. outbox_get k s = Some m)"
  by (force simp: candidates_def dict_values_def outbox_get_def dict_get_eq_Some)

lemma stored_ids:
  assumes "outbox_ok s"
  shows "map ob_id (dict_values (ox_messages s)) = dict_keys (ox_messages s)"
proof -
  have "ob_id v = k" if "(k, v) \<in> set (ox_messages s)" for k v
    using assms that by (auto simp: outbox_ok_def outbox_get_def dict_get_eq_Some message_ok_def)
  then show ?thesis by (auto simp: dict_values_def dict_keys_def)
qed

lemma distinct_candidates: "outbox_ok s \<Longrightarrow> distinct (map ob_id (candidates now s))"
proof -
  assume ok: "outbox_ok s"
  have "distinct (map ob_id (dict_values (ox_messages s)))"
    unfolding stored_ids [OF ok] using outbox_okD(1) [OF ok] by (simp add: dict_ok_def dict_keys_def)
  then have "distinct (map ob_id (filter (leasable now) (dict_values (ox_messages s))))"
    by (rule distinct_map_filter)
  then show ?thesis by (simp add: candidates_def distinct_map)
qed

lemma leasable_not_leased: "leasable now m \<Longrightarrow> ob_status m \<noteq> OS_LEASED"
  by (auto simp: leasable_def)

text \<open>Leasing a list of stored messages with different identifiers.\<close>

lemma lease_one_simps [simp]:
  "ob_id (lease_one now until l m) = ob_id m"
  "ob_status (lease_one now until l m) = OS_LEASED"
  "ob_lease_id (lease_one now until l m) = Some l"
  "ob_attempts (lease_one now until l m) = ob_attempts m + 1"
  by (simp_all add: lease_one_def)

lemma lease_all_spec:
  "lease_all now until ms s = (out, s') \<Longrightarrow> distinct (map ob_id ms) \<Longrightarrow>
   out = map (\<lambda>(l, m). lease_one now until l m)
           (zip [ox_next_lease s..<ox_next_lease s + length ms] ms)
   \<and> ox_next_lease s' = ox_next_lease s + length ms \<and> ox_max_entries s' = ox_max_entries s
   \<and> (\<forall>m \<in> set out. outbox_get (ob_id m) s' = Some m)
   \<and> (\<forall>k. k \<notin> ob_id ` set ms \<longrightarrow> outbox_get k s' = outbox_get k s)
   \<and> (dict_ok (ox_messages s) \<longrightarrow> dict_ok (ox_messages s'))
   \<and> ((\<forall>m \<in> set ms. outbox_get (ob_id m) s \<noteq> None) \<longrightarrow> length (ox_messages s') = length (ox_messages s))"
proof (induction ms arbitrary: s out)
  case (Cons m ms)
  let ?u = "lease_one now until (ox_next_lease s) m"
  let ?s = "s\<lparr>ox_messages := dict_set (ob_id m) ?u (ox_messages s), ox_next_lease := Suc (ox_next_lease s)\<rparr>"
  from Cons.prems(1) obtain rest where rest: "lease_all now until ms ?s = (rest, s')"
    and out: "out = ?u # rest" by (auto simp: Let_def split: prod.splits)
  from Cons.prems(2) have fresh: "ob_id m \<notin> ob_id ` set ms" and dist: "distinct (map ob_id ms)" by auto
  note IH = Cons.IH [OF rest dist]
  have get: "outbox_get k ?s = (if k = ob_id m then Some ?u else outbox_get k s)" for k
    by (simp add: outbox_get_def)
  have "[ox_next_lease s..<ox_next_lease s + length (m # ms)]
      = ox_next_lease s # [Suc (ox_next_lease s)..<Suc (ox_next_lease s) + length ms]"
    by (simp add: upt_rec)
  with IH have 1: "out = map (\<lambda>(l, m). lease_one now until l m)
      (zip [ox_next_lease s..<ox_next_lease s + length (m # ms)] (m # ms))"
    by (simp add: out)
  have 2: "\<forall>x \<in> set out. outbox_get (ob_id x) s' = Some x"
    using IH fresh get by (simp add: out)
  have 3: "\<forall>k. k \<notin> ob_id ` set (m # ms) \<longrightarrow> outbox_get k s' = outbox_get k s"
    using IH get by (simp add: out)
  have 4: "(\<forall>x \<in> set (m # ms). outbox_get (ob_id x) s \<noteq> None) \<longrightarrow>
      length (ox_messages s') = length (ox_messages s)"
    using IH get by (simp add: out length_dict_set dict_has_def outbox_get_def)
  show ?case
    using IH 1 2 3 4 by (auto simp: out intro: dict_ok_set)
qed (simp add: Let_def)

text \<open>Everything there is to know about a successful lease.\<close>

lemma outbox_lease_spec:
  assumes ok: "outbox_ok s" and valid: "1 \<le> limit" "0 < duration"
  shows "\<exists>rs s'. outbox_lease limit duration (Aware now) s = (Inr rs, s')
    \<and> map ob_id rs = map ob_id (take (nat limit) (candidates now (recover_all now s)))
    \<and> distinct (map ob_id rs)
    \<and> (\<forall>m \<in> set rs. outbox_get (ob_id m) s' = Some m
         \<and> (\<exists>old l. outbox_get (ob_id m) s = Some old \<and> leasable now (recover now old)
              \<and> m = lease_one now (now + micros_of_seconds duration) l (recover now old)
              \<and> ox_next_lease s \<le> l \<and> l < ox_next_lease s'))
    \<and> (\<forall>k. k \<notin> ob_id ` set rs \<longrightarrow> outbox_get k s' = map_option (recover now) (outbox_get k s))
    \<and> outbox_ok s' \<and> ox_next_lease s \<le> ox_next_lease s' \<and> ox_max_entries s' = ox_max_entries s"
proof -
  let ?r = "recover_all now s" and ?until = "now + micros_of_seconds duration"
  let ?ms = "take (nat limit) (candidates now ?r)"
  obtain rs s' where run: "lease_all now ?until ?ms ?r = (rs, s')" by (rule prod.exhaust)
  have okr: "outbox_ok ?r" using ok by (rule inv_intros)
  have dist: "distinct (map ob_id ?ms)"
    using distinct_candidates [OF okr, of now] by (simp add: distinct_map take_map [symmetric])
  note spec = lease_all_spec [OF run dist]
  then have got: "\<forall>m \<in> set rs. outbox_get (ob_id m) s' = Some m" by (elim conjE)
  have stored: "\<exists>old. outbox_get (ob_id m) s = Some old \<and> m = recover now old \<and> leasable now m"
    if "m \<in> set ?ms" for m
  proof -
    from that have "m \<in> set (candidates now ?r)" by (rule in_set_takeD)
    from candidates_stored [OF outbox_okD(1) [OF okr] this] obtain k
      where l: "leasable now m" and k: "outbox_get k ?r = Some m" by blast
    with outbox_okD(2) [OF okr k] show ?thesis by (auto simp: message_ok_def)
  qed
  have ids: "map ob_id rs = map ob_id ?ms"
  proof -
    have "map ob_id (map (\<lambda>(l, m). lease_one now ?until l m) (zip ls ms)) = map ob_id ms"
      if "length ls = length ms" for ls and ms :: "'a outbox_message list"
      using that by (induction ls ms rule: list_induct2) auto
    then show ?thesis using spec by simp
  qed
  have leased: "\<exists>old l. outbox_get (ob_id m) s = Some old \<and> leasable now (recover now old)
      \<and> m = lease_one now ?until l (recover now old) \<and> ox_next_lease s \<le> l \<and> l < ox_next_lease s'"
    if "m \<in> set rs" for m
  proof -
    from that spec obtain l x where lx: "(l, x) \<in> set (zip [ox_next_lease s..<ox_next_lease s + length ?ms] ?ms)"
      and m: "m = lease_one now ?until l x" by auto
    then have "x \<in> set ?ms" and l: "ox_next_lease s \<le> l" "l < ox_next_lease s + length ?ms"
      using set_zip_leftD set_zip_rightD by fastforce+
    with stored [OF this(1)] m spec show ?thesis by auto
  qed
  have rest: "outbox_get k s' = map_option (recover now) (outbox_get k s)" if "k \<notin> ob_id ` set rs" for k
  proof -
    have "k \<notin> ob_id ` set ?ms" using that ids by (metis set_map)
    with spec show ?thesis by simp
  qed
  have le: "ox_next_lease s \<le> ox_next_lease s'" using spec by simp
  have "message_ok (ox_next_lease s') k m" if get: "outbox_get k s' = Some m" for k m
  proof (cases "k \<in> ob_id ` set rs")
    case True
    then obtain x where x: "x \<in> set rs" "k = ob_id x" by (rule imageE)
    with got get have "m \<in> set rs" "ob_id m = k" by auto
    with leased [of m] show ?thesis by (auto simp: message_ok_def lease_one_def)
  next
    case False
    from rest [OF False] get have "map_option (recover now) (outbox_get k s) = Some m" by simp
    then obtain old where "outbox_get k s = Some old" "m = recover now old"
      by (auto simp: map_option_eq_Some)
    with outbox_okD(2) [OF ok] recover_ok message_ok_mono [OF _ le] show ?thesis by blast
  qed
  moreover have "length (ox_messages s') = length (ox_messages s)"
    using spec stored by fastforce
  ultimately have "outbox_ok s'"
    using spec okr by (simp add: outbox_ok_def)
  moreover have "outbox_lease limit duration (Aware now) s = (Inr rs, s')"
    using valid run by (simp add: outbox_lease_def Let_def)
  ultimately show ?thesis
    using ids dist spec leased rest le by (intro exI [of _ rs] exI [of _ s']) auto
qed

lemma outbox_lease_error:
  "fst (outbox_lease limit duration now s) = Inl e \<Longrightarrow> snd (outbox_lease limit duration now s) = s"
  by (auto simp: outbox_lease_def Let_def split: if_splits prod.splits)

lemma outbox_lease_cases:
  "(limit < 1 \<or> duration \<le> 0 \<or> \<not> is_aware now) \<and> outbox_lease limit duration now s = (raise ValueError, s)
   \<or> 1 \<le> limit \<and> 0 < duration \<and> (\<exists>t. now = Aware t)"
  by (cases now) (auto simp: outbox_lease_def)

lemma require_lease_Inr:
  "require_lease mid lease s = Inr m \<longleftrightarrow>
   outbox_get mid s = Some m \<and> ob_status m = OS_LEASED \<and> ob_lease_id m = Some lease"
  by (auto simp: require_lease_def outbox_get_def split: option.splits if_splits)

lemma outbox_get_set [simp]:
  "outbox_get k (s\<lparr>ox_messages := dict_set mid m (ox_messages s)\<rparr>) = (if k = mid then Some m else outbox_get k s)"
  by (simp add: outbox_get_def)

lemma replace_message_ok [inv_intros]:
  "outbox_ok s \<Longrightarrow> outbox_get mid s \<noteq> None \<Longrightarrow> message_ok (ox_next_lease s) mid m \<Longrightarrow>
   outbox_ok (s\<lparr>ox_messages := dict_set mid m (ox_messages s)\<rparr>)"
  by (auto simp: outbox_ok_def length_dict_set dict_has_def outbox_get_def intro: dict_ok_set)

lemma mark_published_ok [inv_intros]:
  "outbox_ok s \<Longrightarrow> outbox_ok (snd (outbox_mark_published mid lease now s))"
  by (auto simp: outbox_mark_published_def require_lease_Inr message_ok_def intro!: replace_message_ok
        split: sum.splits dest: outbox_okD)

lemma mark_failed_ok [inv_intros]:
  "outbox_ok s \<Longrightarrow> outbox_ok (snd (outbox_mark_failed mid lease error retry_at terminal s))"
  by (auto simp: outbox_mark_failed_def require_lease_Inr message_ok_def intro!: replace_message_ok
        split: sum.splits dest: outbox_okD)

text \<open>Messages enter the store unleased.\<close>

definition unleased :: "'e outbox_message \<Rightarrow> bool" where
  "unleased m \<longleftrightarrow> ob_status m \<noteq> OS_LEASED \<and> ob_lease_id m = None \<and> ob_leased_until m = None"

lemma unleased_ok: "unleased m \<Longrightarrow> message_ok bound (ob_id m) m"
  by (simp add: unleased_def message_ok_def)

lemma outbox_add_ok [inv_intros]: "outbox_ok s \<Longrightarrow> unleased m \<Longrightarrow> outbox_ok (snd (outbox_add m s))"
  using unleased_ok [of m "ox_next_lease s"]
  by (auto simp: outbox_add_def outbox_ok_def length_dict_set intro: dict_ok_set)

lemma dict_get_fold_del:
  "dict_get (fold dict_del ks d) k = (if k \<in> set ks then None else dict_get d k)"
  by (induction ks arbitrary: d) auto

lemma fold_del_ok: "dict_ok d \<Longrightarrow> dict_ok (fold dict_del ks d) \<and> length (fold dict_del ks d) \<le> length d"
proof (induction ks arbitrary: d)
  case (Cons k ks)
  from Cons.IH [OF dict_ok_del [OF Cons.prems], of k] length_dict_del_le [of k d] show ?case by auto
qed simp

lemma purge_ok [inv_intros]: "outbox_ok s \<Longrightarrow> outbox_ok (snd (outbox_purge before s))"
  using fold_del_ok [of "ox_messages s"]
  by (auto simp: outbox_purge_def outbox_ok_def outbox_get_def dict_get_fold_del Let_def
        intro: order.trans [OF of_nat_mono])

lemma lease_ok [inv_intros]:
  assumes "outbox_ok s"
  shows "outbox_ok (snd (outbox_lease limit duration now s))"
  using outbox_lease_cases [of limit duration now s]
proof (elim disjE conjE exE)
  fix t
  assume "1 \<le> limit" "0 < duration" "now = Aware t"
  with outbox_lease_spec [OF assms this(1,2), of t] show ?thesis by auto
qed (use assms in simp_all)

datatype 'e outbox_op =
    OO_add "'e outbox_message"
  | OO_lease int seconds datetime
  | OO_published string nat instant
  | OO_failed string nat string "datetime option" bool
  | OO_purge datetime

fun outbox_step :: "'e outbox_op \<Rightarrow> 'e outbox \<Rightarrow> 'e outbox" where
  "outbox_step (OO_add m) s = snd (outbox_add m s)"
| "outbox_step (OO_lease limit duration now) s = snd (outbox_lease limit duration now s)"
| "outbox_step (OO_published mid lease now) s = snd (outbox_mark_published mid lease now s)"
| "outbox_step (OO_failed mid lease error retry_at terminal) s =
     snd (outbox_mark_failed mid lease error retry_at terminal s)"
| "outbox_step (OO_purge before) s = snd (outbox_purge before s)"

definition adds_unleased :: "'e outbox_op \<Rightarrow> bool" where
  "adds_unleased x \<longleftrightarrow> (case x of OO_add m \<Rightarrow> unleased m | _ \<Rightarrow> True)"

lemma outbox_step_ok: "outbox_ok s \<Longrightarrow> adds_unleased x \<Longrightarrow> outbox_ok (outbox_step x s)"
  by (cases x) (auto simp: adds_unleased_def intro: inv_intros)

lemma fold_outbox_step_ok:
  "outbox_ok s \<Longrightarrow> \<forall>x \<in> set xs. adds_unleased x \<Longrightarrow> outbox_ok (fold outbox_step xs s)"
  by (induction xs arbitrary: s) (simp_all add: outbox_step_ok)

text \<open>A lease that its message no longer carries is lost for ever.\<close>

definition lost :: "string \<Rightarrow> nat \<Rightarrow> 'e outbox \<Rightarrow> bool" where
  "lost mid lease s \<longleftrightarrow> lease < ox_next_lease s
     \<and> (\<forall>m. outbox_get mid s = Some m \<longrightarrow> ob_lease_id m \<noteq> Some lease)"

lemma lease_lost:
  assumes ok: "outbox_ok s" and "lost mid lease s"
  shows "lost mid lease (snd (outbox_lease limit duration now s))"
  using outbox_lease_cases [of limit duration now s]
proof (elim disjE conjE exE)
  fix t
  assume "1 \<le> limit" "0 < duration" and now: "now = Aware t"
  from outbox_lease_spec [OF ok this(1,2), of t] obtain rs s'
    where run: "outbox_lease limit duration (Aware t) s = (Inr rs, s')"
      and leased: "\<forall>m \<in> set rs. outbox_get (ob_id m) s' = Some m
         \<and> (\<exists>old l. outbox_get (ob_id m) s = Some old \<and> leasable t (recover t old)
              \<and> m = lease_one t (t + micros_of_seconds duration) l (recover t old)
              \<and> ox_next_lease s \<le> l \<and> l < ox_next_lease s')"
      and rest: "\<forall>k. k \<notin> ob_id ` set rs \<longrightarrow> outbox_get k s' = map_option (recover t) (outbox_get k s)"
      and le: "ox_next_lease s \<le> ox_next_lease s'"
    by (elim exE conjE)
  have "ob_lease_id m \<noteq> Some lease" if get: "outbox_get mid s' = Some m" for m
  proof (cases "mid \<in> ob_id ` set rs")
    case True
    then obtain x where x: "x \<in> set rs" "mid = ob_id x" by (rule imageE)
    with leased get obtain l where "m = x" "ob_lease_id x = Some l" "ox_next_lease s \<le> l" by fastforce
    with assms(2) show ?thesis by (auto simp: lost_def)
  next
    case False
    with rest get have "map_option (recover t) (outbox_get mid s) = Some m" by simp
    then obtain old where "outbox_get mid s = Some old" "m = recover t old" by (auto simp: map_option_eq_Some)
    with assms(2) show ?thesis by (auto simp: lost_def recover_def)
  qed
  with assms(2) le run now show ?thesis by (auto simp: lost_def)
qed (use assms(2) in simp_all)

lemma mark_frame:
  "ox_next_lease (snd (outbox_mark_published mid lease now s)) = ox_next_lease s"
  "ox_next_lease (snd (outbox_mark_failed mid lease error retry_at terminal s)) = ox_next_lease s"
  by (auto simp: outbox_mark_published_def outbox_mark_failed_def split: sum.splits)

lemma outbox_step_lost:
  assumes "outbox_ok s" and "adds_unleased x" and "lost mid lease s"
  shows "lost mid lease (outbox_step x s)"
proof (cases x)
  case (OO_add m)
  with assms show ?thesis
    by (auto simp: lost_def outbox_add_def adds_unleased_def unleased_def)
next
  case (OO_lease limit duration now)
  with lease_lost [OF assms(1,3)] show ?thesis by simp
next
  case (OO_published k l now)
  with assms(3) show ?thesis
    by (auto simp: lost_def outbox_mark_published_def split: sum.splits)
next
  case (OO_failed k l error retry_at terminal)
  with assms(3) show ?thesis
    by (auto simp: lost_def outbox_mark_failed_def split: sum.splits)
next
  case (OO_purge before)
  with assms(3) show ?thesis
    by (auto simp: lost_def outbox_purge_def Let_def outbox_get_def dict_get_fold_del split: if_splits)
qed

lemma fold_outbox_step_lost:
  "outbox_ok s \<Longrightarrow> \<forall>x \<in> set xs. adds_unleased x \<Longrightarrow> lost mid lease s \<Longrightarrow> lost mid lease (fold outbox_step xs s)"
  by (induction xs arbitrary: s) (simp_all add: outbox_step_ok outbox_step_lost)

lemma lost_rejected:
  assumes "lost mid lease s"
  shows "\<exists>e. outbox_mark_published mid lease now s = (Inl e, s)"
    and "\<exists>e. outbox_mark_failed mid lease error retry_at terminal s = (Inl e, s)"
proof -
  have "require_lease mid lease s \<noteq> Inr m" for m
    using assms by (auto simp: require_lease_Inr lost_def)
  then obtain e where "require_lease mid lease s = Inl e" by (cases "require_lease mid lease s") auto
  then show "\<exists>e. outbox_mark_published mid lease now s = (Inl e, s)"
    and "\<exists>e. outbox_mark_failed mid lease error retry_at terminal s = (Inl e, s)"
    by (auto simp: outbox_mark_published_def outbox_mark_failed_def)
qed

subsection \<open>How messages evolve\<close>

definition evolves :: "'e outbox_message \<Rightarrow> 'e outbox_message \<Rightarrow> bool" where
  "evolves m m' \<longleftrightarrow>
     ob_envelope m' = ob_envelope m \<and> ob_destination m' = ob_destination m \<and> ob_id m' = ob_id m
     \<and> ob_created_at m' = ob_created_at m \<and> ob_attempts m \<le> ob_attempts m'
     \<and> (ob_status m \<in> {OS_PUBLISHED, OS_DEAD_LETTERED} \<longrightarrow> m' = m)"

lemma evolves_refl [simp]: "evolves m m"
  by (simp add: evolves_def)

lemma evolves_trans: "evolves a b \<Longrightarrow> evolves b c \<Longrightarrow> evolves a c"
  by (auto simp: evolves_def)

lemma evolves_recover: "evolves m (recover now m)"
  by (auto simp: evolves_def recover_def)

lemma evolves_lease:
  "leasable now m \<Longrightarrow> evolves m (lease_one now until l m)"
  by (auto simp: evolves_def lease_one_def leasable_def)

lemma outbox_step_evolves:
  assumes ok: "outbox_ok s" and get: "outbox_get k s = Some m"
  shows "(\<exists>m'. outbox_get k (outbox_step x s) = Some m' \<and> evolves m m')
    \<or> (\<exists>before. x = OO_purge before \<and> ob_status m = OS_PUBLISHED)"
proof (cases x)
  case (OO_add m0)
  with get show ?thesis by (auto simp: outbox_add_def dict_has_def outbox_get_def)
next
  case (OO_lease limit duration now)
  from outbox_lease_cases [of limit duration now s] show ?thesis
  proof (elim disjE conjE exE)
    fix t
    assume "1 \<le> limit" "0 < duration" and now: "now = Aware t"
    from outbox_lease_spec [OF ok this(1,2), of t] obtain rs s'
      where run: "outbox_lease limit duration (Aware t) s = (Inr rs, s')"
        and leased: "\<forall>m \<in> set rs. outbox_get (ob_id m) s' = Some m
           \<and> (\<exists>old l. outbox_get (ob_id m) s = Some old \<and> leasable t (recover t old)
                \<and> m = lease_one t (t + micros_of_seconds duration) l (recover t old)
                \<and> ox_next_lease s \<le> l \<and> l < ox_next_lease s')"
        and rest: "\<forall>k. k \<notin> ob_id ` set rs \<longrightarrow> outbox_get k s' = map_option (recover t) (outbox_get k s)"
      by (elim exE conjE)
    have "\<exists>m'. outbox_get k s' = Some m' \<and> evolves m m'"
    proof (cases "k \<in> ob_id ` set rs")
      case True
      then obtain y where y: "y \<in> set rs" "k = ob_id y" by (rule imageE)
      with leased get obtain l where "outbox_get k s' = Some y" "leasable t (recover t m)"
        "y = lease_one t (t + micros_of_seconds duration) l (recover t m)" by fastforce
      with evolves_trans [OF evolves_recover evolves_lease] show ?thesis by blast
    next
      case False
      with rest get evolves_recover show ?thesis by auto
    qed
    with OO_lease run now show ?thesis by simp
  qed (use OO_lease get in simp_all)
next
  case (OO_published mid lease now)
  with get show ?thesis
    by (auto simp: outbox_mark_published_def require_lease_Inr evolves_def split: sum.splits)
next
  case (OO_failed mid lease error retry_at terminal)
  with get show ?thesis
    by (auto simp: outbox_mark_failed_def require_lease_Inr evolves_def split: sum.splits)
next
  case (OO_purge before)
  show ?thesis
  proof (cases "ob_status m = OS_PUBLISHED")
    case False
    let ?old = "\<lambda>m. ob_status m = OS_PUBLISHED
                 \<and> (\<exists>t \<in> set_option (ob_published_at m). t < utc_micros before)"
    have "k \<notin> ob_id ` set (filter ?old (dict_values (ox_messages s)))"
    proof
      assume "k \<in> ob_id ` set (filter ?old (dict_values (ox_messages s)))"
      then obtain y k' where y: "(k', y) \<in> set (ox_messages s)" "k = ob_id y" "?old y"
        by (auto simp: dict_values_def)
      then have "outbox_get k' s = Some y"
        using outbox_okD(1) [OF ok] by (simp add: outbox_get_def dict_get_eq_Some)
      with outbox_okD(2) [OF ok] y(2) have "outbox_get k s = Some y" by (auto simp: message_ok_def)
      with get y(3) False show False by simp
    qed
    with OO_purge get show ?thesis
      by (auto simp: outbox_purge_def Let_def outbox_get_def dict_get_fold_del)
  qed (use OO_purge in simp)
qed

lemma fold_outbox_evolves:
  "outbox_ok s \<Longrightarrow> \<forall>x \<in> set xs. adds_unleased x \<Longrightarrow> outbox_get k s = Some m \<Longrightarrow>
   (\<exists>m'. outbox_get k (fold outbox_step xs s) = Some m' \<and> evolves m m')
   \<or> (\<exists>ys before zs mp. xs = ys @ OO_purge before # zs
        \<and> outbox_get k (fold outbox_step ys s) = Some mp \<and> evolves m mp \<and> ob_status mp = OS_PUBLISHED)"
proof (induction xs arbitrary: s m)
  case (Cons x xs)
  from outbox_step_evolves [OF Cons.prems(1,3), of x] show ?case
  proof (elim disjE exE conjE)
    fix m1
    assume m1: "outbox_get k (outbox_step x s) = Some m1" "evolves m m1"
    have ok: "outbox_ok (outbox_step x s)" using Cons.prems by (simp add: outbox_step_ok)
    have "\<forall>y \<in> set xs. adds_unleased y" using Cons.prems(2) by simp
    from Cons.IH [OF ok this m1(1)] show ?case
    proof (elim disjE exE conjE)
      fix ys before zs mp
      assume "xs = ys @ OO_purge before # zs" "outbox_get k (fold outbox_step ys (outbox_step x s)) = Some mp"
        "evolves m1 mp" "ob_status mp = OS_PUBLISHED"
      with evolves_trans [OF m1(2)] show ?case
        by (intro disjI2 exI [of _ "x # ys"] exI [of _ before] exI [of _ zs] exI [of _ mp]) simp
    qed (use evolves_trans [OF m1(2)] in auto)
  next
    fix before
    assume "x = OO_purge before" "ob_status m = OS_PUBLISHED"
    with Cons.prems(3) show ?case
      by (intro disjI2 exI [of _ "[]"] exI [of _ before] exI [of _ xs] exI [of _ m]) simp
  qed
qed simp

subsection \<open>The store the dispatcher relies on\<close>

text \<open>What a settled message keeps, and the state it ends in.\<close>

definition published_as :: "'e outbox_message \<Rightarrow> 'e outbox_message \<Rightarrow> bool" where
  "published_as m m' \<longleftrightarrow> ob_status m' = OS_PUBLISHED \<and> ob_lease_id m' = None
     \<and> ob_attempts m' = ob_attempts m \<and> ob_envelope m' = ob_envelope m"

definition failed_as :: "bool \<Rightarrow> 'e outbox_message \<Rightarrow> 'e outbox_message \<Rightarrow> bool" where
  "failed_as terminal m m' \<longleftrightarrow> ob_status m' = (if terminal then OS_DEAD_LETTERED else OS_FAILED)
     \<and> ob_lease_id m' = None \<and> ob_attempts m' = ob_attempts m \<and> ob_envelope m' = ob_envelope m"

definition leased_under :: "nat \<Rightarrow> 'e outbox_message \<Rightarrow> bool" where
  "leased_under l m \<longleftrightarrow> ob_status m = OS_LEASED \<and> ob_lease_id m = Some l"

text \<open>Publishing leaves the store alone, and its outcome for a message is \<open>outcome\<close>.\<close>

definition publishes ::
  "('w \<Rightarrow> string \<Rightarrow> 'e outbox_message option) \<Rightarrow> ('w \<Rightarrow> bool) \<Rightarrow> ('e, 'w) dispatcher
   \<Rightarrow> ('e outbox_message \<Rightarrow> unit result) \<Rightarrow> bool"
where
  "publishes look ok d outcome \<longleftrightarrow>
     (\<forall>m w. fst (di_publish d m w) = outcome m \<and> look (snd (di_publish d m w)) = look w
        \<and> (ok w \<longrightarrow> ok (snd (di_publish d m w))))
     \<and> (\<forall>n prev w. (1 \<le> n \<longrightarrow> is_ok (fst (calculate_backoff (di_backoff d) n prev w)))
          \<and> look (snd (calculate_backoff (di_backoff d) n prev w)) = look w
          \<and> (ok w \<longrightarrow> ok (snd (calculate_backoff (di_backoff d) n prev w))))"

definition settled_as :: "('e, 'w) dispatcher \<Rightarrow> unit result \<Rightarrow> 'e outbox_message \<Rightarrow> 'e outbox_message \<Rightarrow> bool" where
  "settled_as d r m m' \<longleftrightarrow>
     (case r of Inr _ \<Rightarrow> published_as m m'
              | Inl e \<Rightarrow> failed_as (di_max_attempts d \<le> ob_attempts m) m m')"

definition recoverable :: "unit result \<Rightarrow> bool" where
  "recoverable r \<longleftrightarrow> (\<forall>e. r = Inl e \<longrightarrow> is_exception e \<and> \<not> isinstance e CancelledError)"

locale outbox_contract =
  fixes api :: "('e, 'w) outbox_api"
    and look :: "'w \<Rightarrow> string \<Rightarrow> 'e outbox_message option"
    and ok :: "'w \<Rightarrow> bool"
  assumes lease_law:
      "ok w \<Longrightarrow> oa_lease api limit duration w = (Inr ms, w') \<Longrightarrow>
       ok w' \<and> distinct (map ob_id ms)
       \<and> (\<forall>m \<in> set ms. look w' (ob_id m) = Some m \<and> (\<exists>l. leased_under l m))"
    and published_law:
      "ok w \<Longrightarrow> look w k = Some m \<Longrightarrow> leased_under l m \<Longrightarrow>
       \<exists>w' m'. oa_mark_published api k l w = (Inr (), w') \<and> ok w' \<and> published_as m m'
         \<and> look w' = (look w)(k \<mapsto> m')"
    and failed_law:
      "ok w \<Longrightarrow> look w k = Some m \<Longrightarrow> leased_under l m \<Longrightarrow> (\<And>t. retry_at = Some t \<Longrightarrow> is_aware t) \<Longrightarrow>
       \<exists>w' m'. oa_mark_failed api k l error retry_at terminal w = (Inr (), w') \<and> ok w'
         \<and> failed_as terminal m m' \<and> look w' = (look w)(k \<mapsto> m')"
begin

lemma dispatch_one_settles:
  assumes w: "ok w" and p: "publishes look ok d outcome" and r: "recoverable (outcome m)"
    and get: "look w (ob_id m) = Some m" and l: "leased_under l m"
  shows "\<exists>w' m'. dispatch_one api d m w = (Inr (), w') \<and> ok w' \<and> settled_as d (outcome m) m m'
    \<and> look w' = (look w)(ob_id m \<mapsto> m')"
proof -
  have lease: "ob_lease_id m = Some l" using l by (simp add: leased_under_def)
  obtain w1 where pub: "di_publish d m w = (outcome m, w1)" and f1: "look w1 = look w" and o1: "ok w1"
    using p w unfolding publishes_def by (metis prod.collapse)
  show ?thesis
  proof (cases "outcome m")
    case (Inr u)
    from published_law [OF o1 _ l, of "ob_id m"] f1 get
    show ?thesis by (auto simp: dispatch_one_def lease pub Inr settled_as_def)
  next
    case (Inl e)
    let ?n = "max 1 (ob_attempts m)"
    have "1 \<le> ?n" by simp
    then have "is_ok (fst (calculate_backoff (di_backoff d) ?n None w1))"
      and f2: "look (snd (calculate_backoff (di_backoff d) ?n None w1)) = look w1"
      and o2: "ok (snd (calculate_backoff (di_backoff d) ?n None w1))"
      using p o1 unfolding publishes_def by blast+
    then obtain a w2 where b: "calculate_backoff (di_backoff d) ?n None w1 = (Inr a, w2)"
      by (cases "calculate_backoff (di_backoff d) ?n None w1") (auto simp: is_ok_iff)
    let ?t = "di_max_attempts d \<le> ob_attempts m"
    let ?retry = "if ?t then None else Some (Aware (di_clock d w2 + micros_of_seconds a))"
    have "look w2 (ob_id m) = Some m" and "ok w2" using f1 f2 o2 b get by simp_all
    moreover have "\<And>t. ?retry = Some t \<Longrightarrow> is_aware t" by (auto split: if_splits)
    ultimately obtain w3 m' where "oa_mark_failed api (ob_id m) l (di_describe d e) ?retry ?t w2 = (Inr (), w3)"
      and "ok w3" "failed_as ?t m m'" "look w3 = (look w2)(ob_id m \<mapsto> m')"
      using failed_law [OF _ _ l] by blast
    with f1 f2 b r Inl show ?thesis
      by (auto simp: dispatch_one_def lease pub recoverable_def settled_as_def Let_def)
  qed
qed

lemma dispatch_all_settles:
  "ok w \<Longrightarrow> publishes look ok d outcome \<Longrightarrow> distinct (map ob_id ms) \<Longrightarrow>
   \<forall>m \<in> set ms. recoverable (outcome m) \<and> look w (ob_id m) = Some m \<and> (\<exists>l. leased_under l m) \<Longrightarrow>
   \<exists>w'. dispatch_all api d ms w = (Inr (), w') \<and> ok w'
     \<and> (\<forall>m \<in> set ms. \<exists>m'. look w' (ob_id m) = Some m' \<and> settled_as d (outcome m) m m')
     \<and> (\<forall>k. k \<notin> ob_id ` set ms \<longrightarrow> look w' k = look w k)"
proof (induction ms arbitrary: w)
  case (Cons m ms)
  from Cons.prems(4) obtain l where "recoverable (outcome m)" "look w (ob_id m) = Some m" "leased_under l m"
    by auto
  from dispatch_one_settles [OF Cons.prems(1,2) this] obtain w1 m'
    where one: "dispatch_one api d m w = (Inr (), w1)" and o1: "ok w1" and s: "settled_as d (outcome m) m m'"
      and f1: "look w1 = (look w)(ob_id m \<mapsto> m')" by blast
  have dist: "distinct (map ob_id ms)" and fresh: "ob_id m \<notin> ob_id ` set ms"
    using Cons.prems(3) by simp_all
  have "\<forall>x \<in> set ms. recoverable (outcome x) \<and> look w1 (ob_id x) = Some x \<and> (\<exists>l. leased_under l x)"
  proof
    fix x
    assume x: "x \<in> set ms"
    then have "ob_id x \<noteq> ob_id m" using fresh by (metis image_eqI)
    then have "look w1 (ob_id x) = look w (ob_id x)" by (simp add: f1)
    with Cons.prems(4) x
    show "recoverable (outcome x) \<and> look w1 (ob_id x) = Some x \<and> (\<exists>l. leased_under l x)" by simp
  qed
  from Cons.IH [OF o1 Cons.prems(2) dist this] obtain w'
    where all: "dispatch_all api d ms w1 = (Inr (), w')" "ok w'"
      and fin: "\<forall>m \<in> set ms. \<exists>m'. look w' (ob_id m) = Some m' \<and> settled_as d (outcome m) m m'"
      and rest: "\<forall>k. k \<notin> ob_id ` set ms \<longrightarrow> look w' k = look w1 k" by blast
  have "look w' (ob_id m) = Some m'" using rest fresh f1 by simp
  with s fin have "\<forall>x \<in> set (m # ms). \<exists>x'. look w' (ob_id x) = Some x' \<and> settled_as d (outcome x) x x'"
    by simp
  moreover have "\<forall>k. k \<notin> ob_id ` set (m # ms) \<longrightarrow> look w' k = look w k"
    using rest by (simp add: f1)
  moreover have "dispatch_all api d (m # ms) w = (Inr (), w')" by (simp add: one all(1))
  ultimately show ?case using all(2) by blast
qed simp

lemma dispatch_once_settles:
  assumes "ok w" and "publishes look ok d outcome" and "\<forall>m. recoverable (outcome m)"
    and lease: "oa_lease api (di_batch_size d) (di_lease_duration d) w = (Inr ms, w1)"
  shows "\<exists>w'. dispatch_once api d w = (Inr (length ms), w') \<and> ok w'
    \<and> (\<forall>m \<in> set ms. \<exists>m'. look w' (ob_id m) = Some m' \<and> settled_as d (outcome m) m m')
    \<and> (\<forall>k. k \<notin> ob_id ` set ms \<longrightarrow> look w' k = look w1 k)"
proof -
  from lease_law [OF assms(1) lease] assms(3)
  have "ok w1" "distinct (map ob_id ms)"
    "\<forall>m \<in> set ms. recoverable (outcome m) \<and> look w1 (ob_id m) = Some m \<and> (\<exists>l. leased_under l m)" by auto
  from dispatch_all_settles [OF this(1) assms(2) this(2,3)] show ?thesis
    by (auto simp: dispatch_once_def lease)
qed

end

text \<open>The in-memory store behind the protocol, beside the rest \<open>'x\<close> of the world, which holds the clock.\<close>

definition memory_outbox_api :: "('x \<Rightarrow> instant) \<Rightarrow> ('e, 'e outbox \<times> 'x) outbox_api" where
  "memory_outbox_api clock =
     \<lparr>oa_lease = (\<lambda>limit duration (s, x).
        let (r, s') = outbox_lease limit duration (Aware (clock x)) s in (r, (s', x))),
      oa_mark_published = (\<lambda>mid lease (s, x).
        let (r, s') = outbox_mark_published mid lease (clock x) s in (r, (s', x))),
      oa_mark_failed = (\<lambda>mid lease error retry_at terminal (s, x).
        let (r, s') = outbox_mark_failed mid lease error retry_at terminal s in (r, (s', x)))\<rparr>"

lemma lease_law_memory:
  assumes "outbox_ok s" and "outbox_lease limit duration (Aware t) s = (Inr ms, s')"
  shows "outbox_ok s' \<and> distinct (map ob_id ms)
    \<and> (\<forall>m \<in> set ms. outbox_get (ob_id m) s' = Some m \<and> (\<exists>l. leased_under l m))"
proof -
  have valid: "1 \<le> limit" "0 < duration"
    using assms(2) by (auto simp: outbox_lease_def split: if_splits)
  from outbox_lease_spec [OF assms(1) this, of t] assms(2)
  have "distinct (map ob_id ms)" and "outbox_ok s'"
    and each: "\<forall>m \<in> set ms. outbox_get (ob_id m) s' = Some m \<and> (\<exists>old l. m = lease_one t (t + micros_of_seconds duration) l (recover t old))"
    by fastforce+
  moreover have "\<exists>l. leased_under l m" if "m \<in> set ms" for m
  proof -
    from each that obtain old l where "m = lease_one t (t + micros_of_seconds duration) l (recover t old)" by blast
    then show ?thesis by (auto simp: leased_under_def)
  qed
  ultimately show ?thesis by blast
qed

interpretation memory: outbox_contract "memory_outbox_api clock" "\<lambda>(s, x) k. outbox_get k s" "\<lambda>(s, x). outbox_ok s"
  for clock :: "'x \<Rightarrow> instant"
proof unfold_locales
  fix w w' :: "'e outbox \<times> 'x" and limit duration ms
  assume "case w of (s, x) \<Rightarrow> outbox_ok s"
    and "oa_lease (memory_outbox_api clock) limit duration w = (Inr ms, w')"
  then show "(case w' of (s, x) \<Rightarrow> outbox_ok s) \<and> distinct (map ob_id ms)
      \<and> (\<forall>m \<in> set ms. (case w' of (s, x) \<Rightarrow> \<lambda>k. outbox_get k s) (ob_id m) = Some m \<and> (\<exists>l. leased_under l m))"
    using lease_law_memory [of "fst w" limit duration "clock (snd w)" ms "fst w'"]
    by (auto simp: memory_outbox_api_def split: prod.splits)
next
  fix w :: "'e outbox \<times> 'x" and k m l
  assume a: "case w of (s, x) \<Rightarrow> outbox_ok s" "(case w of (s, x) \<Rightarrow> \<lambda>k. outbox_get k s) k = Some m"
    "leased_under l m"
  let ?m = "m\<lparr>ob_status := OS_PUBLISHED, ob_published_at := Some (clock (snd w)), ob_lease_id := None,
                      ob_leased_until := None, ob_last_error := None\<rparr>"
  obtain s x where w: "w = (s, x)" by (cases w)
  with a have r: "require_lease k l s = Inr m" by (simp add: require_lease_Inr leased_under_def)
  then have run: "outbox_mark_published k l (clock x) s = (Inr (), s\<lparr>ox_messages := dict_set k ?m (ox_messages s)\<rparr>)"
    by (simp add: outbox_mark_published_def w)
  from mark_published_ok [of s k l "clock x"] a(1) run
  show "\<exists>w' m'. oa_mark_published (memory_outbox_api clock) k l w = (Inr (), w') \<and> (case w' of (s, x) \<Rightarrow> outbox_ok s)
      \<and> published_as m m' \<and> (case w' of (s, x) \<Rightarrow> \<lambda>k. outbox_get k s) = (case w of (s, x) \<Rightarrow> \<lambda>k. outbox_get k s)(k \<mapsto> m')"
    by (intro exI [of _ "(s\<lparr>ox_messages := dict_set k ?m (ox_messages s)\<rparr>, x)"] exI [of _ ?m])
       (auto simp: memory_outbox_api_def w published_as_def)
next
  fix w :: "'e outbox \<times> 'x" and k m l retry_at error terminal
  assume a: "case w of (s, x) \<Rightarrow> outbox_ok s" "(case w of (s, x) \<Rightarrow> \<lambda>k. outbox_get k s) k = Some m"
    "leased_under l m" and aware: "\<And>t. retry_at = Some t \<Longrightarrow> is_aware t"
  let ?m = "m\<lparr>ob_status := (if terminal then OS_DEAD_LETTERED else OS_FAILED),
                      ob_available_at := (case retry_at of None \<Rightarrow> ob_available_at m
                                                         | Some t \<Rightarrow> utc_micros t),
                      ob_last_error := Some error, ob_lease_id := None, ob_leased_until := None\<rparr>"
  obtain s x where w: "w = (s, x)" by (cases w)
  with a have r: "require_lease k l s = Inr m" by (simp add: require_lease_Inr leased_under_def)
  then have run: "outbox_mark_failed k l error retry_at terminal s
      = (Inr (), s\<lparr>ox_messages := dict_set k ?m (ox_messages s)\<rparr>)"
    using aware by (cases retry_at) (simp_all add: outbox_mark_failed_def)
  from mark_failed_ok [of s k l error retry_at terminal] a(1) w run
  show "\<exists>w' m'. oa_mark_failed (memory_outbox_api clock) k l error retry_at terminal w = (Inr (), w')
      \<and> (case w' of (s, x) \<Rightarrow> outbox_ok s) \<and> failed_as terminal m m'
      \<and> (case w' of (s, x) \<Rightarrow> \<lambda>k. outbox_get k s) = (case w of (s, x) \<Rightarrow> \<lambda>k. outbox_get k s)(k \<mapsto> m')"
    by (intro exI [of _ "(s\<lparr>ox_messages := dict_set k ?m (ox_messages s)\<rparr>, x)"] exI [of _ ?m])
       (auto simp: memory_outbox_api_def w failed_as_def)
qed

subsection \<open>Properties\<close>

definition sample_message :: "string \<Rightarrow> instant \<Rightarrow> unit outbox_message" where
  "sample_message mid available =
     \<lparr>ob_envelope = (), ob_destination = ''q'', ob_id = mid, ob_status = OS_PENDING, ob_created_at = 0,
      ob_available_at = available, ob_attempts = 0, ob_last_error = None, ob_lease_id = None,
      ob_leased_until = None, ob_published_at = None\<rparr>"

definition sample_outbox :: "unit outbox" where
  "sample_outbox =
     fold outbox_step [OO_add (sample_message ''b'' 5), OO_add (sample_message ''a'' 3)]
       \<lparr>ox_max_entries = 10, ox_messages = [], ox_next_lease = 0\<rparr>"

lemma sample_outbox_ok: "outbox_ok sample_outbox"
proof -
  have "outbox_ok (\<lparr>ox_max_entries = 10, ox_messages = [], ox_next_lease = 0\<rparr> :: unit outbox)"
    by (rule new_outbox_ok [of 10]) (simp add: new_outbox_def)
  then show ?thesis
    unfolding sample_outbox_def
    by (rule fold_outbox_step_ok) (simp add: adds_unleased_def unleased_def sample_message_def)
qed



text \<open>
  C15: a dispatcher that lost its lease can never settle the message. Once a message no longer
  carries a lease identifier that was given out (it was taken over after expiry, published, failed or purged), then
  after any further operations both marking it published and marking it failed under that
  identifier raise and change nothing.
\<close>

theorem outbox_lost_lease_rejected:
  assumes "outbox_ok s" and "lease < ox_next_lease s"
    and "\<forall>m. outbox_get mid s = Some m \<longrightarrow> ob_lease_id m \<noteq> Some lease"
    and "\<forall>x \<in> set xs. adds_unleased x"
  shows "(\<exists>e. outbox_mark_published mid lease now (fold outbox_step xs s) = (Inl e, fold outbox_step xs s))
    \<and> (\<exists>e. outbox_mark_failed mid lease error retry_at terminal (fold outbox_step xs s) = (Inl e, fold outbox_step xs s))"
proof -
  from assms(2,3) have "lost mid lease s" by (simp add: lost_def)
  from fold_outbox_step_lost [OF assms(1,4) this] show ?thesis
    using lost_rejected by blast
qed

definition taken_over :: "unit outbox" where
  "taken_over = fold outbox_step [OO_lease 5 1 (Aware 9), OO_lease 5 1 (Aware 2000000)] sample_outbox"

lemma taken_over_ok: "outbox_ok taken_over"
  unfolding taken_over_def by (rule fold_outbox_step_ok [OF sample_outbox_ok]) (simp add: adds_unleased_def)

theorem outbox_lost_lease_rejected_witness:
  "map_option ob_lease_id (outbox_get ''a'' taken_over) = Some (Some 2)
   \<and> (\<exists>e. outbox_mark_published ''a'' 0 7 taken_over = (Inl e, taken_over))"
proof -
  have lease: "map_option ob_lease_id (outbox_get ''a'' taken_over) = Some (Some 2)" by code_simp
  have given: "0 < ox_next_lease taken_over" by code_simp
  have "\<forall>m. outbox_get ''a'' taken_over = Some m \<longrightarrow> ob_lease_id m \<noteq> Some 0"
    using lease by auto
  from outbox_lost_lease_rejected [OF taken_over_ok given this, of "[]" 7] lease show ?thesis by simp
qed

text \<open>
  C16: the outbox loses nothing. Whatever operations run, a stored message stays in the store with the
  same envelope, destination and identifier and a count of attempts that never goes down,
  until a purge finds it published; and a published or dead-lettered message never changes again.
\<close>

theorem outbox_keeps_messages:
  assumes "outbox_ok s" and "\<forall>x \<in> set xs. adds_unleased x" and "outbox_get k s = Some m"
  shows "(\<exists>m'. outbox_get k (fold outbox_step xs s) = Some m' \<and> evolves m m')
   \<or> (\<exists>ys before zs mp. xs = ys @ OO_purge before # zs
        \<and> outbox_get k (fold outbox_step ys s) = Some mp \<and> evolves m mp \<and> ob_status mp = OS_PUBLISHED)"
  using assms by (rule fold_outbox_evolves)

theorem outbox_keeps_messages_witness:
  "\<exists>m'. outbox_get ''a'' (fold outbox_step [OO_lease 5 1 (Aware 9), OO_failed ''a'' 0 ''x'' None True]
      sample_outbox) = Some m' \<and> evolves (sample_message ''a'' 3) m'"
proof -
  have get: "outbox_get ''a'' sample_outbox = Some (sample_message ''a'' 3)" by code_simp
  have "\<forall>x \<in> set [OO_lease 5 1 (Aware 9), OO_failed ''a'' 0 ''x'' None True :: unit outbox_op]. adds_unleased x"
    by (simp add: adds_unleased_def)
  from outbox_keeps_messages [OF sample_outbox_ok this get] show ?thesis
  proof (elim disjE exE conjE)
    fix ys before zs mp
    assume "[OO_lease 5 1 (Aware 9), OO_failed ''a'' 0 ''x'' None True :: unit outbox_op] = ys @ OO_purge before # zs"
    then have "OO_purge before \<in> set [OO_lease 5 1 (Aware 9), OO_failed ''a'' 0 ''x'' None True :: unit outbox_op]"
      by simp
    then show ?thesis by simp
  qed blast
qed


definition sample_dispatcher :: "(unit, unit outbox \<times> instant) dispatcher" where
  "sample_dispatcher =
     \<lparr>di_publish = (\<lambda>m w. (if ob_id m = ''a'' then raise OSError else Inr (), w)), di_batch_size = 5,
      di_lease_duration = 30, di_max_attempts = 1, di_backoff = backoff_delay (FixedBackoff (Fin 1)),
      di_idle_delay = 1, di_sleep = (\<lambda>d w. (Inr (), w)), di_clock = snd, di_describe = (\<lambda>e. ''OSError'')\<rparr>"


text \<open>
  Nothing but a failed publish call is held against the attempt limit: a dispatcher that is cancelled, or
  that lets its lease expire, returns the message to the pool, and its count of attempts passes the limit.
\<close>

lemma attempts_pass_the_limit:
  "case outbox_get ''b'' (fold outbox_step
      [OO_lease 5 1 (Aware 9), OO_lease 5 1 (Aware 2000000), OO_lease 5 1 (Aware 4000000)] sample_outbox) of
     None \<Rightarrow> False
   | Some m \<Rightarrow> ob_attempts m = 3 \<and> ob_status m = OS_LEASED \<and> di_max_attempts sample_dispatcher = 1"
  by code_simp

end
