(* ===== verification/DeadLetter.thy ===== *)
theory DeadLetter
  imports Exceptions Glob
begin

text \<open>
  \<open>broka/deadletter/models.py\<close> and \<open>store.py\<close>: dead-letter records, query filters and the
  in-memory store, whose operations each hold the store's lock and so are atomic steps. \<open>redact\<close>
  is the regular-expression redaction of \<open>observability/redaction.py\<close>, a parameter that is applied
  to every text that enters a record. Headers, metadata, tracebacks, retry history and decoded payloads
  are left out of the records.
\<close>

datatype dl_status = DL_ACTIVE | DL_QUARANTINED | DL_ARCHIVED | DL_REPLAYED

record 'e dl_record =
  dr_envelope :: "'e option"
  dr_envelope_bytes :: "string option"
  dr_error_type :: string
  dr_error_message :: string
  dr_id :: string
  dr_route :: "string option"
  dr_destination :: "string option"
  dr_first_failed_at :: instant
  dr_dead_lettered_at :: instant
  dr_updated_at :: instant
  dr_engine :: "string option"
  dr_classification :: string
  dr_event_type :: "string option"
  dr_status :: dl_status
  dr_quarantine_reason :: "string option"
  dr_archive_reason :: "string option"
  dr_replay_count :: int
  dr_replay_failures :: int
  dr_last_replay_at :: "instant option"
  dr_last_replay_error :: "string option"

record dl_policy =
  dp_max_replay_attempts :: int
  dp_max_replay_batch :: int
  dp_replay_rate_limit :: "seconds option"
  dp_quarantine_after :: int
  dp_archive_after :: "int option"
  dp_retention :: "int option"

text \<open>The two windows are \<open>timedelta\<close> values: whole microseconds.\<close>

definition validate_dl_policy :: "dl_policy \<Rightarrow> unit result" where
  "validate_dl_policy p =
     (if dp_max_replay_attempts p < 1 \<or> dp_max_replay_batch p < 1 then raise ValueError
      else if (\<exists>r \<in> set_option (dp_replay_rate_limit p). r \<le> 0) then raise ValueError
      else if dp_quarantine_after p < 1 then raise ValueError
      else if (\<exists>t \<in> set_option (dp_archive_after p). t \<le> 0) then raise ValueError
      else if (\<exists>t \<in> set_option (dp_retention p). t \<le> 0) then raise ValueError
      else if (\<exists>a \<in> set_option (dp_archive_after p). \<exists>r \<in> set_option (dp_retention p). r < a)
      then raise ValueError
      else Inr ())"

record dl_filter =
  df_ids :: "string list option"
  df_statuses :: "dl_status list option"
  df_route_pattern :: "string option"
  df_destination :: "string option"
  df_engine :: "string option"
  df_classification :: "string option"
  df_event_type :: "string option"
  df_created_after :: "instant option"
  df_created_before :: "instant option"
  df_quarantined :: "bool option"
  df_limit :: "int option"

definition no_filter :: dl_filter where
  "no_filter =
     \<lparr>df_ids = None, df_statuses = None, df_route_pattern = None, df_destination = None,
      df_engine = None, df_classification = None, df_event_type = None, df_created_after = None,
      df_created_before = None, df_quarantined = None, df_limit = None\<rparr>"

definition validate_dl_filter :: "dl_filter \<Rightarrow> unit result" where
  "validate_dl_filter f = (if (\<exists>n \<in> set_option (df_limit f). n < 1) then raise ValueError else Inr ())"

definition wanted :: "'a option \<Rightarrow> ('a \<Rightarrow> bool) \<Rightarrow> bool" where
  "wanted criterion test = (case criterion of None \<Rightarrow> True | Some x \<Rightarrow> test x)"

definition dl_matches :: "dl_filter \<Rightarrow> 'e dl_record \<Rightarrow> bool" where
  "dl_matches f r \<longleftrightarrow>
     wanted (df_ids f) (\<lambda>ids. dr_id r \<in> set ids)
     \<and> wanted (df_statuses f) (\<lambda>ss. dr_status r \<in> set ss)
     \<and> wanted (df_route_pattern f)
         (\<lambda>p. fnmatchcase (case dr_route r of None \<Rightarrow> [] | Some route \<Rightarrow> route) p)
     \<and> wanted (df_destination f) (\<lambda>d. dr_destination r = Some d)
     \<and> wanted (df_engine f) (\<lambda>e. dr_engine r = Some e)
     \<and> wanted (df_classification f) (\<lambda>c. dr_classification r = c)
     \<and> wanted (df_event_type f) (\<lambda>t. dr_event_type r = Some t)
     \<and> wanted (df_created_after f) (\<lambda>t. t \<le> dr_dead_lettered_at r)
     \<and> wanted (df_created_before f) (\<lambda>t. dr_dead_lettered_at r < t)
     \<and> wanted (df_quarantined f) (\<lambda>q. (dr_status r = DL_QUARANTINED) = q)"

subsection \<open>The in-memory store\<close>

record 'e dl_store =
  dx_max_entries :: int
  dx_records :: "(string, 'e dl_record) dict"

definition new_dl_store :: "int \<Rightarrow> 'e dl_store result" where
  "new_dl_store max_entries =
     (if max_entries < 1 then raise ValueError
      else Inr \<lparr>dx_max_entries = max_entries, dx_records = []\<rparr>)"

definition dl_put :: "'e dl_record \<Rightarrow> 'e dl_store \<Rightarrow> unit result \<times> 'e dl_store" where
  "dl_put r s =
     (if dict_has (dx_records s) (dr_id r) then (raise ValueError, s)
      else if dx_max_entries s \<le> int (length (dx_records s)) then (raise OverflowError, s)
      else (Inr (), s\<lparr>dx_records := dict_set (dr_id r) r (dx_records s)\<rparr>))"

definition dl_get :: "string \<Rightarrow> 'e dl_store \<Rightarrow> 'e dl_record option" where
  "dl_get k s = dict_get (dx_records s) k"

definition dl_rank :: "'e dl_record \<Rightarrow> instant \<times> string" where
  "dl_rank r = (dr_dead_lettered_at r, dr_id r)"

definition dl_query :: "dl_filter option \<Rightarrow> 'e dl_store \<Rightarrow> 'e dl_record list" where
  "dl_query filters s =
     (let f = (case filters of None \<Rightarrow> no_filter | Some f \<Rightarrow> f);
          records = sort_key dl_rank (filter (dl_matches f) (dict_values (dx_records s)))
      in case df_limit f of None \<Rightarrow> records | Some n \<Rightarrow> take (nat n) records)"

definition dl_update :: "'e dl_record \<Rightarrow> 'e dl_store \<Rightarrow> unit result \<times> 'e dl_store" where
  "dl_update r s =
     (if \<not> dict_has (dx_records s) (dr_id r) then (raise KeyError, s)
      else (Inr (), s\<lparr>dx_records := dict_set (dr_id r) r (dx_records s)\<rparr>))"

definition dl_delete :: "string \<Rightarrow> 'e dl_store \<Rightarrow> bool \<times> 'e dl_store" where
  "dl_delete k s = (dict_has (dx_records s) k, s\<lparr>dx_records := dict_del k (dx_records s)\<rparr>)"

definition dl_count :: "dl_filter option \<Rightarrow> 'e dl_store \<Rightarrow> nat" where
  "dl_count filters s =
     (case filters of
        None \<Rightarrow> length (dx_records s)
      | Some f \<Rightarrow> length (filter (dl_matches f) (dict_values (dx_records s))))"

definition store_quarantine ::
  "(string \<Rightarrow> string) \<Rightarrow> string \<Rightarrow> string \<Rightarrow> instant \<Rightarrow> 'e dl_store \<Rightarrow> 'e dl_record result \<times> 'e dl_store"
where
  "store_quarantine redact k reason now s =
     (if reason = [] then (raise ValueError, s)
      else case dl_get k s of
        None \<Rightarrow> (raise KeyError, s)
      | Some r \<Rightarrow>
          if dr_status r = DL_REPLAYED then (raise ValueError, s)
          else let r' = r\<lparr>dr_status := DL_QUARANTINED, dr_quarantine_reason := Some (redact reason),
                          dr_updated_at := now\<rparr>
               in (Inr r', s\<lparr>dx_records := dict_set k r' (dx_records s)\<rparr>))"

definition store_release :: "string \<Rightarrow> instant \<Rightarrow> 'e dl_store \<Rightarrow> 'e dl_record result \<times> 'e dl_store" where
  "store_release k now s =
     (case dl_get k s of
        None \<Rightarrow> (raise KeyError, s)
      | Some r \<Rightarrow>
          if dr_status r \<noteq> DL_QUARANTINED then (raise ValueError, s)
          else let r' = r\<lparr>dr_status := DL_ACTIVE, dr_quarantine_reason := None, dr_updated_at := now\<rparr>
               in (Inr r', s\<lparr>dx_records := dict_set k r' (dx_records s)\<rparr>))"

definition store_archive ::
  "(string \<Rightarrow> string) \<Rightarrow> string \<Rightarrow> string \<Rightarrow> instant \<Rightarrow> 'e dl_store \<Rightarrow> 'e dl_record result \<times> 'e dl_store"
where
  "store_archive redact k reason now s =
     (case dl_get k s of
        None \<Rightarrow> (raise KeyError, s)
      | Some r \<Rightarrow>
          if dr_status r = DL_REPLAYED then (raise ValueError, s)
          else let r' = r\<lparr>dr_status := DL_ARCHIVED, dr_archive_reason := Some (redact reason),
                          dr_updated_at := now\<rparr>
               in (Inr r', s\<lparr>dx_records := dict_set k r' (dx_records s)\<rparr>))"

definition store_purge :: "dl_filter option \<Rightarrow> bool \<Rightarrow> 'e dl_store \<Rightarrow> nat result \<times> 'e dl_store" where
  "store_purge filters confirm s =
     (if filters = None \<and> \<not> confirm then (raise ValueError, s)
      else let f = (case filters of None \<Rightarrow> no_filter | Some f \<Rightarrow> f);
               ids = map dr_id (filter (dl_matches f) (dict_values (dx_records s)))
           in (Inr (length ids), s\<lparr>dx_records := fold dict_del ids (dx_records s)\<rparr>))"

subsection \<open>The store's invariant\<close>

definition dl_ok :: "'e dl_store \<Rightarrow> bool" where
  "dl_ok s \<longleftrightarrow> dict_ok (dx_records s) \<and> int (length (dx_records s)) \<le> dx_max_entries s
     \<and> (\<forall>k r. dl_get k s = Some r \<longrightarrow> dr_id r = k)"

lemma new_dl_store_ok: "new_dl_store n = Inr s \<Longrightarrow> dl_ok s"
  by (auto simp: new_dl_store_def dl_ok_def dl_get_def split: if_splits)

lemma dl_get_set [simp]:
  "dl_get k (s\<lparr>dx_records := dict_set k' r (dx_records s)\<rparr>) = (if k = k' then Some r else dl_get k s)"
  by (simp add: dl_get_def)

lemma dl_get_del [simp]:
  "dl_get k (s\<lparr>dx_records := dict_del k' (dx_records s)\<rparr>) = (if k = k' then None else dl_get k s)"
  by (simp add: dl_get_def)

lemma dl_set_ok [inv_intros]:
  "dl_ok s \<Longrightarrow> dl_get k s \<noteq> None \<Longrightarrow> dr_id r = k \<Longrightarrow> dl_ok (s\<lparr>dx_records := dict_set k r (dx_records s)\<rparr>)"
  by (auto simp: dl_ok_def length_dict_set dict_has_def dl_get_def intro: dict_ok_set)

lemma dl_del_ok [inv_intros]: "dl_ok s \<Longrightarrow> dl_ok (s\<lparr>dx_records := dict_del k (dx_records s)\<rparr>)"
  using length_dict_del_le [of k "dx_records s"] by (auto simp: dl_ok_def intro: dict_ok_del)

lemma dl_put_ok [inv_intros]: "dl_ok s \<Longrightarrow> dl_ok (snd (dl_put r s))"
  by (auto simp: dl_put_def dl_ok_def length_dict_set intro: dict_ok_set)

lemma dl_update_ok [inv_intros]: "dl_ok s \<Longrightarrow> dl_ok (snd (dl_update r s))"
  by (auto simp: dl_update_def dict_has_def dl_get_def intro!: dl_set_ok)

lemma dl_delete_ok [inv_intros]: "dl_ok s \<Longrightarrow> dl_ok (snd (dl_delete k s))"
  by (simp add: dl_delete_def dl_del_ok)

lemma dl_values: "dict_ok (dx_records s) \<Longrightarrow> r \<in> set (dict_values (dx_records s)) \<longleftrightarrow> (\<exists>k. dl_get k s = Some r)"
  by (force simp: dict_values_def dl_get_def dict_get_eq_Some)

lemma dl_ids_distinct: "dl_ok s \<Longrightarrow> distinct (map dr_id (dict_values (dx_records s)))"
proof -
  assume ok: "dl_ok s"
  have "dr_id v = k" if "(k, v) \<in> set (dx_records s)" for k v
    using ok that by (auto simp: dl_ok_def dl_get_def dict_get_eq_Some)
  then have "map dr_id (dict_values (dx_records s)) = map fst (dx_records s)"
    by (auto simp: dict_values_def)
  with ok show ?thesis by (simp add: dl_ok_def dict_ok_def)
qed

lemma dl_query_distinct: "dl_ok s \<Longrightarrow> distinct (map dr_id (dl_query f s))"
proof -
  assume ok: "dl_ok s"
  have "distinct (map dr_id (sort_key dl_rank (filter P (dict_values (dx_records s)))))" for P
    using distinct_map_filter [OF dl_ids_distinct [OF ok], of P] by (simp add: distinct_map)
  then show ?thesis
    by (auto simp: dl_query_def Let_def take_map [symmetric] split: option.splits intro: distinct_take)
qed

subsection \<open>Properties\<close>

lemma take_sorted_below:
  assumes "sorted (map f xs)" and "x \<in> set (take n xs)" and "y \<in> set (drop n xs)"
  shows "f x \<le> f y"
proof -
  have "sorted (map f (take n xs) @ map f (drop n xs))"
    using assms(1) by (simp flip: map_append)
  with assms(2,3) show ?thesis by (auto simp: sorted_append)
qed

text \<open>
  A dead-letter query is exact. It returns only stored records that satisfy every configured
  criterion, each once, ordered by dead-letter time and identifier; without a limit it returns
  all of them, and with one it returns that many of the earliest (or all, when there are fewer).
\<close>

theorem dl_query_exact:
  assumes "dl_ok s" and "validate_dl_filter f = Inr ()"
  shows "sorted (map dl_rank (dl_query (Some f) s)) \<and> distinct (map dr_id (dl_query (Some f) s))
    \<and> set (dl_query (Some f) s) \<subseteq> {r. (\<exists>k. dl_get k s = Some r) \<and> dl_matches f r}
    \<and> int (length (dl_query (Some f) s)) = (case df_limit f of
         None \<Rightarrow> int (dl_count (Some f) s) | Some n \<Rightarrow> min n (int (dl_count (Some f) s)))
    \<and> (\<forall>r k r'. r \<in> set (dl_query (Some f) s) \<longrightarrow> dl_get k s = Some r' \<longrightarrow> dl_matches f r' \<longrightarrow>
         r' \<notin> set (dl_query (Some f) s) \<longrightarrow> dl_rank r \<le> dl_rank r')"
proof -
  let ?all = "sort_key dl_rank (filter (dl_matches f) (dict_values (dx_records s)))"
  have dict: "dict_ok (dx_records s)" using assms(1) by (simp add: dl_ok_def)
  obtain n where q: "dl_query (Some f) s = take n ?all"
    and n: "int (length (take n ?all)) = (case df_limit f of
         None \<Rightarrow> int (dl_count (Some f) s) | Some n \<Rightarrow> min n (int (dl_count (Some f) s)))"
  proof (cases "df_limit f")
    case None
    then show thesis using that [of "length ?all"] by (simp add: dl_query_def dl_count_def)
  next
    case (Some l)
    with assms(2) have "1 \<le> l" by (auto simp: validate_dl_filter_def split: if_splits)
    then have short: "int (length (take (nat l) ?all)) = min l (int (length ?all))" by (simp add: min_def) linarith
    have "dl_query (Some f) s = take (nat l) ?all" by (simp add: dl_query_def Some)
    moreover have "dl_count (Some f) s = length ?all" by (simp add: dl_count_def)
    ultimately show thesis using that [of "nat l"] short by (simp only: Some option.case)
  qed
  have sorted: "sorted (map dl_rank ?all)" by simp
  have set_all: "set ?all = {r. (\<exists>k. dl_get k s = Some r) \<and> dl_matches f r}"
    using dl_values [OF dict] by auto
  have sub: "set (take n ?all) \<subseteq> set ?all" by (rule set_take_subset)
  have last: "dl_rank r \<le> dl_rank r'"
    if "r \<in> set (take n ?all)" "dl_get k s = Some r'" "dl_matches f r'" "r' \<notin> set (take n ?all)" for r k r'
  proof (rule take_sorted_below [OF sorted that(1)])
    have "set ?all = set (take n ?all) \<union> set (drop n ?all)" by (metis append_take_drop_id set_append)
    moreover have "r' \<in> set ?all" unfolding set_all using that(2,3) by blast
    ultimately show "r' \<in> set (drop n ?all)" using that(4) by blast
  qed
  have "sorted (map dl_rank (take n ?all))" using sorted by (simp add: take_map [symmetric] sorted_wrt_take)
  with dl_query_distinct [OF assms(1), of "Some f"] sub last n show ?thesis
    unfolding q set_all by blast
qed

definition sample_record :: "string \<Rightarrow> instant \<Rightarrow> nat dl_record" where
  "sample_record k t =
     \<lparr>dr_envelope = Some 7, dr_envelope_bytes = None, dr_error_type = ''E'', dr_error_message = [],
      dr_id = k, dr_route = Some ''orders.new'', dr_destination = Some ''q'', dr_first_failed_at = t,
      dr_dead_lettered_at = t, dr_updated_at = t, dr_engine = None, dr_classification = ''terminal'',
      dr_event_type = None, dr_status = DL_ACTIVE, dr_quarantine_reason = None, dr_archive_reason = None,
      dr_replay_count = 0, dr_replay_failures = 0, dr_last_replay_at = None, dr_last_replay_error = None\<rparr>"

definition sample_dl_store :: "nat dl_store" where
  "sample_dl_store =
     snd (dl_put (sample_record ''b'' 20) (snd (dl_put (sample_record ''a'' 10)
       \<lparr>dx_max_entries = 10, dx_records = []\<rparr>)))"

lemma sample_dl_store_ok: "dl_ok sample_dl_store"
  unfolding sample_dl_store_def
  by (intro dl_put_ok new_dl_store_ok [of 10]) (simp add: new_dl_store_def)

theorem dl_query_exact_witness:
  "map dr_id (dl_query (Some (no_filter\<lparr>df_route_pattern := Some ''orders.*'', df_limit := Some 1\<rparr>)) sample_dl_store)
     = [''a'']
   \<and> length (dl_query (Some (no_filter\<lparr>df_route_pattern := Some ''orders.*'', df_limit := Some 1\<rparr>)) sample_dl_store) = 1"
proof -
  let ?f = "no_filter\<lparr>df_route_pattern := Some ''orders.*'', df_limit := Some 1\<rparr>"
  have ids: "map dr_id (dl_query (Some ?f) sample_dl_store) = [''a'']" by code_simp
  have count: "dl_count (Some ?f) sample_dl_store = 2" by code_simp
  have "validate_dl_filter ?f = Inr ()" by (simp add: validate_dl_filter_def no_filter_def)
  from dl_query_exact [OF sample_dl_store_ok this]
  have "int (length (dl_query (Some ?f) sample_dl_store)) =
      (case df_limit ?f of None \<Rightarrow> int (dl_count (Some ?f) sample_dl_store)
                         | Some n \<Rightarrow> min n (int (dl_count (Some ?f) sample_dl_store)))"
    by (elim conjE)
  then have "length (dl_query (Some ?f) sample_dl_store) = 1" by (simp add: count)
  with ids show ?thesis by (rule conjI)
qed

end
