(* ===== verification/Replay.thy ===== *)
theory Replay
  imports DeadLetter
begin

text \<open>
  \<open>broka/deadletter/manager.py\<close> and \<open>replay.py\<close>: dead-letter administration, retention and
  replay. Both managers use a store through the operations of the \<open>DeadLetterStore\<close> protocol, here
  a record of calls on a world \<open>'w\<close>; what they rely on is the locale \<open>dead_letter_contract\<close>, which the
  in-memory store satisfies.
\<close>

record ('e, 'w) dl_api =
  da_put :: "'e dl_record \<Rightarrow> 'w action"
  da_get :: "string \<Rightarrow> 'w \<Rightarrow> 'e dl_record option result \<times> 'w"
  da_query :: "dl_filter option \<Rightarrow> 'w \<Rightarrow> 'e dl_record list result \<times> 'w"
  da_update :: "'e dl_record \<Rightarrow> 'w action"
  da_delete :: "string \<Rightarrow> 'w \<Rightarrow> bool result \<times> 'w"

subsection \<open>Administration\<close>

record ('e, 'w) dl_manager =
  dm_api :: "('e, 'w) dl_api"
  dm_policy :: dl_policy
  dm_now :: "'w \<Rightarrow> instant"
  dm_redact :: "string \<Rightarrow> string"
  dm_fresh_id :: "'w \<Rightarrow> string \<times> 'w"
  dm_recorded :: "'e dl_record \<Rightarrow> 'w action"

record 'e dl_context =
  dk_route :: "string option"
  dk_destination :: "string option"
  dk_first_failed_at :: "instant option"
  dk_engine :: "string option"
  dk_classification :: string
  dk_original_bytes :: "string option"

text \<open>
  The envelope argument is raw bytes or an object; \<open>to_bytes\<close> is what the object's method returns,
  None when it has none, raises or returns something else. \<open>dm_recorded\<close> is the metric and the
  event after the record is stored.
\<close>

datatype 'e captured = CapturedBytes string | CapturedObject 'e "string option" "string option"

fun captured_bytes :: "'e captured \<Rightarrow> string option" where
  "captured_bytes (CapturedBytes b) = Some b"
| "captured_bytes (CapturedObject e to_bytes event_type) = to_bytes"

fun captured_object :: "'e captured \<Rightarrow> 'e option" where
  "captured_object (CapturedBytes b) = None"
| "captured_object (CapturedObject e to_bytes event_type) = Some e"

fun captured_type :: "'e captured \<Rightarrow> string option" where
  "captured_type (CapturedBytes b) = None"
| "captured_type (CapturedObject e to_bytes event_type) = event_type"

definition dead_letter ::
  "('e, 'w) dl_manager \<Rightarrow> 'e captured \<Rightarrow> string \<Rightarrow> string \<Rightarrow> 'e dl_context \<Rightarrow> 'w
   \<Rightarrow> 'e dl_record result \<times> 'w"
where
  "dead_letter m envelope error_type error_text c w =
     (let now = dm_now m w;
          (rid, w1) = dm_fresh_id m w;
          r = \<lparr>dr_envelope = captured_object envelope,
               dr_envelope_bytes = (case dk_original_bytes c of Some b \<Rightarrow> Some b | None \<Rightarrow> captured_bytes envelope),
               dr_error_type = error_type, dr_error_message = dm_redact m error_text, dr_id = rid,
               dr_route = dk_route c, dr_destination = dk_destination c,
               dr_first_failed_at = (case dk_first_failed_at c of None \<Rightarrow> now | Some t \<Rightarrow> t),
               dr_dead_lettered_at = now, dr_updated_at = now, dr_engine = dk_engine c,
               dr_classification = dk_classification c, dr_event_type = captured_type envelope,
               dr_status = DL_ACTIVE, dr_quarantine_reason = None, dr_archive_reason = None,
               dr_replay_count = 0, dr_replay_failures = 0, dr_last_replay_at = None,
               dr_last_replay_error = None\<rparr>
      in if rid = [] \<or> error_type = [] then (raise ValueError, w1)
         else case da_put (dm_api m) r w1 of
             (Inl e, w2) \<Rightarrow> (Inl (if is_exception e then PyExc DeadLetterError True else e), w2)
           | (Inr _, w2) \<Rightarrow> andthen (dm_recorded m r) (\<lambda>_ w3. (Inr r, w3)) w2)"

definition inspect_record :: "('e, 'w) dl_api \<Rightarrow> string \<Rightarrow> 'w \<Rightarrow> 'e dl_record result \<times> 'w" where
  "inspect_record api k =
     andthen (da_get api k)
       (\<lambda>r w. case r of None \<Rightarrow> (raise DeadLetterError, w) | Some x \<Rightarrow> (Inr x, w))"

definition store_updated :: "('e, 'w) dl_api \<Rightarrow> 'e dl_record \<Rightarrow> 'w \<Rightarrow> 'e dl_record result \<times> 'w" where
  "store_updated api r = andthen (da_update api r) (\<lambda>_ w. (Inr r, w))"

definition mgr_quarantine ::
  "('e, 'w) dl_manager \<Rightarrow> string \<Rightarrow> string \<Rightarrow> 'w \<Rightarrow> 'e dl_record result \<times> 'w"
where
  "mgr_quarantine m k reason w =
     (if reason = [] then (raise ValueError, w)
      else andthen (inspect_record (dm_api m) k)
        (\<lambda>r w. if dr_status r = DL_REPLAYED then (raise DeadLetterError, w)
               else store_updated (dm_api m)
                 (r\<lparr>dr_status := DL_QUARANTINED, dr_quarantine_reason := Some (dm_redact m reason),
                    dr_updated_at := dm_now m w\<rparr>) w) w)"

definition mgr_release :: "('e, 'w) dl_manager \<Rightarrow> string \<Rightarrow> 'w \<Rightarrow> 'e dl_record result \<times> 'w" where
  "mgr_release m k =
     andthen (inspect_record (dm_api m) k)
       (\<lambda>r w. if dr_status r \<noteq> DL_QUARANTINED then (raise DeadLetterError, w)
              else store_updated (dm_api m)
                (r\<lparr>dr_status := DL_ACTIVE, dr_quarantine_reason := None, dr_updated_at := dm_now m w\<rparr>) w)"

definition mgr_archive ::
  "('e, 'w) dl_manager \<Rightarrow> string \<Rightarrow> string \<Rightarrow> 'w \<Rightarrow> 'e dl_record result \<times> 'w"
where
  "mgr_archive m k reason =
     andthen (inspect_record (dm_api m) k)
       (\<lambda>r w. if dr_status r = DL_REPLAYED then (raise DeadLetterError, w)
              else store_updated (dm_api m)
                (r\<lparr>dr_status := DL_ARCHIVED, dr_archive_reason := Some (dm_redact m reason),
                   dr_updated_at := dm_now m w\<rparr>) w)"

fun delete_each :: "('e, 'w) dl_api \<Rightarrow> 'e dl_record list \<Rightarrow> nat \<Rightarrow> 'w \<Rightarrow> nat result \<times> 'w" where
  "delete_each api [] n w = (Inr n, w)"
| "delete_each api (r # rs) n w =
     andthen (da_delete api (dr_id r)) (\<lambda>b. delete_each api rs (if b then Suc n else n)) w"

definition mgr_purge ::
  "('e, 'w) dl_manager \<Rightarrow> dl_filter option \<Rightarrow> bool \<Rightarrow> 'w \<Rightarrow> nat result \<times> 'w"
where
  "mgr_purge m filters confirm =
     andthen (da_query (dm_api m) filters)
       (\<lambda>rs w. if length rs \<noteq> 1 \<and> \<not> confirm then (raise DeadLetterError, w)
               else delete_each (dm_api m) rs 0 w)"

definition due :: "int option \<Rightarrow> int \<Rightarrow> bool" where
  "due limit age = (case limit of None \<Rightarrow> False | Some t \<Rightarrow> t \<le> age)"

fun retain_each ::
  "('e, 'w) dl_manager \<Rightarrow> instant \<Rightarrow> 'e dl_record list \<Rightarrow> nat \<Rightarrow> nat \<Rightarrow> 'w \<Rightarrow> (nat \<times> nat) result \<times> 'w"
where
  "retain_each m now [] archived purged w = (Inr (archived, purged), w)"
| "retain_each m now (r # rs) archived purged w =
     (let age = now - dr_dead_lettered_at r
      in if due (dp_retention (dm_policy m)) age
         then andthen (da_delete (dm_api m) (dr_id r))
                (\<lambda>b. retain_each m now rs archived (if b then Suc purged else purged)) w
         else if due (dp_archive_after (dm_policy m)) age
                 \<and> (dr_status r = DL_ACTIVE \<or> dr_status r = DL_QUARANTINED)
         then andthen (mgr_archive m (dr_id r) ''retention'')
                (\<lambda>_. retain_each m now rs (Suc archived) purged) w
         else retain_each m now rs archived purged w)"

definition apply_retention ::
  "('e, 'w) dl_manager \<Rightarrow> datetime \<Rightarrow> 'w \<Rightarrow> (nat \<times> nat) result \<times> 'w"
where
  "apply_retention m now w =
     (if \<not> is_aware now then (raise ValueError, w)
      else andthen (da_query (dm_api m) None) (\<lambda>rs. retain_each m (utc_micros now) rs 0 0) w)"

subsection \<open>Replay\<close>

datatype replay_outcome = RO_DRY_RUN | RO_SUCCEEDED | RO_FAILED | RO_SKIPPED | RO_QUARANTINED

record replay_result =
  rr_record_id :: string
  rr_outcome :: replay_outcome
  rr_destination :: "string option"
  rr_replay_count :: int
  rr_error :: "string option"

record ('e, 'w) replayer =
  ry_api :: "('e, 'w) dl_api"
  ry_policy :: dl_policy
  ry_publish :: "'e \<Rightarrow> string option \<Rightarrow> 'w action"
  ry_decoder :: "(string \<Rightarrow> 'e result) option"
  ry_sleep :: "seconds \<Rightarrow> 'w action"
  ry_emit :: "string \<Rightarrow> 'w action"
  ry_now :: "'w \<Rightarrow> instant"
  ry_redact :: "string \<Rightarrow> string"
  ry_describe :: "pyexc \<Rightarrow> string"

definition answer ::
  "'e dl_record \<Rightarrow> replay_outcome \<Rightarrow> string option \<Rightarrow> int \<Rightarrow> string option \<Rightarrow> 'w
   \<Rightarrow> replay_result result \<times> 'w"
where
  "answer r outcome destination count error w =
     (Inr \<lparr>rr_record_id = dr_id r, rr_outcome = outcome, rr_destination = destination,
           rr_replay_count = count, rr_error = error\<rparr>, w)"

definition replay_envelope :: "('e, 'w) replayer \<Rightarrow> 'e dl_record \<Rightarrow> 'e option result" where
  "replay_envelope y r =
     (case dr_envelope r of
        Some e \<Rightarrow> Inr (Some e)
      | None \<Rightarrow>
          (case (dr_envelope_bytes r, ry_decoder y) of
             (Some b, Some decode) \<Rightarrow> (case decode b of Inl e \<Rightarrow> Inl e | Inr x \<Rightarrow> Inr (Some x))
           | _ \<Rightarrow> Inr None))"

text \<open>The record after a publish call that raised an ordinary exception.\<close>

definition replay_failed :: "('e, 'w) replayer \<Rightarrow> instant \<Rightarrow> pyexc \<Rightarrow> 'e dl_record \<Rightarrow> 'e dl_record" where
  "replay_failed y now e r =
     (let failures = dr_replay_failures r + 1;
          status = (if dp_quarantine_after (ry_policy y) \<le> failures then DL_QUARANTINED else dr_status r)
      in r\<lparr>dr_status := status,
           dr_quarantine_reason :=
             (if status = DL_QUARANTINED then Some (ry_redact y ''repeated replay failure'')
              else dr_quarantine_reason r),
           dr_replay_count := dr_replay_count r + 1, dr_replay_failures := failures,
           dr_last_replay_at := Some now, dr_last_replay_error := Some (ry_redact y (ry_describe y e)),
           dr_updated_at := now\<rparr>)"

definition replay_succeeded :: "instant \<Rightarrow> 'e dl_record \<Rightarrow> 'e dl_record" where
  "replay_succeeded now r =
     r\<lparr>dr_status := DL_REPLAYED, dr_replay_count := dr_replay_count r + 1, dr_last_replay_at := Some now,
       dr_last_replay_error := None, dr_updated_at := now\<rparr>"

definition replay_attempt ::
  "('e, 'w) replayer \<Rightarrow> 'e dl_record \<Rightarrow> string option \<Rightarrow> 'w \<Rightarrow> replay_result result \<times> 'w"
where
  "replay_attempt y r destination w =
     (case replay_envelope y r of
        Inl e \<Rightarrow> (Inl e, w)
      | Inr None \<Rightarrow> (raise DeadLetterError, w)
      | Inr (Some envelope) \<Rightarrow>
          let now = ry_now y w
          in case ry_publish y envelope destination w of
               (Inr _, w1) \<Rightarrow>
                 (let r' = replay_succeeded now r
                  in andthen (da_update (ry_api y) r')
                       (\<lambda>_. andthen (ry_emit y (dr_id r))
                         (\<lambda>_. answer r RO_SUCCEEDED destination (dr_replay_count r') None)) w1)
             | (Inl e, w1) \<Rightarrow>
                 if isinstance e CancelledError \<or> \<not> is_exception e then (Inl e, w1)
                 else (let r' = replay_failed y now e r
                       in andthen (da_update (ry_api y) r')
                            (\<lambda>_. answer r
                              (if dr_status r' = DL_QUARANTINED then RO_QUARANTINED else RO_FAILED)
                              destination (dr_replay_count r') (dr_last_replay_error r')) w1))"

definition replay ::
  "('e, 'w) replayer \<Rightarrow> string option \<Rightarrow> bool \<Rightarrow> bool \<Rightarrow> bool \<Rightarrow> string \<Rightarrow> 'w \<Rightarrow> replay_result result \<times> 'w"
where
  "replay y override dry_run include_quarantined include_archived k =
     andthen (inspect_record (ry_api y) k)
       (\<lambda>r w.
          let destination = (case override of None \<Rightarrow> dr_destination r
                             | Some d \<Rightarrow> if d = [] then dr_destination r else Some d);
              skip = answer r RO_SKIPPED destination (dr_replay_count r)
          in if dr_status r = DL_REPLAYED then skip (Some ''already replayed'') w
             else if dr_status r = DL_QUARANTINED \<and> \<not> include_quarantined
             then skip (Some ''record is quarantined'') w
             else if dr_status r = DL_ARCHIVED \<and> \<not> include_archived
             then skip (Some ''record is archived'') w
             else if dp_max_replay_attempts (ry_policy y) \<le> dr_replay_count r
             then (let r' = r\<lparr>dr_status := DL_QUARANTINED,
                              dr_quarantine_reason := Some (ry_redact y ''maximum replay attempts reached''),
                              dr_updated_at := ry_now y w\<rparr>
                   in andthen (da_update (ry_api y) r')
                        (\<lambda>_. answer r RO_QUARANTINED destination (dr_replay_count r') (dr_quarantine_reason r')) w)
             else if dry_run then answer r RO_DRY_RUN destination (dr_replay_count r) None w
             else replay_attempt y r destination w)"

fun replay_each ::
  "('e, 'w) replayer \<Rightarrow> string option \<Rightarrow> bool \<Rightarrow> bool \<Rightarrow> bool \<Rightarrow> string list \<Rightarrow> replay_result list \<Rightarrow> 'w
   \<Rightarrow> replay_result list result \<times> 'w"
where
  "replay_each y override dry_run iq ia [] results w = (Inr results, w)"
| "replay_each y override dry_run iq ia (k # ks) results w =
     andthen (replay y override dry_run iq ia k)
       (\<lambda>result.
          andthen
            (case dp_replay_rate_limit (ry_policy y) of
               None \<Rightarrow> (\<lambda>w. (Inr (), w))
             | Some rate \<Rightarrow> if ks \<noteq> [] \<and> \<not> dry_run then ry_sleep y (1 / rate) else (\<lambda>w. (Inr (), w)))
            (\<lambda>_. replay_each y override dry_run iq ia ks (results @ [result]))) w"

definition replay_selected ::
  "('e, 'w) replayer \<Rightarrow> string option \<Rightarrow> bool \<Rightarrow> bool \<Rightarrow> bool \<Rightarrow> bool \<Rightarrow> string list \<Rightarrow> 'w
   \<Rightarrow> replay_result list result \<times> 'w"
where
  "replay_selected y override dry_run confirm iq ia record_ids w =
     (let ids = from_keys record_ids
      in if dp_max_replay_batch (ry_policy y) < int (length ids) then (raise DeadLetterError, w)
         else if 1 < length ids \<and> \<not> (confirm \<or> dry_run) then (raise DeadLetterError, w)
         else replay_each y override dry_run iq ia ids [] w)"

definition replay_all ::
  "('e, 'w) replayer \<Rightarrow> dl_filter option \<Rightarrow> string option \<Rightarrow> bool \<Rightarrow> bool \<Rightarrow> 'w
   \<Rightarrow> replay_result list result \<times> 'w"
where
  "replay_all y filters override dry_run confirm w =
     (if \<not> (confirm \<or> dry_run) then (raise DeadLetterError, w)
      else let f = (case filters of
                      None \<Rightarrow> no_filter\<lparr>df_statuses := Some [DL_ACTIVE],
                                         df_limit := Some (dp_max_replay_batch (ry_policy y))\<rparr>
                    | Some f \<Rightarrow> f)
      in andthen (da_query (ry_api y) (Some f))
           (\<lambda>rs w. if dp_max_replay_batch (ry_policy y) < int (length rs) then (raise DeadLetterError, w)
                   else replay_selected y override dry_run True False False (map dr_id rs) w) w)"

subsection \<open>What the managers rely on\<close>

text \<open>
  \<open>look\<close> reads the stored records off the world and \<open>rest\<close> everything else: reading changes nothing,
  and a write changes one record and leaves the rest alone.
\<close>

locale dead_letter_contract =
  fixes api :: "('e, 'w) dl_api"
    and look :: "'w \<Rightarrow> string \<Rightarrow> 'e dl_record option"
    and rest :: "'w \<Rightarrow> 'x"
    and ok :: "'w \<Rightarrow> bool"
  assumes look_id: "ok w \<Longrightarrow> look w k = Some r \<Longrightarrow> dr_id r = k"
    and get_law: "ok w \<Longrightarrow> da_get api k w = (Inr (look w k), w)"
    and update_law:
      "ok w \<Longrightarrow> look w (dr_id r) \<noteq> None \<Longrightarrow>
       \<exists>w'. da_update api r w = (Inr (), w') \<and> ok w' \<and> look w' = (look w)(dr_id r \<mapsto> r) \<and> rest w' = rest w"
    and delete_law:
      "ok w \<Longrightarrow> \<exists>w'. da_delete api k w = (Inr (look w k \<noteq> None), w') \<and> ok w'
         \<and> look w' = (look w)(k := None) \<and> rest w' = rest w"
    and query_law:
      "ok w \<Longrightarrow> \<exists>rs. da_query api f w = (Inr rs, w) \<and> distinct (map dr_id rs)
         \<and> (\<forall>r \<in> set rs. look w (dr_id r) = Some r)
         \<and> (f = None \<longrightarrow> (\<forall>k r. look w k = Some r \<longrightarrow> r \<in> set rs))"
begin

lemma inspect_law:
  "ok w \<Longrightarrow> inspect_record api k w =
     (case look w k of None \<Rightarrow> (raise DeadLetterError, w) | Some r \<Rightarrow> (Inr r, w))"
  using get_law [of w k] by (simp add: inspect_record_def split: option.splits)

lemma store_updated_law:
  "ok w \<Longrightarrow> look w (dr_id r) \<noteq> None \<Longrightarrow>
   \<exists>w'. store_updated api r w = (Inr r, w') \<and> ok w' \<and> look w' = (look w)(dr_id r \<mapsto> r) \<and> rest w' = rest w"
  using update_law [of w r] by (auto simp: store_updated_def)

lemma archive_law:
  assumes "ok w" and "dm_api m = api" and "look w k = Some r" and "dr_status r \<noteq> DL_REPLAYED"
  shows "\<exists>w'. mgr_archive m k reason w =
      (Inr (r\<lparr>dr_status := DL_ARCHIVED, dr_archive_reason := Some (dm_redact m reason), dr_updated_at := dm_now m w\<rparr>), w')
    \<and> ok w' \<and> rest w' = rest w
    \<and> look w' = (look w)(k \<mapsto>
        r\<lparr>dr_status := DL_ARCHIVED, dr_archive_reason := Some (dm_redact m reason), dr_updated_at := dm_now m w\<rparr>)"
proof -
  let ?r = "r\<lparr>dr_status := DL_ARCHIVED, dr_archive_reason := Some (dm_redact m reason), dr_updated_at := dm_now m w\<rparr>"
  have id: "dr_id ?r = k" using look_id [OF assms(1,3)] by simp
  with store_updated_law [OF assms(1), of ?r] assms(3) obtain w'
    where "store_updated api ?r w = (Inr ?r, w')" "ok w'" "look w' = (look w)(k \<mapsto> ?r)" "rest w' = rest w"
    by auto
  then show ?thesis
    using assms inspect_law [OF assms(1), of k] by (simp add: mgr_archive_def)
qed

end

text \<open>What retention makes of one record.\<close>

definition purge_due :: "dl_policy \<Rightarrow> instant \<Rightarrow> 'e dl_record \<Rightarrow> bool" where
  "purge_due p now r = due (dp_retention p) (now - dr_dead_lettered_at r)"

definition archive_due :: "dl_policy \<Rightarrow> instant \<Rightarrow> 'e dl_record \<Rightarrow> bool" where
  "archive_due p now r \<longleftrightarrow> \<not> purge_due p now r
     \<and> due (dp_archive_after p) (now - dr_dead_lettered_at r)
     \<and> (dr_status r = DL_ACTIVE \<or> dr_status r = DL_QUARANTINED)"

definition retained :: "dl_policy \<Rightarrow> (string \<Rightarrow> string) \<Rightarrow> instant \<Rightarrow> instant \<Rightarrow> 'e dl_record \<Rightarrow> 'e dl_record option" where
  "retained p redact clock now r =
     (if purge_due p now r then None
      else if archive_due p now r
      then Some (r\<lparr>dr_status := DL_ARCHIVED, dr_archive_reason := Some (redact ''retention''), dr_updated_at := clock\<rparr>)
      else Some r)"

context dead_letter_contract begin

lemma retain_each_law:
  assumes m: "dm_api m = api" and clock: "\<And>w. dm_now m w = clock (rest w)"
  shows "ok w \<Longrightarrow> distinct (map dr_id rs) \<Longrightarrow> \<forall>r \<in> set rs. look w (dr_id r) = Some r \<Longrightarrow>
    \<exists>w'. retain_each m now rs a p w =
      (Inr (a + length (filter (archive_due (dm_policy m) now) rs),
            p + length (filter (purge_due (dm_policy m) now) rs)), w')
    \<and> ok w' \<and> rest w' = rest w
    \<and> (\<forall>r \<in> set rs. look w' (dr_id r) = retained (dm_policy m) (dm_redact m) (clock (rest w)) now r)
    \<and> (\<forall>k. k \<notin> dr_id ` set rs \<longrightarrow> look w' k = look w k)"
proof (induction rs arbitrary: a p w)
  case (Cons r rs)
  let ?P = "purge_due (dm_policy m) now" and ?A = "archive_due (dm_policy m) now"
  let ?step = "retained (dm_policy m) (dm_redact m) (clock (rest w)) now r"
  have fresh: "dr_id r \<notin> dr_id ` set rs" and dist: "distinct (map dr_id rs)" using Cons.prems(2) by simp_all
  have "\<exists>w1. retain_each m now (r # rs) a p w
        = retain_each m now rs (if ?A r then Suc a else a) (if ?P r then Suc p else p) w1
      \<and> ok w1 \<and> rest w1 = rest w \<and> look w1 = (look w)(dr_id r := ?step)"
  proof -
    have look: "look w (dr_id r) = Some r" using Cons.prems(3) by simp
    consider "?P r" | "\<not> ?P r" "?A r" | "\<not> ?P r" "\<not> ?A r" by blast
    then show ?thesis
    proof cases
      case 1
      from delete_law [OF Cons.prems(1), of "dr_id r"] look
      obtain w1 where "da_delete api (dr_id r) w = (Inr True, w1)" "ok w1"
        "look w1 = (look w)(dr_id r := None)" "rest w1 = rest w" by auto
      with 1 m show ?thesis
        by (intro exI [of _ w1]) (simp add: purge_due_def archive_due_def retained_def)
    next
      case 2
      then have "dr_status r \<noteq> DL_REPLAYED" by (auto simp: archive_due_def)
      from archive_law [OF Cons.prems(1) m look this, of "''retention''"] 2 clock show ?thesis
        by (auto simp: purge_due_def archive_due_def retained_def Let_def)
    next
      case 3
      with look Cons.prems(1) show ?thesis
        by (intro exI [of _ w]) (auto simp: purge_due_def archive_due_def retained_def Let_def fun_upd_idem)
    qed
  qed
  then obtain w1 where run: "retain_each m now (r # rs) a p w
        = retain_each m now rs (if ?A r then Suc a else a) (if ?P r then Suc p else p) w1"
      and w1: "ok w1" "rest w1 = rest w" "look w1 = (look w)(dr_id r := ?step)" by blast
  have "\<forall>x \<in> set rs. look w1 (dr_id x) = Some x"
  proof
    fix x
    assume x: "x \<in> set rs"
    then have "dr_id x \<noteq> dr_id r" using fresh by (metis image_eqI)
    with x Cons.prems(3) show "look w1 (dr_id x) = Some x" by (simp add: w1(3))
  qed
  from Cons.IH [OF w1(1) dist this, of "if ?A r then Suc a else a" "if ?P r then Suc p else p"]
  obtain w' where w': "retain_each m now rs (if ?A r then Suc a else a) (if ?P r then Suc p else p) w1 =
      (Inr ((if ?A r then Suc a else a) + length (filter ?A rs), (if ?P r then Suc p else p) + length (filter ?P rs)), w')"
    "ok w'" "rest w' = rest w1"
    and each: "\<forall>x \<in> set rs. look w' (dr_id x) = retained (dm_policy m) (dm_redact m) (clock (rest w)) now x"
    and others: "\<forall>k. k \<notin> dr_id ` set rs \<longrightarrow> look w' k = look w1 k"
    unfolding w1(2) by blast
  have "look w' (dr_id r) = ?step" using others fresh by (simp add: w1(3))
  with each have "\<forall>x \<in> set (r # rs). look w' (dr_id x) = retained (dm_policy m) (dm_redact m) (clock (rest w)) now x"
    by simp
  moreover have "\<forall>k. k \<notin> dr_id ` set (r # rs) \<longrightarrow> look w' k = look w k" using others by (simp add: w1(3))
  ultimately show ?case
    using run w' w1(2) by (intro exI [of _ w']) simp
qed simp

lemma apply_retention_law:
  assumes "ok w" and m: "dm_api m = api" and clock: "\<And>w. dm_now m w = clock (rest w)"
  shows "\<exists>w' a p. apply_retention m (Aware now) w = (Inr (a, p), w') \<and> ok w' \<and> rest w' = rest w
    \<and> (\<forall>k. look w' k = (case look w k of None \<Rightarrow> None
         | Some r \<Rightarrow> retained (dm_policy m) (dm_redact m) (clock (rest w)) now r))
    \<and> (\<exists>rs. distinct (map dr_id rs) \<and> set rs = {r. \<exists>k. look w k = Some r}
         \<and> a = length (filter (archive_due (dm_policy m) now) rs)
         \<and> p = length (filter (purge_due (dm_policy m) now) rs))"
proof -
  from query_law [OF assms(1), of None] obtain rs where q: "da_query api None w = (Inr rs, w)"
    and dist: "distinct (map dr_id rs)" and stored: "\<forall>r \<in> set rs. look w (dr_id r) = Some r"
    and all: "\<forall>k r. look w k = Some r \<longrightarrow> r \<in> set rs" by blast
  from retain_each_law [OF m clock assms(1) dist stored, of now 0 0] obtain w'
    where run: "retain_each m now rs 0 0 w =
      (Inr (length (filter (archive_due (dm_policy m) now) rs), length (filter (purge_due (dm_policy m) now) rs)), w')"
    and w': "ok w'" "rest w' = rest w"
    and each: "\<forall>r \<in> set rs. look w' (dr_id r) = retained (dm_policy m) (dm_redact m) (clock (rest w)) now r"
    and others: "\<forall>k. k \<notin> dr_id ` set rs \<longrightarrow> look w' k = look w k" by auto
  have "look w' k = (case look w k of None \<Rightarrow> None
      | Some r \<Rightarrow> retained (dm_policy m) (dm_redact m) (clock (rest w)) now r)" for k
  proof (cases "look w k")
    case None
    then have "k \<notin> dr_id ` set rs" using stored by auto
    with others None show ?thesis by simp
  next
    case (Some r)
    with all each look_id [OF assms(1) Some] show ?thesis by auto
  qed
  moreover have "set rs = {r. \<exists>k. look w k = Some r}" using stored all by auto
  moreover have "apply_retention m (Aware now) w = retain_each m now rs 0 0 w"
    by (simp add: apply_retention_def m q)
  ultimately show ?thesis using run w' dist
    by (intro exI [of _ w'] exI [of _ "length (filter (archive_due (dm_policy m) now) rs)"]
        exI [of _ "length (filter (purge_due (dm_policy m) now) rs)"] conjI exI [of _ rs]) auto
qed

end

text \<open>
  The publish call of a replayer counts itself in \<open>rest\<close>, leaves the store alone, and returns or
  raises an ordinary exception; the event emitter and the sleep between replays leave both alone.
\<close>

definition counted_publish ::
  "('w \<Rightarrow> string \<Rightarrow> 'e dl_record option) \<Rightarrow> ('w \<Rightarrow> 'x) \<Rightarrow> ('w \<Rightarrow> bool) \<Rightarrow> ('x \<Rightarrow> nat) \<Rightarrow> ('e, 'w) replayer \<Rightarrow> bool"
where
  "counted_publish look rest ok f y \<longleftrightarrow>
     (\<forall>e d w. ok w \<longrightarrow> ok (snd (ry_publish y e d w)) \<and> look (snd (ry_publish y e d w)) = look w
        \<and> f (rest (snd (ry_publish y e d w))) = Suc (f (rest w))
        \<and> (\<forall>x. fst (ry_publish y e d w) = Inl x \<longrightarrow> is_exception x \<and> \<not> isinstance x CancelledError))
     \<and> (\<forall>k w. ok w \<longrightarrow> ok (snd (ry_emit y k w)) \<and> look (snd (ry_emit y k w)) = look w
        \<and> f (rest (snd (ry_emit y k w))) = f (rest w))
     \<and> (\<forall>t w. ok w \<longrightarrow> ok (snd (ry_sleep y t w)) \<and> look (snd (ry_sleep y t w)) = look w
        \<and> f (rest (snd (ry_sleep y t w))) = f (rest w))"

lemma counted_call:
  assumes "counted_publish look rest ok f y" and "ok w" and "ry_publish y e d w = (q, w1)"
  shows "ok w1 \<and> look w1 = look w \<and> f (rest w1) = Suc (f (rest w))
    \<and> (\<forall>x. q = Inl x \<longrightarrow> is_exception x \<and> \<not> isinstance x CancelledError)"
proof -
  from assms(1,2) have "ok (snd (ry_publish y e d w)) \<and> look (snd (ry_publish y e d w)) = look w
      \<and> f (rest (snd (ry_publish y e d w))) = Suc (f (rest w))
      \<and> (\<forall>x. fst (ry_publish y e d w) = Inl x \<longrightarrow> is_exception x \<and> \<not> isinstance x CancelledError)"
    unfolding counted_publish_def by blast
  then show ?thesis unfolding assms(3) fst_conv snd_conv .
qed

lemma counted_quiet:
  assumes "counted_publish look rest ok f y" and "ok w"
  shows "ry_emit y k w = (q, w1) \<Longrightarrow> ok w1 \<and> look w1 = look w \<and> f (rest w1) = f (rest w)"
    and "ry_sleep y t w = (q, w1) \<Longrightarrow> ok w1 \<and> look w1 = look w \<and> f (rest w1) = f (rest w)"
proof -
  assume run: "ry_emit y k w = (q, w1)"
  from assms have "ok (snd (ry_emit y k w)) \<and> look (snd (ry_emit y k w)) = look w
      \<and> f (rest (snd (ry_emit y k w))) = f (rest w)"
    unfolding counted_publish_def by blast
  then show "ok w1 \<and> look w1 = look w \<and> f (rest w1) = f (rest w)" unfolding run snd_conv .
next
  assume run: "ry_sleep y t w = (q, w1)"
  from assms have "ok (snd (ry_sleep y t w)) \<and> look (snd (ry_sleep y t w)) = look w
      \<and> f (rest (snd (ry_sleep y t w))) = f (rest w)"
    unfolding counted_publish_def by blast
  then show "ok w1 \<and> look w1 = look w \<and> f (rest w1) = f (rest w)" unfolding run snd_conv .
qed

text \<open>One record before and after a replay of it, with the number of publish calls made.\<close>

definition replay_effect :: "int \<Rightarrow> bool \<Rightarrow> 'e dl_record \<Rightarrow> nat \<Rightarrow> 'e dl_record \<Rightarrow> bool" where
  "replay_effect cap dry_run r n r' \<longleftrightarrow>
     dr_replay_count r' = dr_replay_count r + int n
     \<and> (0 < n \<longrightarrow> n = 1 \<and> dr_replay_count r < cap \<and> \<not> dry_run \<and> dr_status r \<noteq> DL_REPLAYED)
     \<and> (dr_status r = DL_REPLAYED \<longrightarrow> r' = r)
     \<and> dr_envelope r' = dr_envelope r \<and> dr_envelope_bytes r' = dr_envelope_bytes r"

lemma replay_effect_same [simp]: "replay_effect cap dry_run r 0 r"
  by (simp add: replay_effect_def)

context dead_letter_contract begin

lemma attempt_effect:
  assumes w: "ok w" and y: "ry_api y = api" and c: "counted_publish look rest ok f y"
    and get: "look w k = Some r" and below: "dr_replay_count r < cap" and live: "dr_status r \<noteq> DL_REPLAYED"
    and run: "replay_attempt y r destination w = (res, w')"
  shows "ok w' \<and> (\<exists>r' n. look w' = (look w)(k \<mapsto> r') \<and> f (rest w') = f (rest w) + n
    \<and> replay_effect cap False r n r')"
proof (cases "\<exists>e. replay_envelope y r = Inr (Some e)")
  case False
  with run have "w' = w" by (auto simp: replay_attempt_def split: sum.splits option.splits)
  with w get show ?thesis by (auto intro!: exI [of _ r] exI [of _ 0])
next
  case True
  then obtain e where e: "replay_envelope y r = Inr (Some e)" by blast
  obtain q w1 where pub: "ry_publish y e destination w = (q, w1)" by (rule prod.exhaust)
  from counted_call [OF c w pub]
  have w1: "ok w1" "look w1 = look w" "f (rest w1) = Suc (f (rest w))"
    and q: "\<And>x. q = Inl x \<Longrightarrow> is_exception x \<and> \<not> isinstance x CancelledError" by blast+
  define r' where "r' = (case q of Inr _ \<Rightarrow> replay_succeeded (ry_now y w) r | Inl x \<Rightarrow> replay_failed y (ry_now y w) x r)"
  have id: "dr_id r' = k" using look_id [OF w get]
    by (simp add: r'_def replay_succeeded_def replay_failed_def Let_def split: sum.splits)
  have eff: "replay_effect cap False r 1 r'"
    using below live by (simp add: replay_effect_def r'_def replay_succeeded_def replay_failed_def Let_def split: sum.splits)
  from update_law [OF w1(1), of r'] w1(2) get id obtain w2
    where up: "da_update api r' w1 = (Inr (), w2)" "ok w2" "look w2 = (look w)(k \<mapsto> r')" "rest w2 = rest w1"
    by auto
  have "ok w' \<and> look w' = look w2 \<and> f (rest w') = f (rest w2)"
  proof (cases q)
    case (Inl x)
    with run e pub q up y show ?thesis
      by (auto simp: replay_attempt_def Let_def r'_def answer_def)
  next
    case (Inr u)
    obtain em w3 where emit: "ry_emit y (dr_id r) w2 = (em, w3)" by (rule prod.exhaust)
    with counted_quiet(1) [OF c up(2)]
    have "ok w3" "look w3 = look w2" "f (rest w3) = f (rest w2)" by blast+
    moreover from run e pub up y Inr emit have "w' = w3"
      by (cases em) (auto simp: replay_attempt_def Let_def r'_def answer_def)
    ultimately show ?thesis by simp
  qed
  with up w1(3) eff show ?thesis
    by (intro conjI exI [of _ r'] exI [of _ 1]) simp_all
qed

lemma replay_effect_of:
  assumes w: "ok w" and y: "ry_api y = api" and c: "counted_publish look rest ok f y"
    and run: "replay y override dry_run iq ia k w = (res, w')"
  shows "ok w' \<and> (case look w k of
      None \<Rightarrow> w' = w
    | Some r \<Rightarrow> \<exists>r' n. look w' = (look w)(k \<mapsto> r') \<and> f (rest w') = f (rest w) + n
        \<and> replay_effect (dp_max_replay_attempts (ry_policy y)) dry_run r n r')"
proof (cases "look w k")
  case None
  with run w y inspect_law [OF w, of k] show ?thesis by (simp add: replay_def)
next
  case (Some r)
  let ?cap = "dp_max_replay_attempts (ry_policy y)"
  let ?d = "case override of None \<Rightarrow> dr_destination r | Some d \<Rightarrow> if d = [] then dr_destination r else Some d"
  let ?skipped = "dr_status r = DL_REPLAYED \<or> (dr_status r = DL_QUARANTINED \<and> \<not> iq) \<or> (dr_status r = DL_ARCHIVED \<and> \<not> ia)"
  have ins: "inspect_record (ry_api y) k w = (Inr r, w)" using inspect_law [OF w, of k] Some y by simp
  consider (skip) ?skipped | (cap) "\<not> ?skipped" "?cap \<le> dr_replay_count r"
    | (dry) "\<not> ?skipped" "\<not> ?cap \<le> dr_replay_count r" dry_run
    | (go) "\<not> ?skipped" "\<not> ?cap \<le> dr_replay_count r" "\<not> dry_run" by blast
  then show ?thesis
  proof cases
    case skip
    with run ins have "w' = w" by (auto simp: replay_def Let_def answer_def split: if_splits)
    with w Some show ?thesis by (auto intro!: exI [of _ r] exI [of _ 0])
  next
    case cap
    let ?r = "r\<lparr>dr_status := DL_QUARANTINED,
                dr_quarantine_reason := Some (ry_redact y ''maximum replay attempts reached''), dr_updated_at := ry_now y w\<rparr>"
    have id: "dr_id ?r = k" using look_id [OF w Some] by simp
    from update_law [OF w, of ?r] Some id obtain w1
      where up: "da_update api ?r w = (Inr (), w1)" "ok w1" "look w1 = (look w)(k \<mapsto> ?r)" "rest w1 = rest w" by auto
    with run ins cap y have "w' = w1" by (auto simp: replay_def Let_def answer_def split: if_splits)
    with up Some cap(1) show ?thesis
      by (auto simp: replay_effect_def intro!: exI [of _ ?r] exI [of _ 0])
  next
    case dry
    with run ins have "w' = w" by (auto simp: replay_def Let_def answer_def split: if_splits)
    with w Some show ?thesis by (auto intro!: exI [of _ r] exI [of _ 0])
  next
    case go
    then have "dr_replay_count r < ?cap" and "dr_status r \<noteq> DL_REPLAYED" by auto
    moreover have "replay_attempt y r ?d w = (res, w')"
      using run ins go by (auto simp: replay_def Let_def split: if_splits)
    ultimately show ?thesis
      using attempt_effect [OF w y c Some] Some go(3) by simp
  qed
qed

end

text \<open>Replays one after the other, each by a caller that ignores what it returns or raises.\<close>

type_synonym replay_request = "string option \<times> bool \<times> bool \<times> bool \<times> string"

fun replay_requests :: "('e, 'w) replayer \<Rightarrow> replay_request list \<Rightarrow> 'w \<Rightarrow> 'w" where
  "replay_requests y [] w = w"
| "replay_requests y ((override, dry_run, iq, ia, k) # qs) w =
     replay_requests y qs (snd (replay y override dry_run iq ia k w))"

definition replays_to :: "int \<Rightarrow> 'e dl_record \<Rightarrow> 'e dl_record \<Rightarrow> bool" where
  "replays_to cap r r' \<longleftrightarrow>
     dr_replay_count r \<le> dr_replay_count r' \<and> dr_replay_count r' \<le> max cap (dr_replay_count r)
     \<and> (dr_status r = DL_REPLAYED \<longrightarrow> r' = r)
     \<and> dr_envelope r' = dr_envelope r \<and> dr_envelope_bytes r' = dr_envelope_bytes r"

lemma replays_to_refl [simp]: "replays_to cap r r"
  by (simp add: replays_to_def)

lemma replays_to_trans: "replays_to cap a b \<Longrightarrow> replays_to cap b c \<Longrightarrow> replays_to cap a c"
  unfolding replays_to_def by (cases "dr_status a = DL_REPLAYED") auto

lemma replay_effect_replays_to: "replay_effect cap dry_run r n r' \<Longrightarrow> replays_to cap r r'"
  by (cases "n = 0") (auto simp: replay_effect_def replays_to_def)

context dead_letter_contract begin

lemma replay_requests_law:
  assumes y: "ry_api y = api" and c: "counted_publish look rest ok f y"
  shows "ok w \<Longrightarrow> look w k = Some r \<Longrightarrow>
    ok (replay_requests y qs w) \<and> (\<exists>r'. look (replay_requests y qs w) k = Some r'
      \<and> replays_to (dp_max_replay_attempts (ry_policy y)) r r'
      \<and> ((\<forall>q \<in> set qs. snd (snd (snd (snd q))) = k) \<longrightarrow>
           int (f (rest (replay_requests y qs w))) = int (f (rest w)) + (dr_replay_count r' - dr_replay_count r)))"
proof (induction qs arbitrary: w r)
  case Nil
  then show ?case by simp
next
  case (Cons q qs)
  obtain override dry_run iq ia j where q: "q = (override, dry_run, iq, ia, j)" by (cases q)
  let ?cap = "dp_max_replay_attempts (ry_policy y)"
  obtain res w1 where run: "replay y override dry_run iq ia j w = (res, w1)" by (rule prod.exhaust)
  note eff = replay_effect_of [OF Cons.prems(1) y c run]
  have ok1: "ok w1" using eff by blast
  have "\<exists>r1. look w1 k = Some r1 \<and> replays_to ?cap r r1
      \<and> (j = k \<longrightarrow> int (f (rest w1)) = int (f (rest w)) + (dr_replay_count r1 - dr_replay_count r))"
  proof (cases "j = k")
    case True
    with eff Cons.prems(2) obtain r1 n where "look w1 = (look w)(k \<mapsto> r1)" "f (rest w1) = f (rest w) + n"
      and e: "replay_effect ?cap dry_run r n r1" by auto
    with replay_effect_replays_to [OF e] show ?thesis
      by (intro exI [of _ r1]) (simp add: replay_effect_def)
  next
    case False
    then have "look w1 k = look w k" using eff by (auto split: option.splits)
    with Cons.prems(2) False show ?thesis by (intro exI [of _ r]) simp
  qed
  then obtain r1 where r1: "look w1 k = Some r1" "replays_to ?cap r r1"
    and n1: "j = k \<longrightarrow> int (f (rest w1)) = int (f (rest w)) + (dr_replay_count r1 - dr_replay_count r)" by blast
  have step: "replay_requests y (q # qs) w = replay_requests y qs w1" by (simp add: q run)
  from Cons.IH [OF ok1 r1(1)] obtain r' where ok': "ok (replay_requests y qs w1)"
    and r': "look (replay_requests y qs w1) k = Some r'" "replays_to ?cap r1 r'"
    and n': "(\<forall>q \<in> set qs. snd (snd (snd (snd q))) = k) \<longrightarrow>
       int (f (rest (replay_requests y qs w1))) = int (f (rest w1)) + (dr_replay_count r' - dr_replay_count r1)" by blast
  show ?case unfolding step
    using ok' r'(1) replays_to_trans [OF r1(2) r'(2)] n1 n' by (intro conjI exI [of _ r']) (auto simp: q)
qed

lemma replay_names_record:
  assumes "ok w" and "ry_api y = api" and "replay y override dry_run iq ia k w = (Inr res, w')"
  shows "rr_record_id res = k"
proof -
  obtain r where r: "look w k = Some r" and ins: "inspect_record (ry_api y) k w = (Inr r, w)"
    using assms inspect_law [OF assms(1), of k] by (auto simp: replay_def split: option.splits)
  from look_id [OF assms(1) r] have "dr_id r = k" .
  with assms(3) ins show ?thesis
    by (auto simp: replay_def answer_def replay_attempt_def Let_def andthen_def
        split: if_splits sum.splits option.splits prod.splits)
qed

lemma replay_publishes:
  assumes "ok w" and "ry_api y = api" and "counted_publish look rest ok f y"
    and "replay y override dry_run iq ia k w = (res, w')" and "res = Inr x"
  shows "ok w' \<and> f (rest w') \<le> Suc (f (rest w)) \<and> (dry_run \<longrightarrow> f (rest w') = f (rest w))"
  using replay_effect_of [OF assms(1-4)] by (auto simp: replay_effect_def split: option.splits)

lemma replay_each_law:
  assumes y: "ry_api y = api" and c: "counted_publish look rest ok f y"
  shows "ok w \<Longrightarrow> replay_each y override dry_run iq ia ks results w = (Inr results', w') \<Longrightarrow>
    map rr_record_id results' = map rr_record_id results @ ks
    \<and> f (rest w') \<le> f (rest w) + length ks \<and> (dry_run \<longrightarrow> f (rest w') = f (rest w))"
proof (induction ks arbitrary: results w)
  case (Cons k ks)
  let ?pause = "case dp_replay_rate_limit (ry_policy y) of
      None \<Rightarrow> (\<lambda>w. (Inr (), w))
    | Some rate \<Rightarrow> if ks \<noteq> [] \<and> \<not> dry_run then ry_sleep y (1 / rate) else (\<lambda>w. (Inr (), w))"
  from Cons.prems(2) obtain res w1 u w2
    where run: "replay y override dry_run iq ia k w = (Inr res, w1)"
      and pause: "?pause w1 = (Inr u, w2)"
      and tail: "replay_each y override dry_run iq ia ks (results @ [res]) w2 = (Inr results', w')"
    by (auto simp: andthen_def split: prod.splits sum.splits)
  from replay_publishes [OF Cons.prems(1) y c run refl]
  have w1: "ok w1" "f (rest w1) \<le> Suc (f (rest w))" "dry_run \<longrightarrow> f (rest w1) = f (rest w)" by blast+
  have w2: "ok w2" "f (rest w2) = f (rest w1)"
  proof -
    have "w2 = w1 \<or> (\<exists>t q. ry_sleep y t w1 = (q, w2))"
      using pause by (auto split: option.splits if_splits)
    with counted_quiet(2) [OF c w1(1)] w1(1) show "ok w2" "f (rest w2) = f (rest w1)" by auto
  qed
  from Cons.IH [OF w2(1) tail] w1 w2 replay_names_record [OF Cons.prems(1) y run]
  show ?case by auto
qed simp

end

subsection \<open>The in-memory store as the provider\<close>

definition memory_dl_api :: "('e, 'e dl_store \<times> 'x) dl_api" where
  "memory_dl_api =
     \<lparr>da_put = (\<lambda>r (s, x). let (q, s') = dl_put r s in (q, (s', x))),
      da_get = (\<lambda>k (s, x). (Inr (dl_get k s), (s, x))),
      da_query = (\<lambda>f (s, x). (Inr (dl_query f s), (s, x))),
      da_update = (\<lambda>r (s, x). let (q, s') = dl_update r s in (q, (s', x))),
      da_delete = (\<lambda>k (s, x). let (b, s') = dl_delete k s in (Inr b, (s', x)))\<rparr>"

definition memory_look :: "'e dl_store \<times> 'x \<Rightarrow> string \<Rightarrow> 'e dl_record option" where
  "memory_look w k = dl_get k (fst w)"

lemma dl_query_stored:
  assumes "dl_ok s" and "r \<in> set (dl_query f s)"
  shows "dl_get (dr_id r) s = Some r"
proof -
  from assms(1) have dict: "dict_ok (dx_records s)" by (simp add: dl_ok_def)
  from assms(2) have "r \<in> set (dict_values (dx_records s))"
    by (auto simp: dl_query_def Let_def split: option.splits dest: in_set_takeD)
  then obtain k where "dl_get k s = Some r" using dl_values [OF dict] by blast
  with assms(1) show ?thesis by (auto simp: dl_ok_def)
qed

lemma dl_query_all:
  assumes "dl_ok s" and "dl_get k s = Some r"
  shows "r \<in> set (dl_query None s)"
proof -
  from assms have "r \<in> set (dict_values (dx_records s))"
    using dl_values [of s] by (auto simp: dl_ok_def)
  moreover have "dl_matches no_filter r" by (simp add: dl_matches_def no_filter_def wanted_def)
  ultimately show ?thesis by (simp add: dl_query_def no_filter_def)
qed

interpretation memory: dead_letter_contract
  "memory_dl_api :: ('e, 'e dl_store \<times> 'x) dl_api" memory_look snd "\<lambda>w. dl_ok (fst w)"
proof unfold_locales
  fix w :: "'e dl_store \<times> 'x" and r :: "'e dl_record"
  assume "dl_ok (fst w)" and "memory_look w (dr_id r) \<noteq> None"
  then show "\<exists>w'. da_update memory_dl_api r w = (Inr (), w') \<and> dl_ok (fst w')
      \<and> memory_look w' = (memory_look w)(dr_id r \<mapsto> r) \<and> snd w' = snd w"
    by (cases w) (auto simp: memory_dl_api_def memory_look_def dl_update_def dict_has_def dl_get_def [symmetric]
        fun_eq_iff intro!: dl_set_ok)
next
  fix w :: "'e dl_store \<times> 'x" and k
  assume "dl_ok (fst w)"
  then show "\<exists>w'. da_delete memory_dl_api k w = (Inr (memory_look w k \<noteq> None), w') \<and> dl_ok (fst w')
      \<and> memory_look w' = (memory_look w)(k := None) \<and> snd w' = snd w"
    by (cases w) (auto simp: memory_dl_api_def memory_look_def dl_delete_def dict_has_def dl_get_def [symmetric]
        fun_eq_iff intro!: dl_del_ok)
next
  fix w :: "'e dl_store \<times> 'x" and f
  assume "dl_ok (fst w)"
  then show "\<exists>rs. da_query memory_dl_api f w = (Inr rs, w) \<and> distinct (map dr_id rs)
      \<and> (\<forall>r \<in> set rs. memory_look w (dr_id r) = Some r)
      \<and> (f = None \<longrightarrow> (\<forall>k r. memory_look w k = Some r \<longrightarrow> r \<in> set rs))"
    by (cases w) (auto simp: memory_dl_api_def memory_look_def dl_query_distinct dl_query_stored dl_query_all)
qed (auto simp: memory_dl_api_def memory_look_def dl_ok_def split: prod.splits)

subsection \<open>Properties\<close>

text \<open>
  Retention is exact. Applied at a time, it deletes the records whose age has reached the
  retention window, archives the active and quarantined ones whose age has reached the archive
  window, leaves every other record alone, and reports how many it archived and purged.
\<close>

theorem apply_retention_exact:
  fixes m :: "('e, 'e dl_store \<times> 'x) dl_manager"
  assumes "dl_ok s" and "dm_api m = memory_dl_api" and "dm_now m = (\<lambda>w. clock (snd w))"
  shows "\<exists>s' a p. apply_retention m (Aware now) (s, x) = (Inr (a, p), (s', x))
    \<and> (\<forall>k. dl_get k s' = (case dl_get k s of None \<Rightarrow> None
         | Some r \<Rightarrow> retained (dm_policy m) (dm_redact m) (clock x) now r))
    \<and> (\<exists>rs. distinct (map dr_id rs) \<and> set rs = {r. \<exists>k. dl_get k s = Some r}
         \<and> a = length (filter (archive_due (dm_policy m) now) rs)
         \<and> p = length (filter (purge_due (dm_policy m) now) rs))"
proof -
  have "dl_ok (fst (s, x))" using assms(1) by simp
  moreover have "dm_now m w = clock (snd w)" for w using assms(3) by simp
  ultimately obtain w' a p where run: "apply_retention m (Aware now) (s, x) = (Inr (a, p), w')"
    and rest: "snd w' = snd (s, x)"
    and each: "\<forall>k. memory_look w' k = (case memory_look (s, x) k of None \<Rightarrow> None
         | Some r \<Rightarrow> retained (dm_policy m) (dm_redact m) (clock (snd (s, x))) now r)"
    and counts: "\<exists>rs. distinct (map dr_id rs) \<and> set rs = {r. \<exists>k. memory_look (s, x) k = Some r}
         \<and> a = length (filter (archive_due (dm_policy m) now) rs)
         \<and> p = length (filter (purge_due (dm_policy m) now) rs)"
    using memory.apply_retention_law [OF _ assms(2), of "(s, x)" clock now] by blast
  obtain s' where w': "w' = (s', x)" using rest by (cases w') simp
  from each have each': "\<forall>k. dl_get k s' = (case dl_get k s of None \<Rightarrow> None
         | Some r \<Rightarrow> retained (dm_policy m) (dm_redact m) (clock x) now r)"
    unfolding w' memory_look_def fst_conv snd_conv .
  from counts have counts': "\<exists>rs. distinct (map dr_id rs) \<and> set rs = {r. \<exists>k. dl_get k s = Some r}
         \<and> a = length (filter (archive_due (dm_policy m) now) rs)
         \<and> p = length (filter (purge_due (dm_policy m) now) rs)"
    unfolding memory_look_def fst_conv snd_conv .
  show ?thesis
    by (rule exI [of _ s'], rule exI [of _ a], rule exI [of _ p], intro conjI)
       (rule run [unfolded w'], rule each', rule counts')
qed


text \<open>
  A bulk replay stays inside its safeguards. When it returns, there is one result for each
  distinct requested record, in order of first mention; the selection was within the batch limit,
  and confirmed or a dry run if it had more than one record; no more publish calls were made than
  there are results, and none at all by a dry run.
\<close>

theorem replay_selected_guarded:
  fixes y :: "('e, 'e dl_store \<times> 'x) replayer"
  assumes "dl_ok s" and "ry_api y = memory_dl_api"
    and "counted_publish memory_look snd (\<lambda>w. dl_ok (fst w)) f y"
    and "replay_selected y override dry_run confirm iq ia ids (s, x) = (Inr results, w')"
  shows "map rr_record_id results = from_keys ids
    \<and> int (length results) \<le> dp_max_replay_batch (ry_policy y)
    \<and> (1 < length results \<longrightarrow> confirm \<or> dry_run)
    \<and> f (snd w') \<le> f x + length results \<and> (dry_run \<longrightarrow> f (snd w') = f x)"
proof -
  from assms(4) have few: "int (length (from_keys ids)) \<le> dp_max_replay_batch (ry_policy y)"
    and sure: "1 < length (from_keys ids) \<longrightarrow> confirm \<or> dry_run"
    and run: "replay_each y override dry_run iq ia (from_keys ids) [] (s, x) = (Inr results, w')"
    by (auto simp: replay_selected_def Let_def split: if_splits)
  have "dl_ok (fst (s, x))" using assms(1) by simp
  from memory.replay_each_law [OF assms(2,3) this run]
  have names: "map rr_record_id results = from_keys ids"
    and calls: "f (snd w') \<le> f x + length (from_keys ids)" "dry_run \<longrightarrow> f (snd w') = f x" by simp_all
  have "length results = length (from_keys ids)" using arg_cong [OF names, of length] by simp
  with names calls few sure show ?thesis by simp
qed

definition sample_dl_policy :: dl_policy where
  "sample_dl_policy =
     \<lparr>dp_max_replay_attempts = 2, dp_max_replay_batch = 10, dp_replay_rate_limit = None,
      dp_quarantine_after = 5, dp_archive_after = Some 100, dp_retention = Some 200\<rparr>"

definition sample_manager :: "(nat, nat dl_store \<times> instant) dl_manager" where
  "sample_manager =
     \<lparr>dm_api = memory_dl_api, dm_policy = sample_dl_policy, dm_now = (\<lambda>w. snd w), dm_redact = (\<lambda>x. x),
      dm_fresh_id = (\<lambda>w. (''id'', w)), dm_recorded = (\<lambda>r w. (Inr (), w))\<rparr>"

theorem apply_retention_exact_witness:
  "\<exists>s' a p. apply_retention sample_manager (Aware 215) (sample_dl_store, 215) = (Inr (a, p), (s', 215))
     \<and> dl_get ''a'' s' = None \<and> map_option dr_status (dl_get ''b'' s') = Some DL_ARCHIVED"
proof -
  have m: "dm_api sample_manager = memory_dl_api" "dm_now sample_manager = (\<lambda>w. (\<lambda>t. t) (snd w))"
    "dm_policy sample_manager = sample_dl_policy" by (simp_all add: sample_manager_def)
  have get: "dl_get ''a'' sample_dl_store = Some (sample_record ''a'' 10)"
    "dl_get ''b'' sample_dl_store = Some (sample_record ''b'' 20)" by code_simp+
  from apply_retention_exact [OF sample_dl_store_ok m(1,2), of 215 215] obtain s' a p
    where run: "apply_retention sample_manager (Aware 215) (sample_dl_store, 215) = (Inr (a, p), (s', 215))"
      and each: "\<forall>k. dl_get k s' = (case dl_get k sample_dl_store of None \<Rightarrow> None
         | Some r \<Rightarrow> retained (dm_policy sample_manager) (dm_redact sample_manager) 215 215 r)"
    by (elim exE conjE)
  from each have "dl_get ''a'' s' = retained sample_dl_policy (dm_redact sample_manager) 215 215 (sample_record ''a'' 10)"
    and "dl_get ''b'' s' = retained sample_dl_policy (dm_redact sample_manager) 215 215 (sample_record ''b'' 20)"
    by (simp_all add: get m)
  then have "dl_get ''a'' s' = None" and "map_option dr_status (dl_get ''b'' s') = Some DL_ARCHIVED"
    by (simp_all add: retained_def purge_due_def archive_due_def due_def sample_dl_policy_def sample_record_def)
  with run show ?thesis by (intro exI conjI)
qed

definition sample_replayer :: "(nat, nat dl_store \<times> nat) replayer" where
  "sample_replayer =
     \<lparr>ry_api = memory_dl_api, ry_policy = sample_dl_policy,
      ry_publish = (\<lambda>e d (s, n). (raise PublishError, (s, Suc n))), ry_decoder = None,
      ry_sleep = (\<lambda>t w. (Inr (), w)), ry_emit = (\<lambda>k w. (Inr (), w)), ry_now = (\<lambda>w. 500),
      ry_redact = (\<lambda>x. x), ry_describe = (\<lambda>e. ''failed'')\<rparr>"

lemma publish_error_caught: "is_subclass PublishError Exception" "\<not> is_subclass PublishError CancelledError"
  by code_simp+

lemma sample_replayer_counts:
  "ry_api sample_replayer = memory_dl_api"
  "counted_publish memory_look snd (\<lambda>w. dl_ok (fst w)) (\<lambda>n. n) sample_replayer"
  by (auto simp: sample_replayer_def counted_publish_def memory_look_def isinstance_def publish_error_caught)


theorem replay_selected_guarded_witness:
  "\<exists>results w'. replay_selected sample_replayer None True False False False [''b'', ''a'', ''b''] (sample_dl_store, 0)
       = (Inr results, w')
     \<and> map rr_record_id results = [''b'', ''a''] \<and> snd w' = 0"
proof -
  let ?run = "replay_selected sample_replayer None True False False False [''b'', ''a'', ''b''] (sample_dl_store, 0)"
  have "case fst ?run of Inl e \<Rightarrow> False | Inr rs \<Rightarrow> True" by code_simp
  then obtain results w' where run: "?run = (Inr results, w')" by (cases ?run) (auto split: sum.splits)
  from replay_selected_guarded [OF sample_dl_store_ok sample_replayer_counts run]
  have "map rr_record_id results = from_keys [''b'', ''a'', ''b'']" and "snd w' = 0" by simp_all
  moreover have "from_keys [''b'', ''a'', ''b''] = [''b'', ''a'']" by code_simp
  ultimately show ?thesis using run by (intro exI conjI) simp_all
qed

lemma dry_run_writes:
  "map_option dr_status (dl_get ''a'' (fst (replay_requests (sample_replayer\<lparr>ry_policy := sample_dl_policy\<lparr>dp_max_replay_attempts := 1\<rparr>\<rparr>)
     [(None, False, False, False, ''a''), (None, True, False, False, ''a'')] (sample_dl_store, 0)))) = Some DL_QUARANTINED
   \<and> map_option dr_status (dl_get ''a'' (fst (replay_requests (sample_replayer\<lparr>ry_policy := sample_dl_policy\<lparr>dp_max_replay_attempts := 1\<rparr>\<rparr>)
     [(None, False, False, False, ''a'')] (sample_dl_store, 0)))) = Some DL_ACTIVE"
  by (rule conjI; code_simp)

end
