(* ===== verification/Middleware.thy ===== *)
theory Middleware
  imports Routing Ranking
begin

text \<open>
  \<open>broka/middleware/pipeline.py\<close>: named middleware layers, their order, the selection by route
  and the nesting of the selected layers around a terminal call. Calling a coroutine function only
  builds an awaitable, so a call is a function from the context to an awaited computation on a
  world \<open>'w\<close>, or None when what it returned cannot be awaited.
\<close>

type_synonym ('c, 'r, 'w) next_call = "'c \<Rightarrow> ('w \<Rightarrow> 'r result \<times> 'w) option"
type_synonym ('c, 'r, 'w) middleware = "'c \<Rightarrow> ('c, 'r, 'w) next_call \<Rightarrow> ('w \<Rightarrow> 'r result \<times> 'w) option"

record ('c, 'r, 'w) mw_callable =
  mw_async :: bool
  mw_name :: string
  mw_call :: "('c, 'r, 'w) middleware"

record ('c, 'r, 'w) mw_registration =
  mr_name :: string
  mr_middleware :: "('c, 'r, 'w) mw_callable"
  mr_order :: int
  mr_sequence :: int
  mr_routes :: "handler_pattern list"

record ('c, 'r, 'w) pipeline =
  pl_registrations :: "(string, ('c, 'r, 'w) mw_registration) dict"
  pl_sequence :: int

definition empty_pipeline :: "('c, 'r, 'w) pipeline" where
  "empty_pipeline = \<lparr>pl_registrations = [], pl_sequence = 0\<rparr>"

definition mw_rank :: "('c, 'r, 'w) mw_registration \<Rightarrow> int \<times> int" where
  "mw_rank r = (mr_order r, mr_sequence r)"

definition mw_registrations :: "('c, 'r, 'w) pipeline \<Rightarrow> ('c, 'r, 'w) mw_registration list" where
  "mw_registrations pl = sort_key mw_rank (dict_values (pl_registrations pl))"

definition mw_names :: "('c, 'r, 'w) pipeline \<Rightarrow> string list" where
  "mw_names pl = map mr_name (mw_registrations pl)"

text \<open>The \<open>routes\<close> argument: nothing, one pattern, or several.\<close>

datatype mw_routes = MR_none | MR_one pattern_like | MR_many "pattern_like list"

fun patterns_of :: "pattern_like list \<Rightarrow> handler_pattern list result" where
  "patterns_of [] = Inr []"
| "patterns_of (p # ps) =
     (case as_pattern p None None of
        Inl e \<Rightarrow> Inl e
      | Inr x \<Rightarrow> (case patterns_of ps of Inl e \<Rightarrow> Inl e | Inr xs \<Rightarrow> Inr (x # xs)))"

fun normalise_routes :: "mw_routes \<Rightarrow> handler_pattern list result" where
  "normalise_routes MR_none = Inr []"
| "normalise_routes (MR_one p) = patterns_of [p]"
| "normalise_routes (MR_many ps) = patterns_of ps"

definition mw_register ::
  "('c, 'r, 'w) mw_callable \<Rightarrow> string option \<Rightarrow> int \<Rightarrow> mw_routes \<Rightarrow> ('c, 'r, 'w) pipeline
   \<Rightarrow> ('c, 'r, 'w) mw_registration result \<times> ('c, 'r, 'w) pipeline"
where
  "mw_register f name order routes pl =
     (if \<not> mw_async f then (raise MiddlewareError, pl)
      else
        let pl1 = pl\<lparr>pl_sequence := pl_sequence pl + 1\<rparr>;
            registration_name = (case name of None \<Rightarrow> mw_name f | Some n \<Rightarrow> if n = [] then mw_name f else n)
        in if dict_has (pl_registrations pl) registration_name then (raise MiddlewareError, pl1)
           else case normalise_routes routes of
               Inl e \<Rightarrow> (Inl e, pl1)
             | Inr patterns \<Rightarrow>
                 let r = \<lparr>mr_name = registration_name, mr_middleware = f, mr_order = order,
                          mr_sequence = pl_sequence pl1, mr_routes = patterns\<rparr>
                 in (Inr r, pl1\<lparr>pl_registrations := dict_set registration_name r (pl_registrations pl1)\<rparr>))"

definition mw_unregister ::
  "string \<Rightarrow> ('c, 'r, 'w) pipeline \<Rightarrow> ('c, 'r, 'w) mw_registration result \<times> ('c, 'r, 'w) pipeline"
where
  "mw_unregister name pl =
     (case dict_get (pl_registrations pl) name of
        None \<Rightarrow> (raise MiddlewareError, pl)
      | Some r \<Rightarrow> (Inr r, pl\<lparr>pl_registrations := dict_del name (pl_registrations pl)\<rparr>))"

definition mw_get :: "string \<Rightarrow> ('c, 'r, 'w) pipeline \<Rightarrow> ('c, 'r, 'w) mw_registration result" where
  "mw_get name pl =
     (case dict_get (pl_registrations pl) name of None \<Rightarrow> raise MiddlewareError | Some r \<Rightarrow> Inr r)"

definition mw_clear :: "('c, 'r, 'w) pipeline \<Rightarrow> ('c, 'r, 'w) pipeline" where
  "mw_clear pl = pl\<lparr>pl_registrations := []\<rparr>"

text \<open>\<open>any\<close> over a test that may raise: it stops at the first success or error.\<close>

fun any_result :: "('a \<Rightarrow> bool result) \<Rightarrow> 'a list \<Rightarrow> bool result" where
  "any_result P [] = Inr False"
| "any_result P (x # xs) =
     (case P x of Inl e \<Rightarrow> Inl e | Inr b \<Rightarrow> if b then Inr True else any_result P xs)"

definition mw_selected ::
  "route_like option \<Rightarrow> headers option \<Rightarrow> ('c, 'r, 'w) mw_registration \<Rightarrow> bool result"
where
  "mw_selected route hs r =
     (if mr_routes r = [] then Inr True
      else case route of
        None \<Rightarrow> Inr False
      | Some x \<Rightarrow> any_result (\<lambda>p. route_matches (PL_pattern p) x hs None None) (mr_routes r))"

fun select_layers ::
  "route_like option \<Rightarrow> headers option \<Rightarrow> ('c, 'r, 'w) mw_registration list
   \<Rightarrow> ('c, 'r, 'w) mw_registration list \<Rightarrow> ('c, 'r, 'w) mw_registration list result"
where
  "select_layers route hs [] selected = Inr selected"
| "select_layers route hs (r # rs) selected =
     (case mw_selected route hs r of
        Inl e \<Rightarrow> Inl e
      | Inr b \<Rightarrow> select_layers route hs rs (if b then selected @ [r] else selected))"

definition applicable ::
  "route_like option \<Rightarrow> headers option \<Rightarrow> ('c, 'r, 'w) pipeline
   \<Rightarrow> ('c, 'r, 'w) mw_registration list result"
where
  "applicable route hs pl = select_layers route hs (mw_registrations pl) []"

subsection \<open>Running a pipeline\<close>

definition layer ::
  "('c, 'r, 'w) mw_registration \<Rightarrow> ('c, 'r, 'w) next_call \<Rightarrow> ('c, 'r, 'w) next_call"
where
  "layer r following =
     (\<lambda>c. Some (\<lambda>w. case mw_call (mr_middleware r) c following of
                       None \<Rightarrow> (raise MiddlewareError, w)
                     | Some awaited \<Rightarrow> awaited w))"

text \<open>The loop over the reversed selection.\<close>

fun wrap_layers ::
  "('c, 'r, 'w) mw_registration list \<Rightarrow> ('c, 'r, 'w) next_call \<Rightarrow> ('c, 'r, 'w) next_call"
where
  "wrap_layers [] next_callable = next_callable"
| "wrap_layers (r # rs) next_callable = wrap_layers rs (layer r next_callable)"

definition mw_run ::
  "('c, 'r, 'w) pipeline \<Rightarrow> 'c \<Rightarrow> ('c, 'r, 'w) next_call \<Rightarrow> route_like option \<Rightarrow> headers option \<Rightarrow> 'w
   \<Rightarrow> 'r result \<times> 'w"
where
  "mw_run pl context terminal route hs w =
     (case applicable route hs pl of
        Inl e \<Rightarrow> (Inl e, w)
      | Inr selected \<Rightarrow>
          (case wrap_layers (rev selected) terminal context of
             None \<Rightarrow> (raise MiddlewareError, w)
           | Some awaited \<Rightarrow> awaited w))"

subsection \<open>The pipeline's invariant\<close>

definition pipeline_ok :: "('c, 'r, 'w) pipeline \<Rightarrow> bool" where
  "pipeline_ok pl \<longleftrightarrow>
     dict_ok (pl_registrations pl)
     \<and> (\<forall>(k, r) \<in> set (pl_registrations pl). mr_name r = k \<and> mr_sequence r \<le> pl_sequence pl)
     \<and> distinct (map (mr_sequence \<circ> snd) (pl_registrations pl))"

lemma pipeline_ok_empty [inv_intros]: "pipeline_ok empty_pipeline"
  by (simp add: pipeline_ok_def empty_pipeline_def)

lemma pipeline_ok_next: "pipeline_ok pl \<Longrightarrow> pipeline_ok (pl\<lparr>pl_sequence := pl_sequence pl + 1\<rparr>)"
  by (fastforce simp: pipeline_ok_def)

lemma pipeline_ok_store:
  assumes "pipeline_ok pl" and "mr_name r = k" and "mr_sequence r = pl_sequence pl + 1"
  shows "pipeline_ok (pl\<lparr>pl_sequence := pl_sequence pl + 1,
                         pl_registrations := dict_set k r (pl_registrations pl)\<rparr>)"
  using assms set_dict_set_subset [of k r "pl_registrations pl"]
  by (fastforce simp: pipeline_ok_def comp_def intro!: dict_ok_set distinct_map_dict_set)

lemma pipeline_ok_register [inv_intros]:
  "pipeline_ok pl \<Longrightarrow> pipeline_ok (snd (mw_register f name order routes pl))"
  by (auto simp: mw_register_def Let_def split: sum.splits intro!: pipeline_ok_store pipeline_ok_next)

lemma pipeline_ok_unregister [inv_intros]:
  "pipeline_ok pl \<Longrightarrow> pipeline_ok (snd (mw_unregister name pl))"
  using set_dict_del_subset [of name "pl_registrations pl"]
  by (fastforce simp: mw_unregister_def pipeline_ok_def distinct_map_dict_del dict_ok_del
        split: option.splits)

lemma pipeline_ok_clear [inv_intros]: "pipeline_ok pl \<Longrightarrow> pipeline_ok (mw_clear pl)"
  by (simp add: pipeline_ok_def mw_clear_def)

inductive pipeline_reachable :: "('c, 'r, 'w) pipeline \<Rightarrow> bool" where
  pipeline_start: "pipeline_reachable empty_pipeline"
| pipeline_register: "pipeline_reachable pl \<Longrightarrow> pipeline_reachable (snd (mw_register f name order routes pl))"
| pipeline_unregister: "pipeline_reachable pl \<Longrightarrow> pipeline_reachable (snd (mw_unregister name pl))"
| pipeline_clear: "pipeline_reachable pl \<Longrightarrow> pipeline_reachable (mw_clear pl)"

lemma pipeline_reachable_ok: "pipeline_reachable pl \<Longrightarrow> pipeline_ok pl"
  by (induction rule: pipeline_reachable.induct) (rule inv_intros | assumption)+

interpretation layers: ranked_registry "\<lambda>pl. dict_values (pl_registrations pl)" mw_rank pipeline_ok
proof
  fix pl :: "('a, 'b, 'c) pipeline"
  assume "pipeline_ok pl"
  then have "distinct (map (mr_sequence \<circ> snd) (pl_registrations pl))" by (simp add: pipeline_ok_def)
  then show "distinct (map mw_rank (dict_values (pl_registrations pl)))"
    by (auto simp: dict_values_def mw_rank_def distinct_map inj_on_def)
qed

lemma select_layers_Inr:
  "select_layers route hs rs acc = Inr selected \<Longrightarrow>
   selected = acc @ filter (\<lambda>r. mw_selected route hs r = Inr True) rs"
proof (induction rs arbitrary: acc)
  case (Cons r rs)
  then show ?case
    by (cases "mw_selected route hs r") (use Cons.IH [of "acc @ [r]"] Cons.IH [of acc] in \<open>auto split: if_splits\<close>)
qed simp

lemma applicable_Inr:
  "applicable route hs pl = Inr selected \<Longrightarrow>
   selected = filter (\<lambda>r. mw_selected route hs r = Inr True) (mw_registrations pl)"
  unfolding applicable_def by (drule select_layers_Inr) simp

lemma wrap_layers_rev: "wrap_layers (rev rs) terminal = foldr layer rs terminal"
proof -
  have "wrap_layers xs terminal = fold layer xs terminal" for xs
    by (induction xs arbitrary: terminal) simp_all
  then show ?thesis by (simp add: foldr_conv_fold)
qed

subsection \<open>Layers that write down what happens\<close>

datatype trace_event = Entered string | Exited string | Reached

datatype 'r mw_kind = Passes | Answers 'r | Fails pyexc

text \<open>
  A layer that notes its entry and either calls the next one and notes its return, or answers
  itself, or raises.
\<close>

definition scripted :: "string \<Rightarrow> 'r mw_kind \<Rightarrow> ('c, 'r, trace_event list) middleware" where
  "scripted name kind c following =
     Some (\<lambda>w. let w1 = w @ [Entered name]
       in case kind of
         Answers r \<Rightarrow> (Inr r, w1 @ [Exited name])
       | Fails e \<Rightarrow> (Inl e, w1)
       | Passes \<Rightarrow>
           (case following c of
              None \<Rightarrow> (raise TypeError, w1)
            | Some awaited \<Rightarrow>
                (case awaited w1 of
                   (Inl e, w2) \<Rightarrow> (Inl e, w2)
                 | (Inr r, w2) \<Rightarrow> (Inr r, w2 @ [Exited name]))))"

text \<open>The outcome of the first layer that does not pass the call on, or of the terminal call.\<close>

fun innermost :: "(string \<Rightarrow> 'r mw_kind) \<Rightarrow> string list \<Rightarrow> 'r result \<Rightarrow> 'r result \<times> trace_event list" where
  "innermost kind [] result = (result, [Reached])"
| "innermost kind (n # ns) result =
     (case kind n of
        Passes \<Rightarrow> innermost kind ns result
      | Answers r \<Rightarrow> (Inr r, [Entered n, Exited n])
      | Fails e \<Rightarrow> (Inl e, [Entered n]))"

definition passing :: "(string \<Rightarrow> 'r mw_kind) \<Rightarrow> string list \<Rightarrow> string list" where
  "passing kind ns = takeWhile (\<lambda>n. kind n = Passes) ns"

lemma layer_call:
  "layer r following c =
     Some (\<lambda>w. case mw_call (mr_middleware r) c following of
                 None \<Rightarrow> (raise MiddlewareError, w) | Some awaited \<Rightarrow> awaited w)"
  by (simp add: layer_def)

lemma scripted_layers:
  assumes "\<forall>r \<in> set rs. mw_call (mr_middleware r) = scripted (mr_name r) (kind (mr_name r))"
  shows "\<exists>awaited. foldr layer rs (\<lambda>c. Some (\<lambda>w. (result, w @ [Reached]))) c = Some awaited
    \<and> (\<forall>w. awaited w =
        (let ns = map mr_name rs; outer = passing kind ns; (inner, events) = innermost kind ns result
         in (inner, w @ map Entered outer @ events @ (if is_ok inner then rev (map Exited outer) else []))))"
  using assms
proof (induction rs)
  case Nil
  show ?case by (simp add: passing_def)
next
  case (Cons r rs)
  define following where "following = foldr layer rs (\<lambda>c. Some (\<lambda>w. (result, w @ [Reached])))"
  let ?ns = "map mr_name rs"
  from Cons obtain awaited where rest: "following c = Some awaited"
    and spec: "\<And>w. awaited w =
        (let outer = passing kind ?ns; (inner, events) = innermost kind ?ns result
         in (inner, w @ map Entered outer @ events @ (if is_ok inner then rev (map Exited outer) else [])))"
    by (auto simp: Let_def following_def)
  have here: "foldr layer (r # rs) (\<lambda>c. Some (\<lambda>w. (result, w @ [Reached]))) c = layer r following c"
    by (simp add: following_def)
  have call: "mw_call (mr_middleware r) = scripted (mr_name r) (kind (mr_name r))"
    using Cons.prems by simp
  obtain inner events where inner: "innermost kind ?ns result = (inner, events)" by (rule prod.exhaust)
  show ?case
  proof (cases "kind (mr_name r)")
    case Passes
    with call rest spec inner show ?thesis
      unfolding here layer_call [of r following c]
      by (cases inner) (auto simp: scripted_def passing_def Let_def)
  next
    case (Answers x)
    with call show ?thesis
      unfolding here layer_call [of r following c] by (simp add: scripted_def passing_def)
  next
    case (Fails e)
    with call show ?thesis
      unfolding here layer_call [of r following c] by (simp add: scripted_def passing_def)
  qed
qed

subsection \<open>Properties\<close>

text \<open>
  A pipeline runs exactly the layers that apply, in one fixed order. After any sequence of
  registrations and removals, the layers selected for a route are those registered for every
  route or for a matching one, each once, by ascending order and then by registration sequence, and no
  other list of these layers is ordered so.
\<close>

theorem middleware_selection_exact:
  assumes "pipeline_reachable pl" and "applicable route hs pl = Inr selected"
  shows "set selected = {r. (\<exists>k. dict_get (pl_registrations pl) k = Some r) \<and> mw_selected route hs r = Inr True}
    \<and> sorted (map mw_rank selected) \<and> distinct selected
    \<and> (\<forall>rs. set rs = set selected \<longrightarrow> sorted (map mw_rank rs) \<longrightarrow> distinct rs \<longrightarrow> rs = selected)"
proof -
  have ok: "pipeline_ok pl" by (rule pipeline_reachable_ok [OF assms(1)])
  have sel: "selected = filter (\<lambda>r. mw_selected route hs r = Inr True) (mw_registrations pl)"
    by (rule applicable_Inr [OF assms(2)])
  have order: "sorted (map mw_rank selected)" "distinct selected"
    using layers.filter_ordered [OF ok] by (simp_all add: sel mw_registrations_def)
  have "dict_ok (pl_registrations pl)" using ok by (simp add: pipeline_ok_def)
  then have members: "set selected = {r. (\<exists>k. dict_get (pl_registrations pl) k = Some r)
      \<and> mw_selected route hs r = Inr True}"
    by (force simp: sel mw_registrations_def dict_values_def dict_get_eq_Some)
  have "inj_on mw_rank (set (dict_values (pl_registrations pl)))"
    using layers.ranks_distinct [OF ok] by (simp add: distinct_map)
  then have inj: "inj_on mw_rank (set selected)"
    by (rule inj_on_subset) (auto simp: sel mw_registrations_def)
  have "rs = selected" if "set rs = set selected" "sorted (map mw_rank rs)" "distinct rs" for rs
  proof -
    have "map mw_rank rs = map mw_rank selected"
      using that order inj by (intro sorted_distinct_set_unique) (auto simp: distinct_map)
    moreover have "inj_on mw_rank (set rs \<union> set selected)" using that(1) inj by simp
    ultimately show ?thesis by (rule map_inj_on)
  qed
  with members order show ?thesis by blast
qed

text \<open>
  C19: the layers nest. The first selected layer is entered first and left last: the call
  runs inwards through the layers that pass it on, ends at the first one that answers or
  raises or else at the terminal call, which is reached only if every layer passes, and a result comes back out
  through exactly the layers it went in by, in reverse; an exception leaves them all
  unfinished.
\<close>

theorem middleware_onion:
  assumes "applicable route hs pl = Inr selected"
    and "\<forall>r \<in> set selected. mw_call (mr_middleware r) = scripted (mr_name r) (kind (mr_name r))"
  shows "mw_run pl c (\<lambda>c. Some (\<lambda>w. (result, w @ [Reached]))) route hs w =
    (let ns = map mr_name selected; outer = passing kind ns; (inner, events) = innermost kind ns result
     in (inner, w @ map Entered outer @ events @ (if is_ok inner then rev (map Exited outer) else [])))"
  using scripted_layers [OF assms(2), of result c]
  by (auto simp: mw_run_def assms(1) wrap_layers_rev)

definition sample_layer :: "string \<Rightarrow> nat mw_kind \<Rightarrow> (nat, nat, trace_event list) mw_callable" where
  "sample_layer n kind = \<lparr>mw_async = True, mw_name = n, mw_call = scripted n kind\<rparr>"

definition sample_pipeline :: "(nat, nat, trace_event list) pipeline" where
  "sample_pipeline =
     snd (mw_register (sample_layer ''b'' Passes) None 0 MR_none
       (snd (mw_register (sample_layer ''c'' Passes) None 5 (MR_one (PL_str ''orders.*''))
         (snd (mw_register (sample_layer ''a'' Passes) None (- 1) MR_none empty_pipeline)))))"

lemma sample_pipeline_reachable: "pipeline_reachable sample_pipeline"
  unfolding sample_pipeline_def
  by (intro pipeline_register pipeline_start)

lemma sample_pipeline_applicable:
  "map_sum (\<lambda>e. ()) (map mr_name) (applicable (Some (RL_str ''orders.new'')) None sample_pipeline)
     = Inr [''a'', ''b'', ''c'']"
  by code_simp

lemma sample_selected:
  obtains selected where "applicable (Some (RL_str ''orders.new'')) None sample_pipeline = Inr selected"
    and "map mr_name selected = [''a'', ''b'', ''c'']"
  using sample_pipeline_applicable
  by (cases "applicable (Some (RL_str ''orders.new'')) None sample_pipeline") auto

theorem middleware_selection_exact_witness:
  "\<exists>selected. applicable (Some (RL_str ''orders.new'')) None sample_pipeline = Inr selected
     \<and> map mr_name selected = [''a'', ''b'', ''c''] \<and> sorted (map mw_rank selected)"
proof (rule sample_selected)
  fix selected
  assume sel: "applicable (Some (RL_str ''orders.new'')) None sample_pipeline = Inr selected"
    and names: "map mr_name selected = [''a'', ''b'', ''c'']"
  from middleware_selection_exact [OF sample_pipeline_reachable sel] sel names
  show ?thesis by (intro exI [of _ selected]) simp
qed

lemma sample_layers_scripted:
  "list_all (\<lambda>r. mr_name r \<in> {''a'', ''b'', ''c''}) (mw_registrations sample_pipeline)
   \<and> (\<forall>r \<in> set (mw_registrations sample_pipeline). mw_call (mr_middleware r) = scripted (mr_name r) Passes)"
proof
  show "list_all (\<lambda>r. mr_name r \<in> {''a'', ''b'', ''c''}) (mw_registrations sample_pipeline)" by code_simp
  have "set (mw_registrations sample_pipeline) = snd ` set (pl_registrations sample_pipeline)"
    by (simp add: mw_registrations_def dict_values_def)
  moreover have "normalise_routes (MR_one (PL_str ''orders.*'')) \<noteq> Inl e" for e
    by (cases "normalise_routes (MR_one (PL_str ''orders.*''))"; code_simp)
  ultimately show "\<forall>r \<in> set (mw_registrations sample_pipeline). mw_call (mr_middleware r) = scripted (mr_name r) Passes"
    by (auto simp: sample_pipeline_def mw_register_def empty_pipeline_def Let_def sample_layer_def
        dict_has_def split: sum.splits)
qed

theorem middleware_onion_witness:
  "mw_run sample_pipeline 0 (\<lambda>c. Some (\<lambda>w. (Inr 7, w @ [Reached]))) (Some (RL_str ''orders.new'')) None [] =
     (Inr 7, [Entered ''a'', Entered ''b'', Entered ''c'', Reached, Exited ''c'', Exited ''b'', Exited ''a''])"
proof (rule sample_selected)
  fix selected
  assume sel: "applicable (Some (RL_str ''orders.new'')) None sample_pipeline = Inr selected"
    and names: "map mr_name selected = [''a'', ''b'', ''c'']"
  have "\<forall>r \<in> set selected. mw_call (mr_middleware r) = scripted (mr_name r) ((\<lambda>n. Passes) (mr_name r))"
    using sample_layers_scripted applicable_Inr [OF sel] by simp
  from middleware_onion [OF sel this, of 0 "Inr 7" "[]"] names show ?thesis
    by (simp add: passing_def)
qed

end
