(* ===== verification/Memory.thy ===== *)
theory Memory
  imports InProcess "HOL-Library.Multiset"
begin

text \<open>
  \<open>broka/engines/memory.py\<close>: consumers with a bounded queue and a fixed set of worker tasks, and the
  engine that fans a publish out over them. The tasks of one consumer (its workers, the
  publishers that wait for room, the closing task) interleave at their suspension points, so a consumer is a
  transition system: \<open>mem_step\<close> performs one labelled step, or is None where the step is not possible.
  Which step comes next is left open, also which of several waiting publishers is admitted.
\<close>

datatype overflow_policy = OP_BLOCK | OP_REJECT | OP_DROP_NEWEST

text \<open>
  Where a worker is suspended: in \<open>queue.get\<close>, in \<open>resumed.wait\<close>, in the callback, in the
  deferral sleep or in the \<open>queue.put\<close> of a requeue; a stopped worker's task has ended.
\<close>

datatype worker =
    Idle | Waiting in_item | Handling in_item | Deferred in_item | Requeueing in_item | Stopped

text \<open>Where the closing task is: not started, in \<open>queue.join\<close>, putting sentinels, in \<open>gather\<close>, done.\<close>

datatype close_phase = CP_open | CP_joining | CP_sentinels nat | CP_gathering | CP_finished

record mem_consumer =
  mc_subscription :: engine_subscription
  mc_queue :: "in_item option list"
  mc_unfinished :: nat
  mc_putters :: "in_item list"
  mc_closed :: bool
  mc_resumed :: bool
  mc_workers :: "worker list"
  mc_error :: "exc_class option"
  mc_phase :: close_phase

definition new_mem_consumer :: "engine_subscription \<Rightarrow> mem_consumer" where
  "new_mem_consumer s =
     \<lparr>mc_subscription = s, mc_queue = [], mc_unfinished = 0, mc_putters = [], mc_closed = False,
      mc_resumed = True, mc_workers = [], mc_error = None, mc_phase = CP_open\<rparr>"

definition start_workers :: "mem_consumer \<Rightarrow> mem_consumer" where
  "start_workers c =
     c\<lparr>mc_workers := mc_workers c @ replicate (nat (es_concurrency (mc_subscription c))) Idle\<rparr>"

subsection \<open>asyncio.Queue\<close>

definition queue_full :: "mem_consumer \<Rightarrow> bool" where
  "queue_full c \<longleftrightarrow> es_capacity (mc_subscription c) \<le> int (length (mc_queue c))"

definition put_nowait :: "in_item option \<Rightarrow> mem_consumer \<Rightarrow> mem_consumer" where
  "put_nowait x c = c\<lparr>mc_queue := mc_queue c @ [x], mc_unfinished := mc_unfinished c + 1\<rparr>"

definition task_done :: "mem_consumer \<Rightarrow> mem_consumer" where
  "task_done c = c\<lparr>mc_unfinished := mc_unfinished c - 1\<rparr>"

subsection \<open>Operations and steps of a consumer\<close>

datatype enqueue_outcome = EQ_accepted | EQ_refused | EQ_suspended | EQ_raised

definition enqueue :: "overflow_policy \<Rightarrow> in_item \<Rightarrow> mem_consumer \<Rightarrow> enqueue_outcome \<times> mem_consumer" where
  "enqueue policy it c =
     (if mc_closed c then (EQ_refused, c)
      else if policy = OP_BLOCK
      then (if queue_full c then (EQ_suspended, c\<lparr>mc_putters := mc_putters c @ [it]\<rparr>)
            else (EQ_accepted, put_nowait (Some it) c))
      else if queue_full c then (if policy = OP_DROP_NEWEST then (EQ_refused, c) else (EQ_raised, c))
      else (EQ_accepted, put_nowait (Some it) c))"

definition set_worker :: "nat \<Rightarrow> worker \<Rightarrow> mem_consumer \<Rightarrow> mem_consumer" where
  "set_worker i s c = c\<lparr>mc_workers := (mc_workers c)[i := s]\<rparr>"

definition worker_at :: "mem_consumer \<Rightarrow> nat \<Rightarrow> worker option" where
  "worker_at c i = (if i < length (mc_workers c) then Some (mc_workers c ! i) else None)"

definition mem_pause :: "mem_consumer \<Rightarrow> mem_consumer" where
  "mem_pause c = c\<lparr>mc_resumed := False\<rparr>"

definition mem_resume :: "mem_consumer \<Rightarrow> mem_consumer" where
  "mem_resume c = c\<lparr>mc_resumed := True\<rparr>"

text \<open>The worker's loop, cut at its suspension points.\<close>

definition worker_take :: "nat \<Rightarrow> mem_consumer \<Rightarrow> mem_consumer option" where
  "worker_take i c =
     (if worker_at c i \<noteq> Some Idle then None
      else case mc_queue c of
        [] \<Rightarrow> None
      | Some it # q \<Rightarrow> Some (set_worker i (Waiting it) (c\<lparr>mc_queue := q\<rparr>))
      | None # q \<Rightarrow> Some (task_done (set_worker i Stopped (c\<lparr>mc_queue := q\<rparr>))))"

definition worker_start :: "nat \<Rightarrow> mem_consumer \<Rightarrow> mem_consumer option" where
  "worker_start i c =
     (case worker_at c i of
        Some (Waiting it) \<Rightarrow> if mc_resumed c then Some (set_worker i (Handling it) c) else None
      | _ \<Rightarrow> None)"

definition put_back :: "nat \<Rightarrow> in_item \<Rightarrow> mem_consumer \<Rightarrow> mem_consumer" where
  "put_back i it c =
     (if mc_closed c then task_done (set_worker i Idle c) else set_worker i (Requeueing (again it)) c)"

definition worker_return :: "nat \<Rightarrow> inproc_ack \<Rightarrow> mem_consumer \<Rightarrow> mem_consumer option" where
  "worker_return i k c =
     (case worker_at c i of
        Some (Handling it) \<Rightarrow>
          Some (if ia_action k = AA_DEFER then set_worker i (Deferred it) c
                else if ia_action k = AA_REQUEUE then put_back i it c
                else task_done (set_worker i Idle c))
      | _ \<Rightarrow> None)"

definition worker_raise :: "nat \<Rightarrow> pyexc \<Rightarrow> mem_consumer \<Rightarrow> mem_consumer option" where
  "worker_raise i e c =
     (case worker_at c i of
        Some (Handling it) \<Rightarrow>
          Some (if is_exception e
                then task_done (set_worker i Idle (c\<lparr>mc_error := Some (exc_cls e)\<rparr>))
                else task_done (set_worker i Stopped c))
      | _ \<Rightarrow> None)"

definition worker_wake :: "nat \<Rightarrow> mem_consumer \<Rightarrow> mem_consumer option" where
  "worker_wake i c =
     (case worker_at c i of Some (Deferred it) \<Rightarrow> Some (put_back i it c) | _ \<Rightarrow> None)"

definition worker_put :: "nat \<Rightarrow> mem_consumer \<Rightarrow> mem_consumer option" where
  "worker_put i c =
     (case worker_at c i of
        Some (Requeueing it) \<Rightarrow>
          if queue_full c then None else Some (task_done (set_worker i Idle (put_nowait (Some it) c)))
      | _ \<Rightarrow> None)"

text \<open>A publisher that waits in \<open>queue.put\<close> finds room.\<close>

definition admit :: "nat \<Rightarrow> mem_consumer \<Rightarrow> mem_consumer option" where
  "admit k c =
     (if k < length (mc_putters c) \<and> \<not> queue_full c
      then Some (put_nowait (Some (mc_putters c ! k))
             (c\<lparr>mc_putters := take k (mc_putters c) @ drop (Suc k) (mc_putters c)\<rparr>))
      else None)"

definition worker_items :: "worker \<Rightarrow> in_item list" where
  "worker_items s =
     (case s of Waiting it \<Rightarrow> [it] | Handling it \<Rightarrow> [it] | Deferred it \<Rightarrow> [it] | Requeueing it \<Rightarrow> [it]
      | Idle \<Rightarrow> [] | Stopped \<Rightarrow> [])"

definition busy_items :: "mem_consumer \<Rightarrow> in_item list" where
  "busy_items c = concat (map worker_items (mc_workers c))"

text \<open>
  \<open>close\<close>: it opens the pause gate and joins the queue; when the join completes in time it puts one sentinel for
  each worker, otherwise it cancels the workers (a cancelled worker gives its item up); then it waits for all of them.
\<close>

definition mem_close :: "mem_consumer \<Rightarrow> mem_consumer" where
  "mem_close c =
     (if mc_closed c then c else c\<lparr>mc_closed := True, mc_resumed := True, mc_phase := CP_joining\<rparr>)"

definition close_joined :: "mem_consumer \<Rightarrow> mem_consumer option" where
  "close_joined c =
     (if mc_phase c = CP_joining \<and> mc_unfinished c = 0
      then Some (c\<lparr>mc_phase := CP_sentinels (length (mc_workers c))\<rparr>) else None)"

definition close_sentinel :: "mem_consumer \<Rightarrow> mem_consumer option" where
  "close_sentinel c =
     (case mc_phase c of
        CP_sentinels 0 \<Rightarrow> Some (c\<lparr>mc_phase := CP_gathering\<rparr>)
      | CP_sentinels (Suc n) \<Rightarrow>
          if queue_full c then None else Some (put_nowait None (c\<lparr>mc_phase := CP_sentinels n\<rparr>))
      | _ \<Rightarrow> None)"

definition close_timeout :: "mem_consumer \<Rightarrow> mem_consumer option" where
  "close_timeout c =
     (if mc_phase c = CP_joining
      then Some (c\<lparr>mc_workers := replicate (length (mc_workers c)) Stopped,
                   mc_unfinished := mc_unfinished c - length (busy_items c), mc_phase := CP_gathering\<rparr>)
      else None)"

definition close_finished :: "mem_consumer \<Rightarrow> mem_consumer option" where
  "close_finished c =
     (if mc_phase c = CP_gathering \<and> list_all (\<lambda>s. s = Stopped) (mc_workers c)
      then Some (c\<lparr>mc_workers := [], mc_phase := CP_finished\<rparr>) else None)"

datatype mem_label =
    L_enqueue overflow_policy in_item | L_admit nat
  | L_take nat | L_start nat | L_return nat inproc_ack | L_raise nat pyexc | L_wake nat | L_put nat
  | L_pause | L_resume | L_close | L_joined | L_sentinel | L_timeout | L_finished

fun mem_step :: "mem_label \<Rightarrow> mem_consumer \<Rightarrow> mem_consumer option" where
  "mem_step (L_enqueue policy it) c = Some (snd (enqueue policy it c))"
| "mem_step (L_admit k) c = admit k c"
| "mem_step (L_take i) c = worker_take i c"
| "mem_step (L_start i) c = worker_start i c"
| "mem_step (L_return i k) c = worker_return i k c"
| "mem_step (L_raise i e) c = worker_raise i e c"
| "mem_step (L_wake i) c = worker_wake i c"
| "mem_step (L_put i) c = worker_put i c"
| "mem_step L_pause c = Some (mem_pause c)"
| "mem_step L_resume c = Some (mem_resume c)"
| "mem_step L_close c = Some (mem_close c)"
| "mem_step L_joined c = close_joined c"
| "mem_step L_sentinel c = close_sentinel c"
| "mem_step L_timeout c = close_timeout c"
| "mem_step L_finished c = close_finished c"

subsection \<open>The engine\<close>

record mem_engine =
  me_policy :: overflow_policy
  me_fail_publishes :: int
  me_connected :: bool
  me_objects :: "mem_consumer list"
  me_consumers :: "(string, nat) dict"
  me_dropped :: nat

definition overflow_of :: "string \<Rightarrow> overflow_policy result" where
  "overflow_of s =
     (if s = ''block'' then Inr OP_BLOCK else if s = ''reject'' then Inr OP_REJECT
      else if s = ''drop-newest'' then Inr OP_DROP_NEWEST else raise ValueError)"

definition new_mem_engine :: "string \<Rightarrow> int \<Rightarrow> mem_engine result" where
  "new_mem_engine policy fail_publishes =
     (case overflow_of policy of
        Inl e \<Rightarrow> Inl e
      | Inr p \<Rightarrow> Inr \<lparr>me_policy = p, me_fail_publishes = fail_publishes, me_connected = False,
                      me_objects = [], me_consumers = [], me_dropped = 0\<rparr>)"

definition mem_connect :: "mem_engine \<Rightarrow> mem_engine" where
  "mem_connect e = e\<lparr>me_connected := True\<rparr>"

text \<open>
  The loop of \<open>publish\<close> over the consumers it found. It ends, raises, or is suspended in one
  consumer's queue, with the consumers still to come; \<open>publish_resumed\<close> is the rest of the loop after that
  consumer has admitted the item.
\<close>

datatype publish_progress = PP_done bool | PP_raised pyexc | PP_suspended nat "nat list" bool

fun publish_loop ::
  "in_item \<Rightarrow> nat list \<Rightarrow> bool \<Rightarrow> mem_engine \<Rightarrow> publish_progress \<times> mem_engine"
where
  "publish_loop it [] accepted e = (PP_done accepted, e)"
| "publish_loop it (a # as) accepted e =
     (let c = me_objects e ! a
      in if \<not> mc_closed c \<and> subscription_matches (mc_subscription c) (it_destination it) (it_context it)
         then case enqueue (me_policy e) it c of
             (EQ_accepted, c') \<Rightarrow> publish_loop it as accepted (e\<lparr>me_objects := (me_objects e)[a := c']\<rparr>)
           | (EQ_refused, c') \<Rightarrow>
               publish_loop it as False
                 (e\<lparr>me_objects := (me_objects e)[a := c'], me_dropped := me_dropped e + 1\<rparr>)
           | (EQ_raised, c') \<Rightarrow> (PP_raised (PyExc MemoryBackpressureError False), e)
           | (EQ_suspended, c') \<Rightarrow>
               (PP_suspended a as accepted, e\<lparr>me_objects := (me_objects e)[a := c']\<rparr>)
         else publish_loop it as accepted e)"

definition mem_publish ::
  "string \<Rightarrow> string \<Rightarrow> publish_context \<Rightarrow> mem_engine \<Rightarrow> publish_progress \<times> mem_engine"
where
  "mem_publish destination payload context e =
     (if \<not> me_connected e then (PP_raised (PyExc RuntimeError False), e)
      else if 0 < me_fail_publishes e
      then (PP_raised (PyExc RuntimeError False), e\<lparr>me_fail_publishes := me_fail_publishes e - 1\<rparr>)
      else publish_loop (new_item destination payload context) (dict_values (me_consumers e)) True e)"

definition publish_resumed ::
  "in_item \<Rightarrow> nat list \<Rightarrow> bool \<Rightarrow> mem_engine \<Rightarrow> publish_progress \<times> mem_engine"
where
  "publish_resumed it rest accepted e = publish_loop it rest accepted e"

definition mem_create_consumer :: "engine_subscription \<Rightarrow> mem_engine \<Rightarrow> nat result \<times> mem_engine" where
  "mem_create_consumer s e =
     (if \<not> me_connected e then (raise RuntimeError, e)
      else if dict_has (me_consumers e) (es_id s) then (raise ValueError, e)
      else (Inr (length (me_objects e)),
            e\<lparr>me_objects := me_objects e @ [start_workers (new_mem_consumer s)],
              me_consumers := dict_set (es_id s) (length (me_objects e)) (me_consumers e)\<rparr>))"

text \<open>
  Removing a consumer and disconnecting take consumers out of the dictionary and begin to close them;
  \<open>disconnect\<close> closes them one after the other, so it returns the addresses in that order.
\<close>

definition mem_remove_consumer :: "string \<Rightarrow> mem_engine \<Rightarrow> mem_engine" where
  "mem_remove_consumer k e =
     (case dict_get (me_consumers e) k of
        None \<Rightarrow> e
      | Some a \<Rightarrow> e\<lparr>me_consumers := dict_del k (me_consumers e),
                    me_objects := (me_objects e)[a := mem_close (me_objects e ! a)]\<rparr>)"

definition mem_disconnect :: "mem_engine \<Rightarrow> nat list \<times> mem_engine" where
  "mem_disconnect e =
     (dict_values (me_consumers e), e\<lparr>me_consumers := [], me_connected := False\<rparr>)"

record mem_health =
  mh_connected :: bool
  mh_healthy :: bool
  mh_active :: nat
  mh_queue_depth :: nat
  mh_dropped :: nat
  mh_errors :: "(string \<times> exc_class) list"

definition mem_healthcheck :: "mem_engine \<Rightarrow> mem_health" where
  "mem_healthcheck e =
     (let cs = map (\<lambda>a. me_objects e ! a) (dict_values (me_consumers e));
          errors = concat (map (\<lambda>c. case mc_error c of None \<Rightarrow> []
                                     | Some x \<Rightarrow> [(es_id (mc_subscription c), x)]) cs)
      in \<lparr>mh_connected = me_connected e, mh_healthy = me_connected e \<and> errors = [],
          mh_active = length (me_consumers e),
          mh_queue_depth = sum_list (map (\<lambda>c. length (mc_queue c)) cs), mh_dropped = me_dropped e,
          mh_errors = errors\<rparr>)"

subsection \<open>What enters and what leaves a consumer\<close>

datatype fate = Settled ack_action | Errored exc_class | Discarded

definition arrived :: "mem_label \<Rightarrow> mem_consumer \<Rightarrow> in_item list" where
  "arrived l c =
     (case l of
        L_enqueue policy it \<Rightarrow>
          (if fst (enqueue policy it c) = EQ_accepted \<or> fst (enqueue policy it c) = EQ_suspended
           then [it] else [])
      | _ \<Rightarrow> [])"

definition departed :: "mem_label \<Rightarrow> mem_consumer \<Rightarrow> (in_item \<times> fate) list" where
  "departed l c =
     (case l of
        L_return i k \<Rightarrow>
          (case worker_at c i of
             Some (Handling it) \<Rightarrow>
               if ia_action k = AA_DEFER then []
               else if ia_action k = AA_REQUEUE then (if mc_closed c then [(it, Discarded)] else [])
               else [(it, Settled (ia_action k))]
           | _ \<Rightarrow> [])
      | L_raise i e \<Rightarrow>
          (case worker_at c i of Some (Handling it) \<Rightarrow> [(it, Errored (exc_cls e))] | _ \<Rightarrow> [])
      | L_wake i \<Rightarrow>
          (case worker_at c i of
             Some (Deferred it) \<Rightarrow> if mc_closed c then [(it, Discarded)] else []
           | _ \<Rightarrow> [])
      | L_timeout \<Rightarrow> map (\<lambda>it. (it, Discarded)) (busy_items c)
      | _ \<Rightarrow> [])"

text \<open>A run of steps, with everything that entered and left on the way.\<close>

fun mem_run ::
  "mem_label list \<Rightarrow> mem_consumer \<Rightarrow> (mem_consumer \<times> in_item list \<times> (in_item \<times> fate) list) option"
where
  "mem_run [] c = Some (c, [], [])"
| "mem_run (l # ls) c =
     (case mem_step l c of
        None \<Rightarrow> None
      | Some c1 \<Rightarrow>
          (case mem_run ls c1 of
             None \<Rightarrow> None
           | Some (c2, ins, outs) \<Rightarrow> Some (c2, arrived l c @ ins, departed l c @ outs)))"

definition in_system :: "mem_consumer \<Rightarrow> in_item list" where
  "in_system c = mc_putters c @ List.map_filter (\<lambda>x. x) (mc_queue c) @ busy_items c"

text \<open>An item without its attempt number.\<close>

definition same_message :: "in_item \<Rightarrow> in_item" where
  "same_message it = it\<lparr>it_attempt := 1\<rparr>"

lemma same_message_again [simp]: "same_message (again it) = same_message it"
  by (simp add: same_message_def again_def)

lemma map_filter_append [simp]:
  "List.map_filter f (xs @ ys) = List.map_filter f xs @ List.map_filter f ys"
  by (induction xs) (simp_all add: List.map_filter_simps split: option.splits)

lemma map_filter_Cons [simp]:
  "List.map_filter (\<lambda>x. x) (x # xs) = (case x of None \<Rightarrow> [] | Some y \<Rightarrow> [y]) @ List.map_filter (\<lambda>x. x) xs"
  by (simp add: List.map_filter_simps split: option.splits)

lemma mset_concat_update:
  "i < length xs \<Longrightarrow>
   mset (concat (map f (xs[i := x]))) + mset (f (xs ! i)) = mset (concat (map f xs)) + mset (f x)"
proof (induction xs arbitrary: i)
  case (Cons y ys)
  then show ?case by (cases i) (simp_all add: ac_simps)
qed simp

lemma length_concat_update:
  "i < length xs \<Longrightarrow>
   length (concat (map f (xs[i := x]))) + length (f (xs ! i)) = length (concat (map f xs)) + length (f x)"
  using arg_cong [OF mset_concat_update, of i xs size f x] by simp

text \<open>The multiset of messages that the busy workers hold, and what one worker's move makes of it.\<close>

definition busy_messages :: "mem_consumer \<Rightarrow> in_item multiset" where
  "busy_messages c = image_mset same_message (mset (busy_items c))"

definition worker_messages :: "worker \<Rightarrow> in_item multiset" where
  "worker_messages s = image_mset same_message (mset (worker_items s))"

lemma busy_set_worker:
  assumes "worker_at c i = Some s"
  shows "busy_messages (set_worker i s' c) + worker_messages s = busy_messages c + worker_messages s'"
    and "length (busy_items (set_worker i s' c)) + length (worker_items s)
       = length (busy_items c) + length (worker_items s')"
proof -
  from assms have i: "i < length (mc_workers c)" and s: "mc_workers c ! i = s"
    by (simp_all add: worker_at_def split: if_splits)
  from mset_concat_update [OF i, of worker_items s']
  have "mset (busy_items (set_worker i s' c)) + mset (worker_items s) = mset (busy_items c) + mset (worker_items s')"
    by (simp add: busy_items_def set_worker_def s)
  from arg_cong [OF this, of "image_mset same_message"]
  show "busy_messages (set_worker i s' c) + worker_messages s = busy_messages c + worker_messages s'"
    by (simp add: busy_messages_def worker_messages_def)
  from length_concat_update [OF i, of worker_items s']
  show "length (busy_items (set_worker i s' c)) + length (worker_items s)
      = length (busy_items c) + length (worker_items s')"
    by (simp add: busy_items_def set_worker_def s)
qed

subsection \<open>The consumer's invariant\<close>

definition mem_ok :: "mem_consumer \<Rightarrow> bool" where
  "mem_ok c \<longleftrightarrow>
     1 \<le> es_capacity (mc_subscription c)
     \<and> int (length (mc_queue c)) \<le> es_capacity (mc_subscription c)
     \<and> mc_unfinished c = length (mc_queue c) + length (busy_items c)
     \<and> (mc_closed c \<longleftrightarrow> mc_phase c \<noteq> CP_open)
     \<and> (None \<in> set (mc_queue c) \<longrightarrow> mc_phase c \<noteq> CP_open \<and> mc_phase c \<noteq> CP_joining)"

lemma busy_items_simps [simp]:
  "busy_items (c\<lparr>mc_queue := q\<rparr>) = busy_items c"
  "busy_items (c\<lparr>mc_unfinished := n\<rparr>) = busy_items c"
  "busy_items (c\<lparr>mc_putters := p\<rparr>) = busy_items c"
  "busy_items (c\<lparr>mc_closed := b\<rparr>) = busy_items c"
  "busy_items (c\<lparr>mc_resumed := r\<rparr>) = busy_items c"
  "busy_items (c\<lparr>mc_error := x\<rparr>) = busy_items c"
  "busy_items (c\<lparr>mc_phase := ph\<rparr>) = busy_items c"
  by (simp_all add: busy_items_def)

lemma worker_at_simps [simp]:
  "worker_at (c\<lparr>mc_queue := q\<rparr>) i = worker_at c i"
  "worker_at (c\<lparr>mc_unfinished := n\<rparr>) i = worker_at c i"
  "worker_at (c\<lparr>mc_error := x\<rparr>) i = worker_at c i"
  by (simp_all add: worker_at_def)

lemma worker_items_simps [simp]:
  "worker_items Idle = []" "worker_items Stopped = []" "worker_items (Waiting it) = [it]"
  "worker_items (Handling it) = [it]" "worker_items (Deferred it) = [it]" "worker_items (Requeueing it) = [it]"
  by (simp_all add: worker_items_def)

lemma set_worker_simps [simp]:
  "mc_subscription (set_worker i s c) = mc_subscription c" "mc_queue (set_worker i s c) = mc_queue c"
  "mc_unfinished (set_worker i s c) = mc_unfinished c" "mc_putters (set_worker i s c) = mc_putters c"
  "mc_closed (set_worker i s c) = mc_closed c" "mc_resumed (set_worker i s c) = mc_resumed c"
  "mc_phase (set_worker i s c) = mc_phase c"
  by (simp_all add: set_worker_def)

lemma task_done_simps [simp]:
  "mc_subscription (task_done c) = mc_subscription c" "mc_queue (task_done c) = mc_queue c"
  "mc_unfinished (task_done c) = mc_unfinished c - 1" "mc_putters (task_done c) = mc_putters c"
  "mc_closed (task_done c) = mc_closed c" "mc_resumed (task_done c) = mc_resumed c"
  "mc_phase (task_done c) = mc_phase c" "busy_items (task_done c) = busy_items c"
  by (simp_all add: task_done_def)

lemma put_nowait_simps [simp]:
  "mc_subscription (put_nowait x c) = mc_subscription c" "mc_queue (put_nowait x c) = mc_queue c @ [x]"
  "mc_unfinished (put_nowait x c) = mc_unfinished c + 1" "mc_putters (put_nowait x c) = mc_putters c"
  "mc_closed (put_nowait x c) = mc_closed c" "mc_resumed (put_nowait x c) = mc_resumed c"
  "mc_phase (put_nowait x c) = mc_phase c" "busy_items (put_nowait x c) = busy_items c"
  "worker_at (put_nowait x c) i = worker_at c i"
  by (simp_all add: put_nowait_def worker_at_def busy_items_def)

lemma mem_ok_put:
  "mem_ok c \<Longrightarrow> \<not> queue_full c \<Longrightarrow> x \<noteq> None \<or> mc_phase c \<noteq> CP_open \<and> mc_phase c \<noteq> CP_joining \<Longrightarrow>
   mem_ok (put_nowait x c)"
  by (auto simp: mem_ok_def queue_full_def)

lemma busy_items_no_workers: "busy_items (c\<lparr>mc_workers := replicate n Stopped\<rparr>) = []"
  by (simp add: busy_items_def)

lemma busy_items_stopped: "list_all (\<lambda>s. s = Stopped) (mc_workers c) \<Longrightarrow> busy_items c = []"
  by (auto simp: busy_items_def list_all_iff)

lemmas mem_step_defs = worker_take_def worker_start_def worker_return_def worker_raise_def
  worker_wake_def worker_put_def admit_def mem_pause_def mem_resume_def mem_close_def close_joined_def
  close_sentinel_def close_timeout_def close_finished_def put_back_def enqueue_def

lemma worker_move_ok:
  assumes "mem_ok c" and "worker_at c i = Some s" and "length (worker_items s') = length (worker_items s)"
  shows "mem_ok (set_worker i s' c)"
  using assms busy_set_worker(2) [OF assms(2), of s'] by (simp add: mem_ok_def)

lemma worker_end_ok:
  assumes "mem_ok c" and "worker_at c i = Some s" and "length (worker_items s) = 1" and "worker_items s' = []"
  shows "mem_ok (task_done (set_worker i s' c))"
proof -
  from busy_set_worker(2) [OF assms(2), of s'] assms(3,4)
  have "length (busy_items c) = Suc (length (busy_items (set_worker i s' c)))" by simp
  with assms(1) show ?thesis by (simp add: mem_ok_def)
qed

lemma mem_ok_putters [simp]: "mem_ok (c\<lparr>mc_putters := p\<rparr>) = mem_ok c"
  by (simp add: mem_ok_def)

lemma mem_ok_error [simp]: "mem_ok (c\<lparr>mc_error := x\<rparr>) = mem_ok c"
  by (simp add: mem_ok_def)

lemma mem_ok_resumed [simp]: "mem_ok (c\<lparr>mc_resumed := x\<rparr>) = mem_ok c"
  by (simp add: mem_ok_def)

lemma take_ok: "worker_take i c = Some c' \<Longrightarrow> mem_ok c \<Longrightarrow> mem_ok c'"
proof (cases "mc_queue c")
  case (Cons x q)
  assume take: "worker_take i c = Some c'" and ok: "mem_ok c"
  then have idle: "worker_at (c\<lparr>mc_queue := q\<rparr>) i = Some Idle" by (simp add: worker_take_def split: if_splits)
  note busy = busy_set_worker(2) [OF idle]
  show ?thesis
  proof (cases x)
    case None
    with take Cons ok busy [of Stopped] show ?thesis
      by (auto simp: worker_take_def mem_ok_def split: if_splits)
  next
    case (Some it)
    with take Cons ok busy [of "Waiting it"] show ?thesis
      by (auto simp: worker_take_def mem_ok_def split: if_splits)
  qed
qed (simp add: worker_take_def split: if_splits)

lemma put_back_ok:
  assumes "mem_ok c" and "worker_at c i = Some s" and "worker_items s = [it]"
  shows "mem_ok (put_back i it c)"
  using worker_end_ok [OF assms(1,2), of Idle] worker_move_ok [OF assms(1,2), of "Requeueing (again it)"] assms(3)
  by (simp add: put_back_def)

lemma worker_step_ok:
  "worker_start i c = Some c' \<Longrightarrow> mem_ok c \<Longrightarrow> mem_ok c'"
  "worker_return i k c = Some c' \<Longrightarrow> mem_ok c \<Longrightarrow> mem_ok c'"
  "worker_raise i e c = Some c' \<Longrightarrow> mem_ok c \<Longrightarrow> mem_ok c'"
  "worker_wake i c = Some c' \<Longrightarrow> mem_ok c \<Longrightarrow> mem_ok c'"
  by (auto simp: worker_start_def worker_return_def worker_raise_def worker_wake_def
        split: option.splits worker.splits if_splits intro: worker_move_ok worker_end_ok put_back_ok)

lemma worker_put_ok: "worker_put i c = Some c' \<Longrightarrow> mem_ok c \<Longrightarrow> mem_ok c'"
  by (auto simp: worker_put_def split: option.splits worker.splits if_splits
        intro!: worker_end_ok [where s = "Requeueing it" for it] mem_ok_put)

lemma admit_ok: "admit k c = Some c' \<Longrightarrow> mem_ok c \<Longrightarrow> mem_ok c'"
  by (auto simp: admit_def queue_full_def split: if_splits intro!: mem_ok_put)

lemma enqueue_ok: "mem_ok c \<Longrightarrow> mem_ok (snd (enqueue policy it c))"
  by (auto simp: enqueue_def intro: mem_ok_put)

lemma close_ok:
  "mem_ok c \<Longrightarrow> mem_ok (mem_close c)"
  "close_joined c = Some c' \<Longrightarrow> mem_ok c \<Longrightarrow> mem_ok c'"
  "close_finished c = Some c' \<Longrightarrow> mem_ok c \<Longrightarrow> mem_ok c'"
  using busy_items_stopped [of c]
  by (auto simp: mem_close_def close_joined_def close_finished_def mem_ok_def busy_items_def split: if_splits)

lemma close_sentinel_ok: "close_sentinel c = Some c' \<Longrightarrow> mem_ok c \<Longrightarrow> mem_ok c'"
  by (auto simp: close_sentinel_def queue_full_def mem_ok_def split: close_phase.splits nat.splits if_splits)

lemma close_timeout_ok: "close_timeout c = Some c' \<Longrightarrow> mem_ok c \<Longrightarrow> mem_ok c'"
  by (auto simp: close_timeout_def mem_ok_def busy_items_no_workers split: if_splits)

lemmas mem_ok_intros = take_ok worker_step_ok worker_put_ok admit_ok enqueue_ok close_ok
  close_sentinel_ok close_timeout_ok

lemma mem_step_ok: "mem_step l c = Some c' \<Longrightarrow> mem_ok c \<Longrightarrow> mem_ok c'"
  by (cases l) (auto simp: mem_pause_def mem_resume_def intro: mem_ok_intros)

subsection \<open>Conservation\<close>

definition messages :: "mem_consumer \<Rightarrow> in_item multiset" where
  "messages c = image_mset same_message (mset (in_system c))"

definition waiting_messages :: "mem_consumer \<Rightarrow> in_item multiset" where
  "waiting_messages c = image_mset same_message (mset (mc_putters c @ List.map_filter (\<lambda>x. x) (mc_queue c)))"

lemma messages_split: "messages c = waiting_messages c + busy_messages c"
  by (simp add: messages_def waiting_messages_def busy_messages_def in_system_def)

lemma waiting_messages_simps [simp]:
  "waiting_messages (set_worker i s c) = waiting_messages c"
  "waiting_messages (task_done c) = waiting_messages c"
  "waiting_messages (c\<lparr>mc_error := x\<rparr>) = waiting_messages c"
  "waiting_messages (put_nowait (Some it) c) = add_mset (same_message it) (waiting_messages c)"
  "waiting_messages (put_nowait None c) = waiting_messages c"
  "waiting_messages (c\<lparr>mc_phase := ph\<rparr>) = waiting_messages c"
  by (simp_all add: waiting_messages_def List.map_filter_simps)

lemma busy_messages_simps [simp]:
  "busy_messages (c\<lparr>mc_queue := q\<rparr>) = busy_messages c"
  "busy_messages (task_done c) = busy_messages c"
  "busy_messages (put_nowait x c) = busy_messages c"
  "busy_messages (c\<lparr>mc_error := x'\<rparr>) = busy_messages c"
  "busy_messages (c\<lparr>mc_putters := p\<rparr>) = busy_messages c"
  "busy_messages (c\<lparr>mc_phase := ph\<rparr>) = busy_messages c"
  by (simp_all add: busy_messages_def)

lemma worker_messages_simps [simp]:
  "worker_messages Idle = {#}" "worker_messages Stopped = {#}"
  "worker_messages (Waiting it) = {#same_message it#}" "worker_messages (Handling it) = {#same_message it#}"
  "worker_messages (Deferred it) = {#same_message it#}" "worker_messages (Requeueing it) = {#same_message it#}"
  by (simp_all add: worker_messages_def)

definition out_messages :: "(in_item \<times> fate) list \<Rightarrow> in_item multiset" where
  "out_messages outs = image_mset (same_message \<circ> fst) (mset outs)"

definition in_messages :: "in_item list \<Rightarrow> in_item multiset" where
  "in_messages ins = image_mset same_message (mset ins)"

lemma in_out_simps [simp]:
  "in_messages [] = {#}" "in_messages (xs @ ys) = in_messages xs + in_messages ys"
  "in_messages [it] = {#same_message it#}"
  "out_messages [] = {#}" "out_messages (os @ ps) = out_messages os + out_messages ps"
  "out_messages [(it, f)] = {#same_message it#}"
  "out_messages (map (\<lambda>x. (x, f)) xs) = in_messages xs"
  by (simp_all add: in_messages_def out_messages_def image_mset.compositionality comp_def)

lemma put_back_messages:
  assumes "worker_at c i = Some s" and "worker_messages s = {#same_message it#}"
  shows "messages (put_back i it c) + out_messages (if mc_closed c then [(it, Discarded)] else []) = messages c"
  using busy_set_worker(1) [OF assms(1), of Idle] busy_set_worker(1) [OF assms(1), of "Requeueing (again it)"] assms(2)
  by (simp add: put_back_def messages_split)

lemma take_messages:
  assumes "worker_take i c = Some c'"
  shows "messages c' = messages c"
proof (cases "mc_queue c")
  case (Cons x q)
  have idle: "worker_at (c\<lparr>mc_queue := q\<rparr>) i = Some Idle" using assms by (simp add: worker_take_def split: if_splits)
  note busy = busy_set_worker(1) [OF idle]
  show ?thesis
  proof (cases x)
    case None
    with assms Cons busy [of Stopped] show ?thesis
      by (auto simp: worker_take_def messages_split waiting_messages_def split: if_splits)
  next
    case (Some it)
    with assms Cons busy [of "Waiting it"] show ?thesis
      by (auto simp: worker_take_def messages_split waiting_messages_def split: if_splits)
  qed
qed (use assms in \<open>simp add: worker_take_def split: if_splits\<close>)

lemma admit_messages:
  assumes "admit k c = Some c'"
  shows "messages c' = messages c"
proof -
  from assms have k: "k < length (mc_putters c)"
    and c': "c' = put_nowait (Some (mc_putters c ! k))
        (c\<lparr>mc_putters := take k (mc_putters c) @ drop (Suc k) (mc_putters c)\<rparr>)"
    by (simp_all add: admit_def split: if_splits)
  have "mset (mc_putters c) = mset (take k (mc_putters c) @ mc_putters c ! k # drop (Suc k) (mc_putters c))"
    using k by (simp add: id_take_nth_drop [symmetric] del: mset_append)
  then have "image_mset same_message (mset (mc_putters c)) =
      image_mset same_message (mset (take k (mc_putters c) @ drop (Suc k) (mc_putters c)))
      + {#same_message (mc_putters c ! k)#}" by simp
  then show ?thesis by (simp add: c' messages_split waiting_messages_def)
qed

lemma enqueue_messages:
  "messages (snd (enqueue policy it c)) = messages c + in_messages (arrived (L_enqueue policy it) c)"
  by (auto simp: enqueue_def arrived_def messages_split waiting_messages_def)

lemma mem_step_messages:
  assumes "mem_step l c = Some c'"
  shows "messages c' + out_messages (departed l c) = messages c + in_messages (arrived l c)"
proof -
  have none: "arrived l c = []" if "\<forall>p it. l \<noteq> L_enqueue p it" using that by (cases l) (auto simp: arrived_def)
  note move = busy_set_worker(1) [of c]
  show ?thesis
  proof (cases l)
    case (L_enqueue policy it)
    with assms enqueue_messages [of policy it c] show ?thesis by (simp add: departed_def)
  next
    case (L_admit k)
    with assms admit_messages [of k c c'] none show ?thesis by (simp add: departed_def)
  next
    case (L_take i)
    with assms take_messages [of i c c'] none show ?thesis by (simp add: departed_def)
  next
    case (L_start i)
    with assms none move show ?thesis
      by (auto simp: departed_def worker_start_def messages_split split: option.splits worker.splits if_splits)
         (metis add.commute add_right_cancel worker_messages_simps(3,4))
  next
    case (L_return i k)
    with assms obtain it where it: "worker_at c i = Some (Handling it)"
      by (auto simp: worker_return_def split: option.splits worker.splits)
    from move [OF it, of Idle] move [OF it, of "Deferred it"] put_back_messages [OF it, of it] assms L_return it none
    show ?thesis by (auto simp: departed_def worker_return_def messages_split split: if_splits)
  next
    case (L_raise i e)
    with assms obtain it where it: "worker_at c i = Some (Handling it)"
      by (auto simp: worker_raise_def split: option.splits worker.splits)
    then have it': "worker_at (c\<lparr>mc_error := x\<rparr>) i = Some (Handling it)" for x by simp
    from move [OF it, of Stopped] busy_set_worker(1) [OF it' [of "Some (exc_cls e)"], of Idle] assms L_raise it none
    show ?thesis by (auto simp: departed_def worker_raise_def messages_split split: if_splits)
  next
    case (L_wake i)
    with assms obtain it where it: "worker_at c i = Some (Deferred it)"
      by (auto simp: worker_wake_def split: option.splits worker.splits)
    from put_back_messages [OF it, of it] assms L_wake it none
    show ?thesis by (auto simp: departed_def worker_wake_def split: if_splits)
  next
    case (L_put i)
    with assms obtain it where it: "worker_at (put_nowait (Some it) c) i = Some (Requeueing it)"
      by (auto simp: worker_put_def split: option.splits worker.splits)
    then have "worker_at c i = Some (Requeueing it)" by simp
    with busy_set_worker(1) [OF it, of Idle] assms L_put none
    show ?thesis by (auto simp: departed_def worker_put_def messages_split split: if_splits)
  next
    case L_sentinel
    with assms none show ?thesis
      by (auto simp: departed_def close_sentinel_def messages_split split: close_phase.splits nat.splits if_splits)
  next
    case L_timeout
    with assms none show ?thesis
      by (auto simp: departed_def close_timeout_def messages_split waiting_messages_def busy_messages_def
          busy_items_no_workers in_messages_def split: if_splits)
  next
    case L_finished
    with assms none busy_items_stopped [of c] show ?thesis
      by (auto simp: departed_def close_finished_def messages_split waiting_messages_def busy_messages_def
          busy_items_def split: if_splits)
  qed (use assms none in \<open>auto simp: departed_def mem_pause_def mem_resume_def mem_close_def close_joined_def
        messages_split waiting_messages_def busy_messages_def split: if_splits\<close>)
qed

lemma closed_stays: "mem_step l c = Some c' \<Longrightarrow> mc_closed c \<Longrightarrow> mc_closed c'"
  by (cases l) (auto simp: mem_step_defs split: option.splits worker.splits if_splits list.splits close_phase.splits nat.splits)

lemma mem_run_law:
  "mem_run ls c = Some (c', ins, outs) \<Longrightarrow> mem_ok c \<Longrightarrow>
   mem_ok c' \<and> messages c' + out_messages outs = messages c + in_messages ins
   \<and> (mc_closed c \<longrightarrow> mc_closed c')
   \<and> (\<forall>x \<in> set outs. snd x = Discarded \<longrightarrow> mc_closed c')"
proof (induction ls arbitrary: c ins outs)
  case (Cons l ls)
  from Cons.prems(1) obtain c1 ins1 outs1 where step: "mem_step l c = Some c1"
    and run: "mem_run ls c1 = Some (c', ins1, outs1)"
    and io: "ins = arrived l c @ ins1" "outs = departed l c @ outs1"
    by (auto split: option.splits)
  note ok1 = mem_step_ok [OF step Cons.prems(2)]
  note ih = Cons.IH [OF run ok1]
  have "messages c' + (out_messages (departed l c) + out_messages outs1)
      = messages c + (in_messages (arrived l c) + in_messages ins1)"
    using ih mem_step_messages [OF step] by (metis (no_types, lifting) add.assoc add.commute)
  moreover have "mc_closed c" if "x \<in> set (departed l c)" "snd x = Discarded" for x
    using that step Cons.prems(2)
    by (cases l) (auto simp: departed_def mem_ok_def close_timeout_def split: option.splits worker.splits if_splits)
  ultimately show ?case using ih closed_stays [OF step] io by auto
qed simp

lemma mem_run_append:
  "mem_run ls c = Some (c1, ins, outs) \<Longrightarrow> mem_run ks c1 = Some (c2, ins', outs') \<Longrightarrow>
   mem_run (ls @ ks) c = Some (c2, ins @ ins', outs @ outs')"
  by (induction ls arbitrary: c ins outs) (auto split: option.splits)

lemma started_ok:
  assumes "1 \<le> es_capacity s"
  shows "mem_ok (start_workers (new_mem_consumer s))"
    and "messages (start_workers (new_mem_consumer s)) = {#}"
  using assms
  by (simp_all add: mem_ok_def start_workers_def new_mem_consumer_def busy_items_def messages_def in_system_def
      List.map_filter_simps)

subsection \<open>Progress\<close>

fun internal :: "mem_label \<Rightarrow> bool" where
  "internal (L_admit k) = True"
| "internal (L_take i) = True"
| "internal (L_start i) = True"
| "internal (L_wake i) = True"
| "internal (L_put i) = True"
| "internal _ = False"

fun stalled :: "worker \<Rightarrow> bool" where
  "stalled (Requeueing it) = True"
| "stalled Stopped = True"
| "stalled _ = False"

text \<open>Every worker is gone or waits to put an item back into the full queue.\<close>

definition jammed :: "mem_consumer \<Rightarrow> bool" where
  "jammed c \<longleftrightarrow> list_all stalled (mc_workers c) \<and> queue_full c"

definition all_stopped :: "mem_consumer \<Rightarrow> bool" where
  "all_stopped c \<longleftrightarrow> list_all (\<lambda>s. s = Stopped) (mc_workers c)"

lemma worker_atI: "s \<in> set (mc_workers c) \<Longrightarrow> \<exists>i. worker_at c i = Some s"
  by (auto simp: in_set_conv_nth worker_at_def)

lemma worker_at_mem: "worker_at c i = Some s \<Longrightarrow> s \<in> set (mc_workers c)"
  by (auto simp: worker_at_def split: if_splits)

lemma internal_step_exists:
  assumes "mem_ok c" and "mc_resumed c" and "\<not> mc_closed c" and "in_system c \<noteq> []"
    and "\<forall>l. internal l \<longrightarrow> mem_step l c = None" and "\<forall>it. Handling it \<notin> set (mc_workers c)"
  shows "jammed c \<or> all_stopped c"
proof -
  have none: "mem_step l c = None" if "internal l" for l using assms(5) that by blast
  have worker: "s = Idle \<or> stalled s" if s: "s \<in> set (mc_workers c)" for s
  proof -
    obtain i where i: "worker_at c i = Some s" using worker_atI [OF s] by blast
    show ?thesis
      using none [of "L_start i"] none [of "L_wake i"] i assms(2,6) s
      by (cases s) (auto simp: worker_start_def worker_wake_def)
  qed
  have room: "queue_full c" if s: "Requeueing it \<in> set (mc_workers c)" for it
  proof -
    obtain i where "worker_at c i = Some (Requeueing it)" using worker_atI [OF s] by blast
    with none [of "L_put i"] show ?thesis by (auto simp: worker_put_def split: if_splits)
  qed
  have putters: "queue_full c" if "mc_putters c \<noteq> []"
    using none [of "L_admit 0"] that by (auto simp: admit_def split: if_splits)
  show ?thesis
  proof (cases "Idle \<in> set (mc_workers c)")
    case True
    then obtain i where "worker_at c i = Some Idle" using worker_atI by blast
    with none [of "L_take i"] have empty: "mc_queue c = []"
      by (auto simp: worker_take_def split: list.splits option.splits)
    with assms(1) have "\<not> queue_full c" by (auto simp: mem_ok_def queue_full_def)
    with putters have "mc_putters c = []" by blast
    moreover have "\<forall>s \<in> set (mc_workers c). worker_items s = []"
    proof
      fix s
      assume s: "s \<in> set (mc_workers c)"
      with worker [OF s] room \<open>\<not> queue_full c\<close> show "worker_items s = []" by (cases s) auto
    qed
    ultimately show ?thesis using empty assms(4)
      by (simp add: in_system_def busy_items_def List.map_filter_simps)
  next
    case False
    with worker have st: "list_all stalled (mc_workers c)" by (auto simp: list_all_iff)
    show ?thesis
    proof (cases "\<exists>it. Requeueing it \<in> set (mc_workers c)")
      case True
      with st room show ?thesis by (auto simp: jammed_def)
    next
      case False
      with st show ?thesis by (fastforce simp: all_stopped_def list_all_iff elim!: stalled.elims)
    qed
  qed
qed

text \<open>Nothing but closing ends a jam.\<close>

lemma jammed_step:
  assumes "jammed c" and "\<not> mc_closed c" and "mem_ok c" and "l \<noteq> L_close" and "mem_step l c = Some c'"
  shows "mc_queue c' = mc_queue c \<and> mc_workers c' = mc_workers c \<and> mc_subscription c' = mc_subscription c
    \<and> \<not> mc_closed c' \<and> departed l c = []"
proof -
  have at: "worker_at c i = Some s \<Longrightarrow> stalled s" for i s
    using assms(1) worker_at_mem [of c i s] by (auto simp: jammed_def list_all_iff)
  have full: "queue_full c" using assms(1) by (simp add: jammed_def)
  show ?thesis
    using assms(2-5) full at
    by (cases l)
       (fastforce simp: departed_def mem_step_defs mem_ok_def split: option.splits worker.splits if_splits
          close_phase.splits nat.splits)+
qed

lemma jammed_run:
  "jammed c \<Longrightarrow> \<not> mc_closed c \<Longrightarrow> mem_ok c \<Longrightarrow> L_close \<notin> set ls \<Longrightarrow> mem_run ls c = Some (c', ins, outs) \<Longrightarrow>
   jammed c' \<and> mc_queue c' = mc_queue c \<and> mc_workers c' = mc_workers c \<and> outs = []"
proof (induction ls arbitrary: c ins outs)
  case (Cons l ls)
  from Cons.prems(5) obtain c1 ins1 outs1 where step: "mem_step l c = Some c1"
    and run: "mem_run ls c1 = Some (c', ins1, outs1)" and outs: "outs = departed l c @ outs1"
    by (auto split: option.splits)
  have "l \<noteq> L_close" using Cons.prems(4) by auto
  note s = jammed_step [OF Cons.prems(1-3) this step]
  with Cons.prems(1) have "jammed c1" by (simp add: jammed_def queue_full_def)
  with Cons.IH [OF this _ mem_step_ok [OF step Cons.prems(3)] _ run] s Cons.prems(4) outs show ?case by auto
qed simp

subsection \<open>Publishing\<close>

definition target :: "in_item \<Rightarrow> mem_engine \<Rightarrow> nat \<Rightarrow> bool" where
  "target it e a \<longleftrightarrow> \<not> mc_closed (me_objects e ! a)
     \<and> subscription_matches (mc_subscription (me_objects e ! a)) (it_destination it) (it_context it)"

definition has_room :: "mem_engine \<Rightarrow> nat \<Rightarrow> bool" where
  "has_room e a \<longleftrightarrow> \<not> queue_full (me_objects e ! a)"

definition deliver_to :: "in_item \<Rightarrow> nat \<Rightarrow> mem_engine \<Rightarrow> mem_engine" where
  "deliver_to it a e = e\<lparr>me_objects := (me_objects e)[a := put_nowait (Some it) (me_objects e ! a)]\<rparr>"

lemma deliver_to_simps [simp]:
  "a' \<noteq> a \<Longrightarrow> target it' (deliver_to it a e) a' = target it' e a'"
  "a' \<noteq> a \<Longrightarrow> has_room (deliver_to it a e) a' = has_room e a'"
  "me_policy (deliver_to it a e) = me_policy e" "me_consumers (deliver_to it a e) = me_consumers e"
  "me_dropped (deliver_to it a e) = me_dropped e" "me_connected (deliver_to it a e) = me_connected e"
  "me_fail_publishes (deliver_to it a e) = me_fail_publishes e"
  "length (me_objects (deliver_to it a e)) = length (me_objects e)"
  by (simp_all add: deliver_to_def target_def has_room_def)

lemma dropped_simps [simp]:
  "target it (e\<lparr>me_dropped := n\<rparr>) a = target it e a" "has_room (e\<lparr>me_dropped := n\<rparr>) a = has_room e a"
  by (simp_all add: target_def has_room_def)

lemma publish_loop_room:
  "target it e a \<Longrightarrow> has_room e a \<Longrightarrow> publish_loop it (a # as) acc e = publish_loop it as acc (deliver_to it a e)"
  by (simp add: target_def has_room_def enqueue_def deliver_to_def Let_def)

lemma publish_loop_skip:
  "\<not> target it e a \<Longrightarrow> publish_loop it (a # as) acc e = publish_loop it as acc e"
  by (auto simp: target_def Let_def)

lemma publish_loop_drop:
  "me_policy e = OP_DROP_NEWEST \<Longrightarrow> target it e a \<Longrightarrow> \<not> has_room e a \<Longrightarrow>
   publish_loop it (a # as) acc e = publish_loop it as False (e\<lparr>me_dropped := me_dropped e + 1\<rparr>)"
  by (simp add: target_def has_room_def enqueue_def Let_def)

lemma publish_loop_reject:
  "me_policy e = OP_REJECT \<Longrightarrow> target it e a \<Longrightarrow> \<not> has_room e a \<Longrightarrow>
   publish_loop it (a # as) acc e = (PP_raised (PyExc MemoryBackpressureError False), e)"
  by (simp add: target_def has_room_def enqueue_def Let_def)

declare publish_loop.simps(2) [simp del]

text \<open>Which consumers get the item: all with room, or those before the first one without.\<close>

definition receivers :: "in_item \<Rightarrow> nat list \<Rightarrow> mem_engine \<Rightarrow> nat list" where
  "receivers it as e =
     (let ts = filter (target it e) as
      in if me_policy e = OP_DROP_NEWEST then filter (has_room e) ts else takeWhile (has_room e) ts)"

definition all_room :: "in_item \<Rightarrow> nat list \<Rightarrow> mem_engine \<Rightarrow> bool" where
  "all_room it as e \<longleftrightarrow> list_all (\<lambda>a. target it e a \<longrightarrow> has_room e a) as"

definition publish_answer :: "in_item \<Rightarrow> nat list \<Rightarrow> bool \<Rightarrow> mem_engine \<Rightarrow> publish_progress" where
  "publish_answer it as acc e =
     (if all_room it as e then PP_done acc
      else if me_policy e = OP_REJECT then PP_raised (PyExc MemoryBackpressureError False)
      else PP_done False)"

definition newly_dropped :: "in_item \<Rightarrow> nat list \<Rightarrow> mem_engine \<Rightarrow> nat" where
  "newly_dropped it as e =
     (if me_policy e = OP_DROP_NEWEST then length (filter (\<lambda>a. target it e a \<and> \<not> has_room e a) as) else 0)"

lemma same_lists:
  assumes "\<forall>b \<in> set as. target it e' b = target it e b \<and> has_room e' b = has_room e b"
    and "me_policy e' = me_policy e"
  shows "receivers it as e' = receivers it as e" and "all_room it as e' = all_room it as e"
    and "newly_dropped it as e' = newly_dropped it as e" and "publish_answer it as acc e' = publish_answer it as acc e"
proof -
  have ts: "filter (target it e') as = filter (target it e) as" using assms(1) by (auto intro: filter_cong)
  have "filter (has_room e') (filter (target it e) as) = filter (has_room e) (filter (target it e) as)"
    "takeWhile (has_room e') (filter (target it e) as) = takeWhile (has_room e) (filter (target it e) as)"
    using assms(1) by (auto intro!: filter_cong takeWhile_cong)
  then show "receivers it as e' = receivers it as e" unfolding receivers_def ts Let_def assms(2) by simp
  show ar: "all_room it as e' = all_room it as e" using assms(1) by (auto simp: all_room_def list_all_iff)
  have "filter (\<lambda>a. target it e' a \<and> \<not> has_room e' a) as = filter (\<lambda>a. target it e a \<and> \<not> has_room e a) as"
    using assms(1) by (auto intro: filter_cong)
  then show "newly_dropped it as e' = newly_dropped it as e" by (simp add: newly_dropped_def assms(2))
  show "publish_answer it as acc e' = publish_answer it as acc e" by (simp add: publish_answer_def ar assms(2))
qed

lemma deliver_to_dropped:
  "fold (deliver_to it) as (e\<lparr>me_dropped := n\<rparr>) = (fold (deliver_to it) as e)\<lparr>me_dropped := n\<rparr>"
proof (induction as arbitrary: e)
  case (Cons a as)
  have "deliver_to it a (e\<lparr>me_dropped := n\<rparr>) = (deliver_to it a e)\<lparr>me_dropped := n\<rparr>"
    by (simp add: deliver_to_def)
  with Cons show ?case by simp
qed simp

lemma publish_loop_exact:
  "distinct as \<Longrightarrow> me_policy e \<noteq> OP_BLOCK \<or> all_room it as e \<Longrightarrow>
   publish_loop it as acc e =
     (publish_answer it as acc e,
      (fold (deliver_to it) (receivers it as e) e)\<lparr>me_dropped := me_dropped e + newly_dropped it as e\<rparr>)"
proof (induction as arbitrary: acc e)
  case Nil
  show ?case by (simp add: receivers_def publish_answer_def all_room_def newly_dropped_def)
next
  case (Cons a as)
  show ?case
  proof (cases "target it e a")
    case False
    then have "receivers it (a # as) e = receivers it as e" "all_room it (a # as) e = all_room it as e"
      "publish_answer it (a # as) acc e = publish_answer it as acc e"
      "newly_dropped it (a # as) e = newly_dropped it as e"
      by (simp_all add: receivers_def all_room_def publish_answer_def newly_dropped_def)
    with Cons.IH [of e acc] Cons.prems publish_loop_skip [OF False] show ?thesis by simp
  next
    case t: True
    show ?thesis
    proof (cases "has_room e a")
      case True
      have same: "\<forall>b \<in> set as. target it (deliver_to it a e) b = target it e b
          \<and> has_room (deliver_to it a e) b = has_room e b"
      proof
        fix b
        assume "b \<in> set as"
        then have "b \<noteq> a" using Cons.prems(1) by auto
        then show "target it (deliver_to it a e) b = target it e b
          \<and> has_room (deliver_to it a e) b = has_room e b" by simp
      qed
      have lists: "receivers it (a # as) e = a # receivers it as e" "all_room it (a # as) e = all_room it as e"
        "publish_answer it (a # as) acc e = publish_answer it as acc e"
        "newly_dropped it (a # as) e = newly_dropped it as e"
        using t True by (simp_all add: receivers_def all_room_def publish_answer_def newly_dropped_def Let_def)
      from Cons.IH [of "deliver_to it a e" acc] Cons.prems same_lists [OF same] show ?thesis
        unfolding publish_loop_room [OF t True] lists by simp
    next
      case False
      then have no: "\<not> all_room it (a # as) e" using t by (simp add: all_room_def)
      with Cons.prems consider (drop) "me_policy e = OP_DROP_NEWEST" | (reject) "me_policy e = OP_REJECT"
        by (cases "me_policy e") auto
      then show ?thesis
      proof cases
        case drop
        let ?e = "e\<lparr>me_dropped := me_dropped e + 1\<rparr>"
        have same: "receivers it as ?e = receivers it as e" "newly_dropped it as ?e = newly_dropped it as e"
          by (rule same_lists; simp)+
        have "receivers it (a # as) e = receivers it as e" "newly_dropped it (a # as) e = Suc (newly_dropped it as e)"
          "publish_answer it (a # as) acc e = PP_done False" "publish_answer it as False ?e = PP_done False"
          using t False no drop by (simp_all add: receivers_def newly_dropped_def publish_answer_def)
        with Cons.IH [of ?e False] Cons.prems drop same show ?thesis
          unfolding publish_loop_drop [OF drop t False] by (simp add: deliver_to_dropped)
      next
        case reject
        with t False no show ?thesis
          unfolding publish_loop_reject [OF reject t False]
          by (simp add: receivers_def publish_answer_def newly_dropped_def)
      qed
    qed
  qed
qed

lemma fold_deliver_to:
  "distinct as \<Longrightarrow> \<forall>a \<in> set as. a < length (me_objects e) \<Longrightarrow>
   me_objects (fold (deliver_to it) as e) ! b =
     (if b \<in> set as then put_nowait (Some it) (me_objects e ! b) else me_objects e ! b)"
proof (induction as arbitrary: e)
  case (Cons a as)
  from Cons.IH [of "deliver_to it a e"] Cons.prems show ?case
    by (auto simp: deliver_to_def nth_list_update)
qed simp

subsection \<open>Reachable engines\<close>

definition engine_ok :: "mem_engine \<Rightarrow> bool" where
  "engine_ok e \<longleftrightarrow>
     dict_ok (me_consumers e) \<and> distinct (dict_values (me_consumers e))
     \<and> (\<forall>a \<in> set (dict_values (me_consumers e)). a < length (me_objects e))
     \<and> (\<forall>c \<in> set (me_objects e). mem_ok c)"

inductive mem_engine_reachable :: "mem_engine \<Rightarrow> bool" where
  me_start: "new_mem_engine policy n = Inr e \<Longrightarrow> mem_engine_reachable e"
| me_connect: "mem_engine_reachable e \<Longrightarrow> mem_engine_reachable (mem_connect e)"
| me_publish: "mem_engine_reachable e \<Longrightarrow> mem_engine_reachable (snd (mem_publish destination payload context e))"
| me_resumed: "mem_engine_reachable e \<Longrightarrow> set rest \<subseteq> {..<length (me_objects e)} \<Longrightarrow>
    mem_engine_reachable (snd (publish_resumed it rest acc e))"
| me_create: "mem_engine_reachable e \<Longrightarrow> 1 \<le> es_capacity s \<Longrightarrow>
    mem_engine_reachable (snd (mem_create_consumer s e))"
| me_remove: "mem_engine_reachable e \<Longrightarrow> mem_engine_reachable (mem_remove_consumer k e)"
| me_disconnect: "mem_engine_reachable e \<Longrightarrow> mem_engine_reachable (snd (mem_disconnect e))"
| me_step: "mem_engine_reachable e \<Longrightarrow> a < length (me_objects e) \<Longrightarrow> mem_step l (me_objects e ! a) = Some c \<Longrightarrow>
    mem_engine_reachable (e\<lparr>me_objects := (me_objects e)[a := c]\<rparr>)"

lemma engine_ok_object:
  "engine_ok e \<Longrightarrow> mem_ok c \<Longrightarrow> engine_ok (e\<lparr>me_objects := (me_objects e)[a := c]\<rparr>)"
  by (auto simp: engine_ok_def dest: set_update_subset_insert [THEN subsetD])

lemma engine_ok_dropped [simp]: "engine_ok (e\<lparr>me_dropped := n\<rparr>) = engine_ok e"
  by (simp add: engine_ok_def)

lemma engine_ok_loop:
  "engine_ok e \<Longrightarrow> set as \<subseteq> {..<length (me_objects e)} \<Longrightarrow>
   engine_ok (snd (publish_loop it as acc e))
   \<and> length (me_objects (snd (publish_loop it as acc e))) = length (me_objects e)"
proof (induction as arbitrary: acc e)
  case (Cons a as)
  let ?c = "me_objects e ! a"
  obtain r c' where enq: "enqueue (me_policy e) it ?c = (r, c')" by (rule prod.exhaust)
  have "mem_ok ?c" using Cons.prems by (auto simp: engine_ok_def)
  with enqueue_ok [of ?c "me_policy e" it] enq have "mem_ok c'" by simp
  then have ok': "engine_ok (e\<lparr>me_objects := (me_objects e)[a := c']\<rparr>)" by (rule engine_ok_object [OF Cons.prems(1)])
  then have ok'': "engine_ok (e\<lparr>me_objects := (me_objects e)[a := c'], me_dropped := me_dropped e + 1\<rparr>)" by simp
  from Cons.IH [OF ok', of acc] Cons.IH [OF ok'', of False] Cons.IH [OF Cons.prems(1), of acc] Cons.prems ok' enq
  show ?case by (cases r) (simp_all add: publish_loop.simps(2) Let_def)
qed simp

lemma engine_ok_publish:
  assumes "engine_ok e"
  shows "engine_ok (snd (mem_publish destination payload context e))"
proof -
  have "set (dict_values (me_consumers e)) \<subseteq> {..<length (me_objects e)}" using assms by (auto simp: engine_ok_def)
  from engine_ok_loop [OF assms this] assms show ?thesis by (simp add: mem_publish_def) (simp add: engine_ok_def)
qed

lemma engine_ok_create:
  assumes "engine_ok e" and "1 \<le> es_capacity s"
  shows "engine_ok (snd (mem_create_consumer s e))"
proof (cases "me_connected e \<and> \<not> dict_has (me_consumers e) (es_id s)")
  case True
  then have "dict_set (es_id s) (length (me_objects e)) (me_consumers e) = me_consumers e @ [(es_id s, length (me_objects e))]"
    by (intro dict_set_fresh) (simp add: dict_has_def)
  moreover have "dict_ok (dict_set (es_id s) (length (me_objects e)) (me_consumers e))"
    using assms(1) by (intro dict_ok_set) (simp add: engine_ok_def)
  ultimately show ?thesis
    using assms True started_ok(1) [OF assms(2)]
    by (fastforce simp: mem_create_consumer_def engine_ok_def dict_values_def)
qed (use assms in \<open>auto simp: mem_create_consumer_def\<close>)

lemma engine_ok_remove:
  assumes "engine_ok e"
  shows "engine_ok (mem_remove_consumer k e)"
proof (cases "dict_get (me_consumers e) k")
  case (Some a)
  then have "a \<in> set (dict_values (me_consumers e))" by (force simp: dict_values_def dest: map_of_SomeD)
  with assms have "mem_ok (me_objects e ! a)" by (auto simp: engine_ok_def)
  then have ok: "engine_ok (e\<lparr>me_objects := (me_objects e)[a := mem_close (me_objects e ! a)]\<rparr>)" (is "engine_ok ?e")
    by (rule engine_ok_object [OF assms close_ok(1)])
  have e': "mem_remove_consumer k e = ?e\<lparr>me_consumers := dict_del k (me_consumers ?e)\<rparr>"
    by (simp add: mem_remove_consumer_def Some)
  have sub: "set (dict_values (dict_del k d)) \<subseteq> set (dict_values d)" for d :: "(string, nat) dict"
    using set_dict_del_subset [of k d] by (auto simp: dict_values_def)
  have dist: "distinct (dict_values d) \<Longrightarrow> distinct (dict_values (dict_del k d))" for d :: "(string, nat) dict"
    unfolding dict_values_def by (rule distinct_map_dict_del)
  show ?thesis
    using ok sub [of "me_consumers ?e"] dist [of "me_consumers ?e"] dict_ok_del [of "me_consumers ?e" k]
    unfolding e' engine_ok_def by (simp add: subset_iff)
qed (use assms in \<open>simp add: mem_remove_consumer_def\<close>)

lemma engine_ok_connect: "engine_ok e \<Longrightarrow> engine_ok (mem_connect e)" "engine_ok e \<Longrightarrow> engine_ok (snd (mem_disconnect e))"
  by (simp_all add: engine_ok_def mem_connect_def mem_disconnect_def dict_values_def)

lemma mem_engine_reachable_ok: "mem_engine_reachable e \<Longrightarrow> engine_ok e"
proof (induction rule: mem_engine_reachable.induct)
  case (me_start policy n e)
  then show ?case by (auto simp: new_mem_engine_def engine_ok_def dict_values_def split: sum.splits)
next
  case (me_step e a l c)
  then have "mem_ok (me_objects e ! a)" by (simp add: engine_ok_def)
  with me_step show ?case by (auto intro: engine_ok_object mem_step_ok)
qed (simp_all add: publish_resumed_def engine_ok_publish engine_ok_create engine_ok_remove engine_ok_loop
      engine_ok_connect)

subsection \<open>Properties\<close>


text \<open>
  C21: a consumer that is open and not paused makes progress on whatever it holds, with one
  exception. Some worker or waiting publisher can move, or a handler is running, unless every worker has
  died, or every worker that is left waits to put a requeued item back into the full queue; the
  latter is permanent: whatever then happens short of closing the consumer, no item moves any more.
\<close>

theorem memory_progress:
  assumes "1 \<le> es_capacity s" and "mem_run ls (start_workers (new_mem_consumer s)) = Some (c, ins, outs)"
    and "\<not> mc_closed c" and "mc_resumed c" and "in_system c \<noteq> []"
  shows "(\<exists>l c'. internal l \<and> mem_step l c = Some c') \<or> (\<exists>it. Handling it \<in> set (mc_workers c))
    \<or> all_stopped c
    \<or> (jammed c \<and> (\<forall>ks c' ins' outs'. L_close \<notin> set ks \<longrightarrow> mem_run ks c = Some (c', ins', outs') \<longrightarrow>
          mc_queue c' = mc_queue c \<and> mc_workers c' = mc_workers c \<and> outs' = []))"
proof -
  have ok: "mem_ok c" using mem_run_law [OF assms(2) started_ok(1) [OF assms(1)]] by blast
  show ?thesis
  proof (cases "(\<exists>l c'. internal l \<and> mem_step l c = Some c') \<or> (\<exists>it. Handling it \<in> set (mc_workers c))")
    case False
    then have "\<forall>l. internal l \<longrightarrow> mem_step l c = None" and "\<forall>it. Handling it \<notin> set (mc_workers c)" by auto
    from internal_step_exists [OF ok assms(4,3,5) this] show ?thesis
      using jammed_run [OF _ assms(3) ok] by blast
  qed blast
qed

text \<open>
  Publishing reaches exactly the consumers it should. On a connected engine without injected failures, a
  publish that does not have to wait puts the item, once, into the queue of every open
  matching consumer with room (when the policy rejects: of those before the first full one, and then raises); every other
  consumer is untouched; it answers accepted exactly when all of them had room, and a
  dropping engine counts one drop for each full one.
\<close>

theorem memory_publish_exact:
  assumes "mem_engine_reachable e" and "me_connected e" and "me_fail_publishes e \<le> 0"
    and "as = dict_values (me_consumers e)" and "it = new_item destination payload context"
    and "me_policy e \<noteq> OP_BLOCK \<or> all_room it as e"
    and "mem_publish destination payload context e = (p, e')"
  shows "p = publish_answer it as True e
    \<and> (\<forall>b. me_objects e' ! b =
          (if b \<in> set (receivers it as e) then put_nowait (Some it) (me_objects e ! b) else me_objects e ! b))
    \<and> (me_policy e = OP_DROP_NEWEST \<longrightarrow> set (receivers it as e) = {a \<in> set as. target it e a \<and> has_room e a})
    \<and> (all_room it as e \<longrightarrow> set (receivers it as e) = {a \<in> set as. target it e a})
    \<and> me_dropped e' = me_dropped e + newly_dropped it as e"
proof -
  have ok: "engine_ok e" by (rule mem_engine_reachable_ok [OF assms(1)])
  then have dist: "distinct as" and bound: "\<forall>a \<in> set as. a < length (me_objects e)"
    by (simp_all add: engine_ok_def assms(4))
  from assms publish_loop_exact [OF dist assms(6), of True]
  have p: "p = publish_answer it as True e"
    and e': "e' = (fold (deliver_to it) (receivers it as e) e)\<lparr>me_dropped := me_dropped e + newly_dropped it as e\<rparr>"
    by (simp_all add: mem_publish_def)
  have sub: "set (receivers it as e) \<subseteq> set as" "distinct (receivers it as e)"
    using dist by (auto simp: receivers_def Let_def dest: set_takeWhileD)
  then have "\<forall>a \<in> set (receivers it as e). a < length (me_objects e)" using bound by blast
  note objs = fold_deliver_to [OF sub(2) this]
  have all: "set (receivers it as e) = {a \<in> set as. target it e a}" if "all_room it as e"
  proof -
    have "takeWhile (has_room e) (filter (target it e) as) = filter (target it e) as"
      using that by (auto simp: takeWhile_eq_all_conv all_room_def list_all_iff)
    moreover have "filter (has_room e) (filter (target it e) as) = filter (target it e) as"
      using that by (auto simp: all_room_def list_all_iff intro: filter_cong)
    ultimately have "receivers it as e = filter (target it e) as" unfolding receivers_def Let_def by simp
    then show ?thesis by auto
  qed
  show ?thesis
    using p objs all by (auto simp: e' receivers_def)
qed

definition narrow_subscription :: engine_subscription where
  "narrow_subscription =
     \<lparr>es_id = ''s'', es_pattern = ''*'', es_destination = ''q'', es_concurrency = 1, es_capacity = 1, es_headers = []\<rparr>"

definition plain_context :: publish_context where
  "plain_context =
     \<lparr>pc_message_id = ''m'', pc_headers = [], pc_partition_key = None, pc_ordering_key = None,
      pc_timeout = None, pc_ttl = None\<rparr>"

definition requeue_ack :: inproc_ack where
  "requeue_ack = fresh_ack\<lparr>ia_action := AA_REQUEUE\<rparr>"

definition item_a :: in_item where "item_a = new_item ''q'' ''a'' plain_context"
definition item_b :: in_item where "item_b = new_item ''q'' ''b'' plain_context"

text \<open>The queue has room for one message and is full with the second when the handler of the first puts it back.\<close>

definition jam_run :: "mem_label list" where
  "jam_run =
     [L_enqueue OP_BLOCK item_a, L_take 0, L_start 0, L_enqueue OP_BLOCK item_b, L_return 0 requeue_ack]"

definition jam_state :: mem_consumer where
  "jam_state = fst (the (mem_run jam_run (start_workers (new_mem_consumer narrow_subscription))))"

lemma jam_state_run:
  "mem_run jam_run (start_workers (new_mem_consumer narrow_subscription)) = Some (jam_state, [item_a, item_b], [])"
  by code_simp

lemma jam_state_simps:
  "mc_closed jam_state = False" "mc_resumed jam_state = True" "mc_queue jam_state = [Some item_b]"
  "mc_workers jam_state = [Requeueing (again item_a)]" "mc_putters jam_state = []"
  by code_simp+

lemma narrow_capacity: "1 \<le> es_capacity narrow_subscription"
  by (simp add: narrow_subscription_def)


text \<open>
  The jam is reached: no internal step is possible, no handler runs, and by the property another
  publish, a pause and a resume move nothing.
\<close>

definition more_labels :: "mem_label list" where
  "more_labels = [L_enqueue OP_BLOCK item_b, L_pause, L_resume]"

theorem memory_progress_witness:
  "jammed jam_state \<and> (\<exists>c' ins'. mem_run more_labels jam_state = Some (c', ins', [])
      \<and> mc_queue c' = [Some item_b] \<and> mc_workers c' = [Requeueing (again item_a)])"
proof -
  have later: "L_close \<notin> set more_labels" by (simp add: more_labels_def)
  have "mem_run more_labels jam_state \<noteq> None" by code_simp
  then obtain c' ins' outs' where more: "mem_run more_labels jam_state = Some (c', ins', outs')" by auto
  have full: "queue_full jam_state" by code_simp
  have no_step: "\<not> (\<exists>l c'. internal l \<and> mem_step l jam_state = Some c')"
  proof
    assume "\<exists>l c'. internal l \<and> mem_step l jam_state = Some c'"
    then obtain l c' where "internal l" "mem_step l jam_state = Some c'" by blast
    then show False
      by (cases l) (auto simp: admit_def worker_take_def worker_start_def worker_wake_def worker_put_def
          worker_at_def jam_state_simps full split: if_splits)
  qed
  have some: "in_system jam_state \<noteq> []" by (simp add: in_system_def busy_items_def jam_state_simps)
  have other: "\<not> (\<exists>it. Handling it \<in> set (mc_workers jam_state))" "\<not> all_stopped jam_state"
    by (simp_all add: jam_state_simps all_stopped_def)
  have flags: "\<not> mc_closed jam_state" "mc_resumed jam_state" by (simp_all add: jam_state_simps)
  from memory_progress [OF narrow_capacity jam_state_run flags some] no_step other
  have "jammed jam_state" and "mc_queue c' = mc_queue jam_state" and "mc_workers c' = mc_workers jam_state"
    and "outs' = []"
    using later more by blast+
  then show ?thesis unfolding more jam_state_simps(3,4) by simp
qed

text \<open>Closing then ends in the time-out, which throws the requeued message away and leaves the other in the queue.\<close>

lemma jam_closes_with_loss:
  "map_option (\<lambda>(c, ins, outs). (mc_phase c, mc_queue c, outs)) (mem_run [L_close, L_timeout, L_finished] jam_state)
     = Some (CP_finished, [Some item_b], [(again item_a, Discarded)])"
  by code_simp

text \<open>A handler that requeues while the consumer drains loses the message although the drain succeeds.\<close>

lemma requeue_while_closing_discards:
  "map_option (\<lambda>(c, ins, outs). (mc_phase c, outs))
     (mem_run [L_enqueue OP_BLOCK item_a, L_take 0, L_start 0, L_close, L_return 0 requeue_ack, L_joined,
               L_sentinel, L_sentinel, L_take 0, L_finished]
        (start_workers (new_mem_consumer narrow_subscription)))
   = Some (CP_finished, [(item_a, Discarded)])"
  by code_simp

definition two_consumers :: mem_engine where
  "two_consumers =
     snd (mem_create_consumer (narrow_subscription\<lparr>es_id := ''t'', es_capacity := 2\<rparr>)
       (snd (mem_publish ''q'' ''b'' plain_context
         (snd (mem_create_consumer narrow_subscription
           (mem_connect \<lparr>me_policy = OP_DROP_NEWEST, me_fail_publishes = 0, me_connected = False,
                         me_objects = [], me_consumers = [], me_dropped = 0\<rparr>))))))"

lemma two_consumers_reachable: "mem_engine_reachable two_consumers"
proof -
  have "mem_engine_reachable \<lparr>me_policy = OP_DROP_NEWEST, me_fail_publishes = 0, me_connected = False,
      me_objects = [], me_consumers = [], me_dropped = 0\<rparr>"
    by (rule me_start [of "''drop-newest''" 0]) (simp add: new_mem_engine_def overflow_of_def)
  then show ?thesis unfolding two_consumers_def
    by (intro me_create me_publish me_connect) (simp_all add: narrow_subscription_def)
qed

theorem memory_publish_exact_witness:
  "\<exists>e'. mem_publish ''q'' ''a'' plain_context two_consumers = (PP_done False, e')
     \<and> mc_queue (me_objects e' ! 0) = [Some item_b] \<and> mc_queue (me_objects e' ! 1) = [Some item_a] \<and> me_dropped e' = 1"
proof -
  let ?as = "dict_values (me_consumers two_consumers)"
  let ?it = "new_item ''q'' ''a'' plain_context"
  obtain p e' where run: "mem_publish ''q'' ''a'' plain_context two_consumers = (p, e')" by (rule prod.exhaust)
  have conn: "me_connected two_consumers" "me_fail_publishes two_consumers \<le> 0" "me_policy two_consumers \<noteq> OP_BLOCK"
    by code_simp+
  have r: "receivers ?it ?as two_consumers = [1]" "newly_dropped ?it ?as two_consumers = 1"
    "publish_answer ?it ?as True two_consumers = PP_done False" "me_dropped two_consumers = 0"
    "mc_queue (me_objects two_consumers ! 0) = [Some item_b]" "mc_queue (me_objects two_consumers ! 1) = []"
    by code_simp+
  from memory_publish_exact [OF two_consumers_reachable conn(1,2) refl refl disjI1 [OF conn(3)] run]
  have "p = PP_done False" "me_dropped e' = 1"
    and "\<forall>b. me_objects e' ! b = (if b \<in> {1} then put_nowait (Some ?it) (me_objects two_consumers ! b)
        else me_objects two_consumers ! b)"
    unfolding r by simp_all
  with run r show ?thesis by (intro exI [of _ e']) (simp add: item_a_def)
qed

end
