(* ===== verification/Local.thy ===== *)
theory Local
  imports InProcess
begin

text \<open>
  \<open>broka/engines/local.py\<close>: the engine that runs the matching consumers inside the publish call,
  one after the other. The state is the engine; a consumer is an address in \<open>le_objects\<close>, so that a
  publish which has started keeps working with consumers that are removed meanwhile. The callback of a
  consumer, the waiting for \<open>resume\<close> and the sleep are parameters that run on the engine and a world
  \<open>'x\<close>, since other tasks run meanwhile. Delivery repeats while the callback asks for it, so it may not
  return: its result is None then. The semaphore bounds concurrent publishers and is not modelled.
\<close>

record local_consumer =
  lc_subscription :: engine_subscription
  lc_closed :: bool
  lc_resumed :: bool

record local_engine =
  le_connected :: bool
  le_objects :: "local_consumer list"
  le_consumers :: "(string, nat) dict"

type_synonym 'x local_world = "local_engine \<times> 'x"

record 'x local_env =
  lv_call :: "nat \<Rightarrow> in_item \<Rightarrow> 'x local_world \<Rightarrow> inproc_ack result \<times> 'x local_world"
  lv_wait :: "nat \<Rightarrow> 'x local_world action"
  lv_sleep :: "seconds \<Rightarrow> 'x local_world action"

definition new_local_engine :: local_engine where
  "new_local_engine = \<lparr>le_connected = False, le_objects = [], le_consumers = []\<rparr>"

definition new_local_consumer :: "engine_subscription \<Rightarrow> local_consumer" where
  "new_local_consumer s = \<lparr>lc_subscription = s, lc_closed = False, lc_resumed = True\<rparr>"

definition consumer_pause :: "local_consumer \<Rightarrow> local_consumer" where
  "consumer_pause c = c\<lparr>lc_resumed := False\<rparr>"

definition consumer_resume :: "local_consumer \<Rightarrow> local_consumer" where
  "consumer_resume c = c\<lparr>lc_resumed := True\<rparr>"

definition consumer_close :: "local_consumer \<Rightarrow> local_consumer" where
  "consumer_close c = c\<lparr>lc_closed := True, lc_resumed := True\<rparr>"

definition at_object :: "nat \<Rightarrow> (local_consumer \<Rightarrow> local_consumer) \<Rightarrow> local_engine \<Rightarrow> local_engine" where
  "at_object a f e = e\<lparr>le_objects := (le_objects e)[a := f (le_objects e ! a)]\<rparr>"

definition local_connect :: "local_engine \<Rightarrow> local_engine" where
  "local_connect e = e\<lparr>le_connected := True\<rparr>"

definition local_disconnect :: "local_engine \<Rightarrow> local_engine" where
  "local_disconnect e =
     fold (\<lambda>a. at_object a consumer_close) (dict_values (le_consumers e))
       (e\<lparr>le_consumers := [], le_connected := False\<rparr>)"

definition local_create_consumer :: "engine_subscription \<Rightarrow> local_engine \<Rightarrow> nat result \<times> local_engine" where
  "local_create_consumer s e =
     (if \<not> le_connected e then (raise RuntimeError, e)
      else if dict_has (le_consumers e) (es_id s) then (raise ValueError, e)
      else (Inr (length (le_objects e)),
            e\<lparr>le_objects := le_objects e @ [new_local_consumer s],
              le_consumers := dict_set (es_id s) (length (le_objects e)) (le_consumers e)\<rparr>))"

definition local_remove_consumer :: "string \<Rightarrow> local_engine \<Rightarrow> local_engine" where
  "local_remove_consumer k e =
     (case dict_get (le_consumers e) k of
        None \<Rightarrow> e
      | Some a \<Rightarrow> at_object a consumer_close (e\<lparr>le_consumers := dict_del k (le_consumers e)\<rparr>))"

definition local_active :: "local_engine \<Rightarrow> nat" where
  "local_active e =
     length (filter (\<lambda>a. \<not> lc_closed (le_objects e ! a)) (dict_values (le_consumers e)))"

subsection \<open>Delivery\<close>

definition await_resumed :: "'x local_env \<Rightarrow> nat \<Rightarrow> 'x local_world action" where
  "await_resumed v a w = (if lc_resumed (le_objects (fst w) ! a) then (Inr (), w) else lv_wait v a w)"

partial_function (option) local_deliver ::
  "'x local_env \<Rightarrow> nat \<Rightarrow> in_item \<Rightarrow> 'x local_world \<Rightarrow> (unit result \<times> 'x local_world) option"
where
  "local_deliver v a it w =
     (if lc_closed (le_objects (fst w) ! a) then Some (Inr (), w)
      else case await_resumed v a w of
        (Inl e, w1) \<Rightarrow> Some (Inl e, w1)
      | (Inr _, w1) \<Rightarrow>
          (case lv_call v a it w1 of
             (Inl e, w2) \<Rightarrow> Some (Inl e, w2)
           | (Inr k, w2) \<Rightarrow>
               if ia_action k = AA_DEFER
               then (case lv_sleep v (ia_delay k) w2 of
                       (Inl e, w3) \<Rightarrow> Some (Inl e, w3)
                     | (Inr _, w3) \<Rightarrow> local_deliver v a (again it) w3)
               else if ia_action k \<noteq> AA_REQUEUE then Some (Inr (), w2)
               else local_deliver v a (again it) w2))"

definition local_target :: "in_item \<Rightarrow> local_engine \<Rightarrow> nat \<Rightarrow> bool" where
  "local_target it e a \<longleftrightarrow> \<not> lc_closed (le_objects e ! a)
     \<and> subscription_matches (lc_subscription (le_objects e ! a)) (it_destination it) (it_context it)"

fun local_publish_loop ::
  "'x local_env \<Rightarrow> in_item \<Rightarrow> nat list \<Rightarrow> 'x local_world \<Rightarrow> (unit result \<times> 'x local_world) option"
where
  "local_publish_loop v it [] w = Some (Inr (), w)"
| "local_publish_loop v it (a # as) w =
     (if local_target it (fst w) a
      then case local_deliver v a it w of
          None \<Rightarrow> None
        | Some (Inl e, w1) \<Rightarrow> Some (Inl e, w1)
        | Some (Inr _, w1) \<Rightarrow> local_publish_loop v it as w1
      else local_publish_loop v it as w)"

definition local_publish ::
  "'x local_env \<Rightarrow> string \<Rightarrow> string \<Rightarrow> publish_context \<Rightarrow> 'x local_world
   \<Rightarrow> (publish_result result \<times> 'x local_world) option"
where
  "local_publish v destination payload context w =
     (if \<not> le_connected (fst w) then Some (raise RuntimeError, w)
      else case local_publish_loop v (new_item destination payload context)
                  (dict_values (le_consumers (fst w))) w of
          None \<Rightarrow> None
        | Some (Inl e, w1) \<Rightarrow> Some (Inl e, w1)
        | Some (Inr _, w1) \<Rightarrow> Some (Inr \<lparr>pr_accepted = True, pr_transport_id = pc_message_id context\<rparr>, w1))"

subsection \<open>Callbacks that follow a script\<close>

text \<open>
  The callback of consumer \<open>a\<close> notes each call with its attempt number and answers as the script says for that
  attempt; it leaves the engine alone.
\<close>

type_synonym call_log = "(nat \<times> int) list"

definition scripted_env :: "(nat \<Rightarrow> int \<Rightarrow> inproc_ack result) \<Rightarrow> call_log local_env" where
  "scripted_env script =
     \<lparr>lv_call = (\<lambda>a it (e, seen). (script a (it_attempt it), (e, seen @ [(a, it_attempt it)]))),
      lv_wait = (\<lambda>a w. (Inr (), w)), lv_sleep = (\<lambda>s w. (Inr (), w))\<rparr>"

definition asks_again :: "inproc_ack result \<Rightarrow> bool" where
  "asks_again r = (case r of Inl e \<Rightarrow> False | Inr k \<Rightarrow> ia_action k = AA_DEFER \<or> ia_action k = AA_REQUEUE)"

definition settles_at :: "(nat \<Rightarrow> int \<Rightarrow> inproc_ack result) \<Rightarrow> nat \<Rightarrow> nat \<Rightarrow> bool" where
  "settles_at script a n \<longleftrightarrow>
     1 \<le> n \<and> (\<forall>k. 1 \<le> k \<and> k < n \<longrightarrow> asks_again (script a (int k))) \<and> \<not> asks_again (script a (int n))"

definition calls_of :: "nat \<Rightarrow> nat \<Rightarrow> nat \<Rightarrow> call_log" where
  "calls_of a m n = map (\<lambda>k. (a, int k)) [m..<Suc n]"

definition final_answer :: "(nat \<Rightarrow> int \<Rightarrow> inproc_ack result) \<Rightarrow> nat \<Rightarrow> nat \<Rightarrow> unit result" where
  "final_answer script a n = (case script a (int n) of Inl e \<Rightarrow> Inl e | Inr k \<Rightarrow> Inr ())"

lemma deliver_once:
  assumes "\<not> lc_closed (le_objects e ! a)"
  shows "local_deliver (scripted_env script) a it (e, seen) =
    (if asks_again (script a (it_attempt it))
     then local_deliver (scripted_env script) a (again it) (e, seen @ [(a, it_attempt it)])
     else Some (case script a (it_attempt it) of Inl x \<Rightarrow> Inl x | Inr k \<Rightarrow> Inr (), (e, seen @ [(a, it_attempt it)])))"
  using assms
  by (subst local_deliver.simps)
     (auto simp: await_resumed_def scripted_env_def asks_again_def split: sum.splits)

lemma deliver_from:
  assumes "\<not> lc_closed (le_objects e ! a)" and "settles_at script a n"
  shows "1 \<le> m \<Longrightarrow> m \<le> n \<Longrightarrow> it_attempt it = int m \<Longrightarrow>
    local_deliver (scripted_env script) a it (e, seen) =
      Some (final_answer script a n, (e, seen @ calls_of a m n))"
proof (induction "n - m" arbitrary: m it seen)
  case 0
  then have "m = n" by simp
  with 0 assms show ?case
    by (simp add: deliver_once settles_at_def calls_of_def final_answer_def)
next
  case (Suc d)
  then have m: "m < n" "1 \<le> m" by simp_all
  with assms(2) have "asks_again (script a (int m))" by (simp add: settles_at_def)
  then have "local_deliver (scripted_env script) a it (e, seen)
      = local_deliver (scripted_env script) a (again it) (e, seen @ [(a, int m)])"
    using assms(1) Suc.prems(3) by (simp add: deliver_once)
  also have "\<dots> = Some (final_answer script a n, (e, (seen @ [(a, int m)]) @ calls_of a (Suc m) n))"
    using Suc.hyps(2) m Suc.prems(3) by (intro Suc.hyps(1)) (simp_all add: again_def)
  also have "(seen @ [(a, int m)]) @ calls_of a (Suc m) n = seen @ calls_of a m n"
    using m by (simp add: calls_of_def upt_conv_Cons)
  finally show ?case .
qed

text \<open>A callback that always asks for the item again keeps the publish call from ever returning.\<close>

lemma deliver_forever:
  assumes "\<forall>k \<ge> 1. asks_again (script a k)"
  shows "local_deliver (scripted_env script) a it w = Some r \<Longrightarrow>
    1 \<le> it_attempt it \<Longrightarrow> lc_closed (le_objects (fst w) ! a)"
proof -
  let ?P = "\<lambda>v b (it :: in_item) (w :: call_log local_world) (r :: unit result \<times> call_log local_world).
    v = scripted_env script \<longrightarrow> b = a \<longrightarrow> 1 \<le> it_attempt it \<longrightarrow> lc_closed (le_objects (fst w) ! b)"
  have "?P v b it w r" if run: "local_deliver v b it w = Some r" for v b it w r
  proof (rule local_deliver.raw_induct [where P = ?P, OF _ run])
    fix deliver :: "call_log local_env \<Rightarrow> nat \<Rightarrow> in_item \<Rightarrow> call_log local_world
        \<Rightarrow> (unit result \<times> call_log local_world) option"
      and v b it w r
    assume IH: "\<And>v b it w r. deliver v b it w = Some r \<Longrightarrow> ?P v b it w r"
      and body: "(if lc_closed (le_objects (fst w) ! b) then Some (Inr (), w)
        else case await_resumed v b w of
          (Inl e, w1) \<Rightarrow> Some (Inl e, w1)
        | (Inr _, w1) \<Rightarrow>
            (case lv_call v b it w1 of
               (Inl e, w2) \<Rightarrow> Some (Inl e, w2)
             | (Inr k, w2) \<Rightarrow>
                 if ia_action k = AA_DEFER
                 then (case lv_sleep v (ia_delay k) w2 of
                         (Inl e, w3) \<Rightarrow> Some (Inl e, w3)
                       | (Inr _, w3) \<Rightarrow> deliver v b (again it) w3)
                 else if ia_action k \<noteq> AA_REQUEUE then Some (Inr (), w2)
                 else deliver v b (again it) w2)) = Some r"
    show "?P v b it w r"
    proof (intro impI, rule ccontr)
      assume v: "v = scripted_env script" and b: "b = a" and it: "1 \<le> it_attempt it"
        and running: "\<not> lc_closed (le_objects (fst w) ! b)"
      obtain e seen where w: "w = (e, seen)" by (rule prod.exhaust)
      have "asks_again (script b (it_attempt it))" using assms it b by simp
      with body v running w have "deliver v b (again it) (e, seen @ [(b, it_attempt it)]) = Some r"
        by (auto simp: await_resumed_def scripted_env_def asks_again_def split: sum.splits if_splits)
      from IH [OF this] v b it have "lc_closed (le_objects e ! b)" by (simp add: again_def)
      with running w show False by simp
    qed
  qed
  then show "local_deliver (scripted_env script) a it w = Some r \<Longrightarrow>
    1 \<le> it_attempt it \<Longrightarrow> lc_closed (le_objects (fst w) ! a)" by blast
qed

fun called :: "(nat \<Rightarrow> int \<Rightarrow> inproc_ack result) \<Rightarrow> (nat \<Rightarrow> nat) \<Rightarrow> nat list \<Rightarrow> nat list" where
  "called script n [] = []"
| "called script n (a # as) = (if is_ok (final_answer script a (n a)) then a # called script n as else [a])"

fun first_error :: "(nat \<Rightarrow> int \<Rightarrow> inproc_ack result) \<Rightarrow> (nat \<Rightarrow> nat) \<Rightarrow> nat list \<Rightarrow> unit result" where
  "first_error script n [] = Inr ()"
| "first_error script n (a # as) =
     (case final_answer script a (n a) of Inl e \<Rightarrow> Inl e | Inr _ \<Rightarrow> first_error script n as)"

lemma publish_loop_script:
  "\<forall>a \<in> set as. local_target it e a \<longrightarrow> settles_at script a (n a) \<Longrightarrow> it_attempt it = 1 \<Longrightarrow>
   local_publish_loop (scripted_env script) it as (e, seen) =
     Some (first_error script n (filter (local_target it e) as),
           (e, seen @ concat (map (\<lambda>a. calls_of a 1 (n a)) (called script n (filter (local_target it e) as)))))"
proof (induction as arbitrary: seen)
  case (Cons a as)
  show ?case
  proof (cases "local_target it e a")
    case True
    then have op: "\<not> lc_closed (le_objects e ! a)" and st: "settles_at script a (n a)"
      using Cons.prems(1) by (simp_all add: local_target_def)
    then have "1 \<le> n a" by (simp add: settles_at_def)
    then have "local_deliver (scripted_env script) a it (e, seen)
        = Some (final_answer script a (n a), (e, seen @ calls_of a 1 (n a)))"
      using Cons.prems(2) by (intro deliver_from [OF op st]) simp_all
    with True Cons show ?thesis by (cases "final_answer script a (n a)") simp_all
  next
    case False
    with Cons show ?thesis by simp
  qed
qed simp

subsection \<open>Properties\<close>

text \<open>
  A local publish runs its consumers to the end, one after the other. On a connected engine
  whose matching consumers settle the message after some number of attempts, the publish call returns;
  the callbacks called are those of the open matching consumers in the order of their registration, each with the attempts
  one, two and so on up to the one that settles, ending with the first consumer whose callback raises,
  whose exception the publisher gets. A callback that asks for the message again forever keeps the publisher
  from ever returning.
\<close>

theorem local_publish_exact:
  assumes "le_connected e" and "it = new_item destination payload context"
    and "ts = filter (local_target it e) (dict_values (le_consumers e))"
    and "\<forall>a \<in> set ts. settles_at script a (n a)"
  shows "local_publish (scripted_env script) destination payload context (e, seen) =
      Some (case first_error script n ts of
              Inl x \<Rightarrow> Inl x
            | Inr _ \<Rightarrow> Inr \<lparr>pr_accepted = True, pr_transport_id = pc_message_id context\<rparr>,
            (e, seen @ concat (map (\<lambda>a. calls_of a 1 (n a)) (called script n ts))))
    \<and> (\<forall>a script'. ts = [a] \<longrightarrow> (\<forall>k \<ge> 1. asks_again (script' a k)) \<longrightarrow>
         local_publish (scripted_env script') destination payload context (e, seen) = None)"
proof
  have "it_attempt it = 1" by (simp add: assms(2) new_item_def)
  moreover have "\<forall>a \<in> set (dict_values (le_consumers e)). local_target it e a \<longrightarrow> settles_at script a (n a)"
    using assms(3,4) by simp
  ultimately show "local_publish (scripted_env script) destination payload context (e, seen) =
      Some (case first_error script n ts of
              Inl x \<Rightarrow> Inl x
            | Inr _ \<Rightarrow> Inr \<lparr>pr_accepted = True, pr_transport_id = pc_message_id context\<rparr>,
            (e, seen @ concat (map (\<lambda>a. calls_of a 1 (n a)) (called script n ts))))"
    using assms(1) publish_loop_script [of "dict_values (le_consumers e)" it e script n seen]
    by (simp add: local_publish_def assms(2,3) split: sum.splits)
next
  show "\<forall>a script'. ts = [a] \<longrightarrow> (\<forall>k \<ge> 1. asks_again (script' a k)) \<longrightarrow>
      local_publish (scripted_env script') destination payload context (e, seen) = None"
  proof (intro allI impI)
    fix a and script' :: "nat \<Rightarrow> int \<Rightarrow> inproc_ack result"
    assume ts: "ts = [a]" and more: "\<forall>k \<ge> 1. asks_again (script' a k)"
    have one: "1 \<le> it_attempt it" by (simp add: assms(2) new_item_def)
    have never: "local_deliver (scripted_env script') a it (e, seen) = None"
    proof -
      have "a \<in> set ts" by (simp add: ts)
      then have "\<not> lc_closed (le_objects e ! a)" by (simp add: assms(3) local_target_def)
      then show ?thesis
        using deliver_forever [of script' a it "(e, seen)"] more one
        by (cases "local_deliver (scripted_env script') a it (e, seen)") auto
    qed
    have "local_publish_loop (scripted_env script') it as (e, seen) = None"
      if "filter (local_target it e) as = [a]" for as
      using that never by (induction as) (auto split: if_splits)
    with ts assms(1-3) show "local_publish (scripted_env script') destination payload context (e, seen) = None"
      by (simp add: local_publish_def)
  qed
qed

definition sample_local :: local_engine where
  "sample_local =
     snd (local_create_consumer
            \<lparr>es_id = ''t'', es_pattern = ''orders.*'', es_destination = ''q'', es_concurrency = 1, es_capacity = 1, es_headers = []\<rparr>
       (snd (local_create_consumer
            \<lparr>es_id = ''s'', es_pattern = ''*'', es_destination = ''q'', es_concurrency = 1, es_capacity = 1, es_headers = []\<rparr>
         (local_connect new_local_engine))))"

definition sample_context :: publish_context where
  "sample_context =
     \<lparr>pc_message_id = ''m'', pc_headers = [], pc_partition_key = None, pc_ordering_key = None,
      pc_timeout = None, pc_ttl = None\<rparr>"

text \<open>The first consumer asks for the message once more, the second takes it at once.\<close>

definition sample_script :: "nat \<Rightarrow> int \<Rightarrow> inproc_ack result" where
  "sample_script a k =
     Inr (fresh_ack\<lparr>ia_action := (if a = 0 \<and> k < 2 then AA_REQUEUE else AA_ACK)\<rparr>)"

theorem local_publish_exact_witness:
  "local_publish (scripted_env sample_script) ''orders.new'' ''x'' sample_context (sample_local, []) =
     Some (Inr \<lparr>pr_accepted = True, pr_transport_id = ''m''\<rparr>, (sample_local, [(0, 1), (0, 2), (1, 1)]))"
proof -
  let ?it = "new_item ''orders.new'' ''x'' sample_context"
  let ?n = "\<lambda>a. if a = 0 then 2 else 1 :: nat"
  have ts: "filter (local_target ?it sample_local) (dict_values (le_consumers sample_local)) = [0, 1]" by code_simp
  have st: "\<forall>a \<in> set [0, 1 :: nat]. settles_at sample_script a (?n a)"
    by (simp add: settles_at_def sample_script_def asks_again_def fresh_ack_def)
  have "le_connected sample_local" by code_simp
  from local_publish_exact [OF this refl ts [symmetric] st, of "[]"]
  have "local_publish (scripted_env sample_script) ''orders.new'' ''x'' sample_context (sample_local, []) =
      Some (case first_error sample_script ?n [0, 1] of
              Inl x \<Rightarrow> Inl x
            | Inr _ \<Rightarrow> Inr \<lparr>pr_accepted = True, pr_transport_id = pc_message_id sample_context\<rparr>,
            (sample_local, [] @ concat (map (\<lambda>a. calls_of a 1 (?n a)) (called sample_script ?n [0, 1]))))"
    by (rule conjunct1)
  then show ?thesis
    by (simp add: final_answer_def sample_script_def calls_of_def sample_context_def upt_conv_Cons)
qed

end
