(* ===== verification/Lifecycle.thy ===== *)
theory Lifecycle
  imports Exceptions
begin

text \<open>
  The \<open>LifecycleManager\<close> of \<open>broka/lifecycle.py\<close>: components are started in order, with those already
  started stopped again when one fails, and stopped in reverse order. Components, clock, listener and
  task supervisor are awaited calls on a world \<open>'w\<close> of their own; a call under \<open>asyncio.timeout\<close> gets its
  limit and is cut off by raising \<open>TimeoutError\<close>. Cancellation is the exception \<open>CancelledError\<close>, which no
  \<open>except Exception\<close> clause catches.
\<close>

datatype lifecycle_state =
  LS_NEW | LS_STARTING | LS_RUNNING | LS_DRAINING | LS_STOPPING | LS_STOPPED | LS_FAILED

record 'w component =
  cp_name :: string
  cp_startup :: "'w action"
  cp_shutdown :: "seconds option \<Rightarrow> 'w action"
  cp_drain :: "(seconds \<Rightarrow> 'w action) option"

datatype lifecycle_event =
    LE_startup_started | LE_startup_completed | LE_drain_started | LE_drain_completed
  | LE_shutdown_started | LE_shutdown_completed bool

record 'w lifecycle_env =
  le_time :: "'w \<Rightarrow> seconds \<times> 'w"
  le_emit :: "lifecycle_event \<Rightarrow> 'w action"
  le_stop_tasks :: "seconds \<Rightarrow> 'w action"

record 'w lifecycle =
  lm_components :: "'w component list"
  lm_started :: "'w component list"
  lm_state :: lifecycle_state

text \<open>An operation of the manager returns its result, the manager and the world.\<close>

type_synonym 'w managed = "unit result \<times> 'w lifecycle \<times> 'w"

definition new_lifecycle :: "'w lifecycle" where
  "new_lifecycle = \<lparr>lm_components = [], lm_started = [], lm_state = LS_NEW\<rparr>"

definition lm_register :: "'w component \<Rightarrow> 'w lifecycle \<Rightarrow> unit result \<times> 'w lifecycle" where
  "lm_register c m =
     (if lm_state m \<notin> {LS_NEW, LS_STOPPED} then (raise LifecycleError, m)
      else if cp_name c = [] then (raise ValueError, m)
      else if list_ex (\<lambda>d. cp_name d = cp_name c) (lm_components m) then (raise ValueError, m)
      else (Inr (), m\<lparr>lm_components := lm_components m @ [c]\<rparr>))"

subsection \<open>Startup\<close>

text \<open>The loop over the components, with those started so far.\<close>

fun start_all :: "'w component list \<Rightarrow> 'w component list \<Rightarrow> 'w \<Rightarrow> unit result \<times> 'w component list \<times> 'w" where
  "start_all [] started w = (Inr (), started, w)"
| "start_all (c # cs) started w =
     (case cp_startup c w of
        (Inl e, w1) \<Rightarrow> (Inl e, started, w1)
      | (Inr _, w1) \<Rightarrow> start_all cs (started @ [c]) w1)"

text \<open>The loop of \<open>_unwind\<close>, over the reversed list.\<close>

fun unwind :: "'w component list \<Rightarrow> 'w action" where
  "unwind [] w = (Inr (), w)"
| "unwind (c # cs) w =
     (case cp_shutdown c None w of
        (Inl e, w1) \<Rightarrow> if is_exception e then unwind cs w1 else (Inl e, w1)
      | (Inr _, w1) \<Rightarrow> unwind cs w1)"

definition lm_startup :: "'w lifecycle_env \<Rightarrow> 'w lifecycle \<Rightarrow> 'w \<Rightarrow> 'w managed" where
  "lm_startup v m w =
     (if lm_state m = LS_RUNNING then (Inr (), m, w)
      else if lm_state m \<in> {LS_STARTING, LS_DRAINING, LS_STOPPING} then (raise LifecycleError, m, w)
      else
        let m1 = m\<lparr>lm_state := LS_STARTING\<rparr>
        in case le_emit v LE_startup_started w of
            (Inl e, w1) \<Rightarrow> (Inl e, m1, w1)
          | (Inr _, w1) \<Rightarrow>
              (case start_all (lm_components m) [] w1 of
                 (Inr _, started, w2) \<Rightarrow>
                   let m2 = m1\<lparr>lm_started := started, lm_state := LS_RUNNING\<rparr>
                   in (case le_emit v LE_startup_completed w2 of (r, w3) \<Rightarrow> (r, m2, w3))
               | (Inl e, started, w2) \<Rightarrow>
                   let m2 = m1\<lparr>lm_started := started\<rparr>
                   in if \<not> is_exception e then (Inl e, m2, w2)
                      else case unwind (rev started) w2 of
                          (Inl e', w3) \<Rightarrow> (Inl e', m2, w3)
                        | (Inr _, w3) \<Rightarrow>
                            (raise LifecycleError, m2\<lparr>lm_started := [], lm_state := LS_FAILED\<rparr>, w3)))"

subsection \<open>Drain\<close>

text \<open>The hooks share one deadline.\<close>

fun drain_all :: "seconds \<Rightarrow> 'w component list \<Rightarrow> 'w action" where
  "drain_all deadline [] w = (Inr (), w)"
| "drain_all deadline (c # cs) w =
     (case cp_drain c of
        None \<Rightarrow> drain_all deadline cs w
      | Some hook \<Rightarrow>
          (case hook deadline w of
             (Inl e, w1) \<Rightarrow> (Inl e, w1)
           | (Inr _, w1) \<Rightarrow> drain_all deadline cs w1))"

definition lm_drain :: "'w lifecycle_env \<Rightarrow> seconds \<Rightarrow> 'w lifecycle \<Rightarrow> 'w \<Rightarrow> 'w managed" where
  "lm_drain v timeout m w =
     (if timeout < 0 then (raise ValueError, m, w)
      else if lm_state m \<in> {LS_NEW, LS_STOPPED} then (Inr (), m, w)
      else if lm_state m \<noteq> LS_RUNNING then (raise LifecycleError, m, w)
      else
        let m1 = m\<lparr>lm_state := LS_DRAINING\<rparr>
        in case le_emit v LE_drain_started w of
            (Inl e, w1) \<Rightarrow> (Inl e, m1, w1)
          | (Inr _, w1) \<Rightarrow>
              let (now, w2) = le_time v w1;
                  (r, w3) = drain_all (now + timeout) (lm_started m) w2;
                  r' = (case r of
                          Inl e \<Rightarrow> if isinstance e TimeoutError then raise LifecycleError else Inl e
                        | Inr _ \<Rightarrow> Inr ())
              in (case le_emit v LE_drain_completed w3 of
                    (Inl e, w4) \<Rightarrow> (Inl e, m1, w4)
                  | (Inr _, w4) \<Rightarrow> (r', m1, w4)))"

subsection \<open>Shutdown\<close>

definition remaining_time :: "'w lifecycle_env \<Rightarrow> seconds \<Rightarrow> seconds \<Rightarrow> 'w \<Rightarrow> seconds \<times> 'w" where
  "remaining_time v grace begun w = (let (now, w1) = le_time v w in (max 0 (grace - (now - begun)), w1))"

text \<open>
  The loop over the reversed list of started components: exceptions are collected, and a component
  that comes after the grace period has a millisecond.
\<close>

fun stop_all ::
  "'w lifecycle_env \<Rightarrow> seconds \<Rightarrow> seconds \<Rightarrow> 'w component list \<Rightarrow> seconds \<Rightarrow> pyexc list \<Rightarrow> 'w
   \<Rightarrow> pyexc list result \<times> 'w"
where
  "stop_all v grace begun [] remaining errors w = (Inr errors, w)"
| "stop_all v grace begun (c # cs) remaining errors w =
     (case cp_shutdown c (Some (if remaining = 0 then 1 / 1000 else remaining)) w of
        (Inr _, w1) \<Rightarrow>
          (case remaining_time v grace begun w1 of
             (remaining', w2) \<Rightarrow> stop_all v grace begun cs remaining' errors w2)
      | (Inl e, w1) \<Rightarrow>
          if is_exception e
          then case remaining_time v grace begun w1 of
              (remaining', w2) \<Rightarrow> stop_all v grace begun cs remaining' (errors @ [e]) w2
          else (Inl e, w1))"

definition stop_components ::
  "'w lifecycle_env \<Rightarrow> seconds \<Rightarrow> seconds \<Rightarrow> 'w component list \<Rightarrow> pyexc list \<Rightarrow> 'w
   \<Rightarrow> pyexc list result \<times> 'w"
where
  "stop_components v grace begun started errors w =
     (case remaining_time v grace begun w of
        (remaining, w1) \<Rightarrow> stop_all v grace begun (rev started) remaining errors w1)"

definition lm_shutdown :: "'w lifecycle_env \<Rightarrow> seconds \<Rightarrow> 'w lifecycle \<Rightarrow> 'w \<Rightarrow> 'w managed" where
  "lm_shutdown v grace m w =
     (if grace < 0 then (raise ValueError, m, w)
      else if lm_state m \<in> {LS_NEW, LS_STOPPED} then (Inr (), m\<lparr>lm_state := LS_STOPPED\<rparr>, w)
      else if lm_state m = LS_STOPPING then (Inr (), m, w)
      else
        let m1 = m\<lparr>lm_state := LS_STOPPING\<rparr>
        in case le_emit v LE_shutdown_started w of
            (Inl e, w1) \<Rightarrow> (Inl e, m1, w1)
          | (Inr _, w1) \<Rightarrow>
              let (begun, w2) = le_time v w1; (r, w3) = le_stop_tasks v grace w2
              in case (case r of
                         Inl e \<Rightarrow> if is_exception e then stop_components v grace begun (lm_started m) [e] w3
                                  else (Inl e, w3)
                       | Inr _ \<Rightarrow> stop_components v grace begun (lm_started m) [] w3) of
                  (Inl e, w4) \<Rightarrow> (Inl e, m1, w4)
                | (Inr errors, w4) \<Rightarrow>
                    let m2 = m1\<lparr>lm_started := [], lm_state := LS_STOPPED\<rparr>
                    in (case le_emit v (LE_shutdown_completed (errors \<noteq> [])) w4 of
                          (Inl e, w5) \<Rightarrow> (Inl e, m2, w5)
                        | (Inr _, w5) \<Rightarrow> (if errors \<noteq> [] then raise LifecycleError else Inr (), m2, w5)))"

text \<open>\<open>async with\<close>: entry starts, exit stops with the default grace period.\<close>

definition lm_aenter :: "'w lifecycle_env \<Rightarrow> 'w lifecycle \<Rightarrow> 'w \<Rightarrow> 'w managed" where
  "lm_aenter v m w = lm_startup v m w"

definition lm_aexit :: "'w lifecycle_env \<Rightarrow> 'w lifecycle \<Rightarrow> 'w \<Rightarrow> 'w managed" where
  "lm_aexit v m w = lm_shutdown v 30 m w"

subsection \<open>Components that write down their calls\<close>

datatype mark = Up string bool | Down string bool

text \<open>Any component, on a world that also keeps the calls with whether they returned.\<close>

definition noting :: "(bool \<Rightarrow> mark) \<Rightarrow> 'w action \<Rightarrow> ('w \<times> mark list) action" where
  "noting mk act = (\<lambda>(w, marks). case act w of (r, w1) \<Rightarrow> (r, (w1, marks @ [mk (is_ok r)])))"

definition beside :: "'w action \<Rightarrow> ('w \<times> mark list) action" where
  "beside act = (\<lambda>(w, marks). case act w of (r, w1) \<Rightarrow> (r, (w1, marks)))"

definition observed :: "'w component \<Rightarrow> ('w \<times> mark list) component" where
  "observed c =
     \<lparr>cp_name = cp_name c,
      cp_startup = noting (Up (cp_name c)) (cp_startup c),
      cp_shutdown = (\<lambda>limit. noting (Down (cp_name c)) (cp_shutdown c limit)),
      cp_drain = map_option (\<lambda>hook deadline. beside (hook deadline)) (cp_drain c)\<rparr>"

definition observed_env :: "'w lifecycle_env \<Rightarrow> ('w \<times> mark list) lifecycle_env" where
  "observed_env v =
     \<lparr>le_time = (\<lambda>(w, marks). case le_time v w of (t, w1) \<Rightarrow> (t, (w1, marks))),
      le_emit = (\<lambda>ev. beside (le_emit v ev)),
      le_stop_tasks = (\<lambda>grace. beside (le_stop_tasks v grace))\<rparr>"

text \<open>The components that are up after some calls; one whose shutdown was called is not.\<close>

fun up_after :: "mark \<Rightarrow> string list \<Rightarrow> string list" where
  "up_after (Up n ok) held = (if ok then held @ [n] else held)"
| "up_after (Down n ok) held = filter (\<lambda>k. k \<noteq> n) held"

definition held_up :: "mark list \<Rightarrow> string list" where
  "held_up marks = fold up_after marks []"

inductive lifecycle_reachable ::
  "'w lifecycle_env \<Rightarrow> ('w \<times> mark list) lifecycle \<Rightarrow> 'w \<times> mark list \<Rightarrow> bool" for v
where
  lr_new: "lifecycle_reachable v new_lifecycle (w, [])"
| lr_register: "lifecycle_reachable v m w \<Longrightarrow> lm_register (observed c) m = (r, m') \<Longrightarrow>
    lifecycle_reachable v m' w"
| lr_startup: "lifecycle_reachable v m w \<Longrightarrow> lm_startup (observed_env v) m w = (r, m', w') \<Longrightarrow>
    lifecycle_reachable v m' w'"
| lr_drain: "lifecycle_reachable v m w \<Longrightarrow> lm_drain (observed_env v) t m w = (r, m', w') \<Longrightarrow>
    lifecycle_reachable v m' w'"
| lr_shutdown: "lifecycle_reachable v m w \<Longrightarrow> lm_shutdown (observed_env v) t m w = (r, m', w') \<Longrightarrow>
    lifecycle_reachable v m' w'"

subsection \<open>What the loops call\<close>

definition names :: "'w component list \<Rightarrow> string list" where
  "names cs = map cp_name cs"

definition ups :: "'w component list \<Rightarrow> mark list" where
  "ups cs = map (\<lambda>c. Up (cp_name c) True) cs"

definition downs :: "'w component list \<Rightarrow> bool list \<Rightarrow> mark list" where
  "downs cs oks = map (\<lambda>(c, ok). Down (cp_name c) ok) (zip cs oks)"

definition all_observed :: "('w \<times> mark list) component list \<Rightarrow> bool" where
  "all_observed cs \<longleftrightarrow> (\<forall>c \<in> set cs. c \<in> range observed)"

lemmas list_defs = names_def ups_def downs_def all_observed_def

lemma observed_simps [simp]:
  "cp_name (observed c) = cp_name c"
  "cp_startup (observed c) (w, marks) =
     (case cp_startup c w of (r, w1) \<Rightarrow> (r, (w1, marks @ [Up (cp_name c) (is_ok r)])))"
  "cp_shutdown (observed c) limit (w, marks) =
     (case cp_shutdown c limit w of (r, w1) \<Rightarrow> (r, (w1, marks @ [Down (cp_name c) (is_ok r)])))"
  by (simp_all add: observed_def noting_def)

lemma emit_marks: "le_emit (observed_env v) ev (w, marks) = (r, (w', marks')) \<Longrightarrow> marks' = marks"
  by (auto simp: observed_env_def beside_def split: prod.splits)

lemma stop_tasks_marks: "le_stop_tasks (observed_env v) g (w, marks) = (r, (w', marks')) \<Longrightarrow> marks' = marks"
  by (auto simp: observed_env_def beside_def split: prod.splits)

lemma time_marks: "le_time (observed_env v) (w, marks) = (t, (w', marks')) \<Longrightarrow> marks' = marks"
  by (auto simp: observed_env_def split: prod.splits)

lemma remaining_marks:
  "remaining_time (observed_env v) g b (w, marks) = (t, (w', marks')) \<Longrightarrow> marks' = marks"
  by (auto simp: remaining_time_def Let_def split: prod.splits dest: time_marks)

lemma held_up_append: "held_up (marks @ marks') = fold up_after marks' (held_up marks)"
  by (simp add: held_up_def)

lemma fold_ups: "fold up_after (ups cs) held = held @ names cs"
  by (induction cs arbitrary: held) (simp_all add: list_defs)

lemma fold_downs:
  "fold up_after (downs cs oks) held = filter (\<lambda>n. n \<notin> set (names (take (length oks) cs))) held"
proof (induction cs arbitrary: oks held)
  case (Cons c cs)
  then show ?case
    by (cases oks) (auto simp: list_defs intro: filter_cong)
qed (simp add: list_defs)

lemma start_all_marks:
  "start_all cs started (w, marks) = (r, started', (w', marks')) \<Longrightarrow> all_observed cs \<Longrightarrow>
   (is_ok r \<longrightarrow> started' = started @ cs \<and> marks' = marks @ ups cs)
   \<and> (\<not> is_ok r \<longrightarrow> (\<exists>k < length cs. started' = started @ take k cs
        \<and> marks' = marks @ ups (take k cs) @ [Up (cp_name (cs ! k)) False]))"
proof (induction cs arbitrary: started w marks)
  case (Cons c cs)
  from Cons.prems(2) obtain d where c: "c = observed d" and cs: "all_observed cs" by (auto simp: all_observed_def)
  obtain r1 w1 where step: "cp_startup d w = (r1, w1)" by (rule prod.exhaust)
  show ?case
  proof (cases r1)
    case (Inl e)
    with Cons.prems(1) step c show ?thesis by (auto simp: ups_def intro!: exI [of _ 0])
  next
    case (Inr u)
    with Cons.prems(1) step c
    have "start_all cs (started @ [c]) (w1, marks @ [Up (cp_name c) True]) = (r, started', (w', marks'))" by simp
    from Cons.IH [OF this cs] show ?thesis
    proof (elim conjE, intro conjI impI)
      assume "is_ok r \<longrightarrow> started' = (started @ [c]) @ cs \<and> marks' = (marks @ [Up (cp_name c) True]) @ ups cs" "is_ok r"
      then show "started' = started @ c # cs" "marks' = marks @ ups (c # cs)" by (simp_all add: ups_def)
    next
      assume "\<not> is_ok r" and "\<not> is_ok r \<longrightarrow> (\<exists>k < length cs. started' = (started @ [c]) @ take k cs
        \<and> marks' = (marks @ [Up (cp_name c) True]) @ ups (take k cs) @ [Up (cp_name (cs ! k)) False])"
      then obtain k where "k < length cs" "started' = (started @ [c]) @ take k cs"
        "marks' = (marks @ [Up (cp_name c) True]) @ ups (take k cs) @ [Up (cp_name (cs ! k)) False]" by blast
      then show "\<exists>k < length (c # cs). started' = started @ take k (c # cs)
        \<and> marks' = marks @ ups (take k (c # cs)) @ [Up (cp_name ((c # cs) ! k)) False]"
        by (intro exI [of _ "Suc k"]) (simp add: ups_def)
    qed
  qed
qed (auto simp: ups_def)

lemma unwind_marks:
  "unwind cs (w, marks) = (r, (w', marks')) \<Longrightarrow> all_observed cs \<Longrightarrow>
   \<exists>oks. marks' = marks @ downs cs oks \<and> (is_ok r \<longrightarrow> length oks = length cs)"
proof (induction cs arbitrary: w marks)
  case Nil
  then show ?case by (intro exI [of _ "[]"]) (simp add: downs_def)
next
  case (Cons c cs)
  from Cons.prems(2) obtain d where c: "c = observed d" and cs: "all_observed cs" by (auto simp: all_observed_def)
  obtain r1 w1 where step: "cp_shutdown d None w = (r1, w1)" by (rule prod.exhaust)
  show ?case
  proof (cases "is_ok r1 \<or> (\<exists>e. r1 = Inl e \<and> is_exception e)")
    case True
    with Cons.prems(1) step c
    have "unwind cs (w1, marks @ [Down (cp_name c) (is_ok r1)]) = (r, (w', marks'))"
      by (auto split: sum.splits)
    from Cons.IH [OF this cs] obtain oks where
      "marks' = (marks @ [Down (cp_name c) (is_ok r1)]) @ downs cs oks" "is_ok r \<longrightarrow> length oks = length cs" by blast
    then show ?thesis by (intro exI [of _ "is_ok r1 # oks"]) (simp add: downs_def)
  next
    case False
    then obtain e where "r1 = Inl e" "\<not> is_exception e" by (cases r1) auto
    with Cons.prems(1) step c show ?thesis
      by (intro exI [of _ "[False]"]) (auto simp: downs_def)
  qed
qed

lemma stop_all_marks:
  "stop_all (observed_env v) g b cs remaining errors (w, marks) = (r, (w', marks')) \<Longrightarrow> all_observed cs \<Longrightarrow>
   \<exists>oks. marks' = marks @ downs cs oks
     \<and> (\<forall>errors'. r = Inr errors' \<longrightarrow> length oks = length cs \<and> (errors' = [] \<longleftrightarrow> errors = [] \<and> (\<forall>ok \<in> set oks. ok)))"
proof (induction cs arbitrary: remaining errors w marks)
  case Nil
  then show ?case by (intro exI [of _ "[]"]) (auto simp: downs_def)
next
  case (Cons c cs)
  from Cons.prems(2) obtain d where c: "c = observed d" and cs: "all_observed cs" by (auto simp: all_observed_def)
  let ?limit = "Some (if remaining = 0 then 1 / 1000 else remaining)"
  obtain r1 w1 where step: "cp_shutdown d ?limit w = (r1, w1)" by (rule prod.exhaust)
  let ?marks = "marks @ [Down (cp_name c) (is_ok r1)]"
  show ?case
  proof (cases "is_ok r1 \<or> (\<exists>e. r1 = Inl e \<and> is_exception e)")
    case True
    obtain t w2 marks2 where rem: "remaining_time (observed_env v) g b (w1, ?marks) = (t, (w2, marks2))"
      by (metis prod.exhaust)
    let ?errors = "case r1 of Inl e \<Rightarrow> errors @ [e] | Inr _ \<Rightarrow> errors"
    from remaining_marks [OF rem] have "marks2 = ?marks" .
    with Cons.prems(1) step c True rem
    have "stop_all (observed_env v) g b cs t ?errors (w2, ?marks) = (r, (w', marks'))"
      by (auto split: sum.splits)
    from Cons.IH [OF this cs] obtain oks where oks: "marks' = ?marks @ downs cs oks"
      "\<forall>errors'. r = Inr errors' \<longrightarrow> length oks = length cs \<and> (errors' = [] \<longleftrightarrow> ?errors = [] \<and> (\<forall>ok \<in> set oks. ok))" by blast
    then show ?thesis
      by (intro exI [of _ "is_ok r1 # oks"]) (cases r1; simp add: downs_def)
  next
    case False
    then obtain e where "r1 = Inl e" "\<not> is_exception e" by (cases r1) auto
    with Cons.prems(1) step c show ?thesis
      by (intro exI [of _ "[False]"]) (auto simp: downs_def)
  qed
qed

lemma drain_all_marks:
  "drain_all deadline cs (w, marks) = (r, (w', marks')) \<Longrightarrow> all_observed cs \<Longrightarrow> marks' = marks"
proof (induction cs arbitrary: w marks)
  case (Cons c cs)
  from Cons.prems(2) obtain d where c: "c = observed d" and cs: "all_observed cs" by (auto simp: all_observed_def)
  show ?case
  proof (cases "cp_drain d")
    case None
    with Cons.prems(1) c have "drain_all deadline cs (w, marks) = (r, (w', marks'))" by (simp add: observed_def)
    from Cons.IH [OF this cs] show ?thesis .
  next
    case (Some hook)
    obtain r1 w1 where hook: "hook deadline w = (r1, w1)" by (rule prod.exhaust)
    show ?thesis
    proof (cases r1)
      case (Inl e)
      with Cons.prems(1) c Some hook show ?thesis by (simp add: observed_def beside_def)
    next
      case (Inr u)
      with Cons.prems(1) c Some hook have "drain_all deadline cs (w1, marks) = (r, (w', marks'))"
        by (simp add: observed_def beside_def)
      from Cons.IH [OF this cs] show ?thesis .
    qed
  qed
qed simp

subsection \<open>The manager's invariant\<close>

definition settled_states :: "lifecycle_state set" where
  "settled_states = {LS_NEW, LS_STOPPED, LS_FAILED}"

definition lifecycle_inv :: "('w \<times> mark list) lifecycle \<Rightarrow> 'w \<times> mark list \<Rightarrow> bool" where
  "lifecycle_inv m w \<longleftrightarrow>
     distinct (names (lm_components m)) \<and> all_observed (lm_components m)
     \<and> (\<exists>k. lm_started m = take k (lm_components m))
     \<and> set (held_up (snd w)) \<subseteq> set (names (lm_started m))
     \<and> (lm_state m \<in> settled_states \<longrightarrow> lm_started m = [])
     \<and> (lm_state m \<in> {LS_RUNNING, LS_DRAINING} \<longrightarrow>
          lm_started m = lm_components m \<and> held_up (snd w) = names (lm_components m))"

lemma names_take: "names (take k cs) = take k (names cs)"
  by (simp add: names_def take_map)

lemma all_observed_take: "all_observed cs \<Longrightarrow> all_observed (take k cs)"
  by (auto simp: all_observed_def dest: in_set_takeD)

lemma all_observed_rev: "all_observed (rev cs) = all_observed cs"
  by (simp add: all_observed_def)

lemma names_rev: "names (rev cs) = rev (names cs)"
  by (simp add: names_def rev_map)

lemma held_after_downs:
  "held_up (marks @ downs cs oks) = filter (\<lambda>n. n \<notin> set (names (take (length oks) cs))) (held_up marks)"
  by (simp add: held_up_append fold_downs)

lemma register_inv:
  assumes "lifecycle_inv m w" and "lm_register (observed c) m = (r, m')"
  shows "lifecycle_inv m' w"
proof (cases "m' = m")
  case False
  with assms(2) have m': "m' = m\<lparr>lm_components := lm_components m @ [observed c]\<rparr>"
    and state: "lm_state m \<in> settled_states" "\<not> list_ex (\<lambda>d. cp_name d = cp_name c) (lm_components m)"
    by (auto simp: lm_register_def settled_states_def split: if_splits)
  with assms(1) have "lm_started m = []" by (simp add: lifecycle_inv_def)
  with assms(1) m' state show ?thesis
    by (auto simp: lifecycle_inv_def list_defs settled_states_def list_ex_iff)
qed (use assms(1) in simp)

text \<open>What a startup that was not refused does to the calls.\<close>

lemma startup_marks:
  assumes inv: "lifecycle_inv m (w, marks)" and state: "lm_state m \<in> settled_states"
    and run: "lm_startup (observed_env v) m (w, marks) = (r, m', (w', marks'))"
  shows "lm_components m' = lm_components m
    \<and> ((lm_state m' = LS_RUNNING \<and> lm_started m' = lm_components m \<and> marks' = marks @ ups (lm_components m))
      \<or> (lm_state m' = LS_STARTING \<and> lm_started m' = lm_started m \<and> marks' = marks \<and> \<not> is_ok r)
      \<or> (\<exists>k < length (lm_components m). \<exists>oks. \<not> is_ok r
          \<and> marks' = marks @ ups (take k (lm_components m)) @ [Up (cp_name (lm_components m ! k)) False]
               @ downs (rev (take k (lm_components m))) oks
          \<and> (lm_state m' = LS_STARTING \<and> lm_started m' = take k (lm_components m)
             \<or> lm_state m' = LS_FAILED \<and> lm_started m' = [] \<and> length oks = k)))"
proof -
  from inv have obs: "all_observed (lm_components m)" by (simp add: lifecycle_inv_def)
  obtain r1 w1 marks1 where emit: "le_emit (observed_env v) LE_startup_started (w, marks) = (r1, (w1, marks1))"
    by (metis prod.exhaust)
  from emit_marks [OF emit] have marks1: "marks1 = marks" .
  have guards: "lm_state m \<noteq> LS_RUNNING" "lm_state m \<notin> {LS_STARTING, LS_DRAINING, LS_STOPPING}"
    using state by (auto simp: settled_states_def)
  show ?thesis
  proof (cases r1)
    case (Inl e)
    with run guards emit marks1 show ?thesis by (auto simp: lm_startup_def Let_def)
  next
    case (Inr u)
    obtain r2 started w2 marks2 where all: "start_all (lm_components m) [] (w1, marks) = (r2, started, (w2, marks2))"
      by (metis prod.exhaust)
    note spec = start_all_marks [OF all obs]
    show ?thesis
    proof (cases r2)
      case (Inr u2)
      obtain r3 w3 marks3 where emit2: "le_emit (observed_env v) LE_startup_completed (w2, marks2) = (r3, (w3, marks3))"
        by (metis prod.exhaust)
      from emit_marks [OF emit2] have "marks3 = marks2" .
      with run guards emit marks1 \<open>r1 = Inr u\<close> all spec Inr emit2 show ?thesis
        by (auto simp: lm_startup_def Let_def)
    next
      case (Inl e)
      with spec obtain k where k: "k < length (lm_components m)" "started = take k (lm_components m)"
        "marks2 = marks @ ups (take k (lm_components m)) @ [Up (cp_name (lm_components m ! k)) False]" by auto
      show ?thesis
      proof (cases "is_exception e")
        case False
        have "(r, m', (w', marks')) = (Inl e, m\<lparr>lm_state := LS_STARTING, lm_started := started\<rparr>, (w2, marks2))"
          unfolding run [symmetric] lm_startup_def Let_def
          using guards emit marks1 \<open>r1 = Inr u\<close> Inl all False by simp
        then have comps: "lm_components m' = lm_components m" and "\<not> is_ok r" "lm_state m' = LS_STARTING" "lm_started m' = take k (lm_components m)"
          "marks' = marks2" using k(2) by simp_all
        then have "\<not> is_ok r
          \<and> marks' = marks @ ups (take k (lm_components m)) @ [Up (cp_name (lm_components m ! k)) False]
               @ downs (rev (take k (lm_components m))) []
          \<and> (lm_state m' = LS_STARTING \<and> lm_started m' = take k (lm_components m)
             \<or> lm_state m' = LS_FAILED \<and> lm_started m' = [] \<and> length [] = k)"
          using k marks1 by (simp add: downs_def)
        with comps k(1) show ?thesis by blast
      next
        case True
        obtain r3 w3 marks3 where unw: "unwind (rev started) (w2, marks2) = (r3, (w3, marks3))"
          by (metis prod.exhaust)
        have "all_observed (rev started)" unfolding k(2) all_observed_rev by (rule all_observed_take [OF obs])
        from unwind_marks [OF unw this] obtain oks where oks: "marks3 = marks2 @ downs (rev started) oks"
          "is_ok r3 \<longrightarrow> length oks = k" using k by auto
        show ?thesis
        proof (cases r3)
          case (Inl e3)
          have "(r, m', (w', marks')) = (Inl e3, m\<lparr>lm_state := LS_STARTING, lm_started := started\<rparr>, (w3, marks3))"
            unfolding run [symmetric] lm_startup_def Let_def
            using guards emit marks1 \<open>r1 = Inr u\<close> \<open>r2 = Inl e\<close> all True unw Inl by simp
          then have comps: "lm_components m' = lm_components m" and "\<not> is_ok r" "lm_state m' = LS_STARTING" "lm_started m' = take k (lm_components m)"
            "marks' = marks3" using k(2) by simp_all
          then have "\<not> is_ok r
          \<and> marks' = marks @ ups (take k (lm_components m)) @ [Up (cp_name (lm_components m ! k)) False]
               @ downs (rev (take k (lm_components m))) oks
          \<and> (lm_state m' = LS_STARTING \<and> lm_started m' = take k (lm_components m)
             \<or> lm_state m' = LS_FAILED \<and> lm_started m' = [] \<and> length oks = k)"
            using k oks marks1 by simp
          with comps k(1) show ?thesis by blast
        next
          case (Inr u3)
          have "(r, m', (w', marks')) = (raise LifecycleError,
              m\<lparr>lm_state := LS_STARTING, lm_started := started, lm_started := [], lm_state := LS_FAILED\<rparr>, (w3, marks3))"
            unfolding run [symmetric] lm_startup_def Let_def
            using guards emit marks1 \<open>r1 = Inr u\<close> \<open>r2 = Inl e\<close> all True unw Inr by simp
          then have comps: "lm_components m' = lm_components m" and "\<not> is_ok r" "lm_state m' = LS_FAILED" "lm_started m' = []" "marks' = marks3"
            by simp_all
          then have "\<not> is_ok r
          \<and> marks' = marks @ ups (take k (lm_components m)) @ [Up (cp_name (lm_components m ! k)) False]
               @ downs (rev (take k (lm_components m))) oks
          \<and> (lm_state m' = LS_STARTING \<and> lm_started m' = take k (lm_components m)
             \<or> lm_state m' = LS_FAILED \<and> lm_started m' = [] \<and> length oks = k)"
            using k oks marks1 Inr by simp
          with comps k(1) show ?thesis by blast
        qed
      qed
    qed
  qed
qed

lemma held_ups:
  "held_up marks = [] \<Longrightarrow> held_up (marks @ ups cs @ [Up n False] @ rest) = fold up_after rest (names cs)"
  by (simp add: held_up_append fold_ups)

lemma startup_inv:
  assumes inv: "lifecycle_inv m w" and run: "lm_startup (observed_env v) m w = (r, m', w')"
  shows "lifecycle_inv m' w'"
proof (cases "lm_state m \<in> settled_states")
  case False
  then have "m' = m \<and> w' = w" using run
    by (cases "lm_state m") (auto simp: lm_startup_def settled_states_def)
  with inv show ?thesis by simp
next
  case True
  obtain w0 marks where w: "w = (w0, marks)" by (rule prod.exhaust)
  obtain w1 marks' where w': "w' = (w1, marks')" by (rule prod.exhaust)
  let ?cs = "lm_components m"
  from inv True w have basic: "distinct (names ?cs)" "all_observed ?cs" "lm_started m = []" "held_up marks = []"
    by (auto simp: lifecycle_inv_def names_def)
  from startup_marks [OF inv [unfolded w] True run [unfolded w w']]
  consider (running) "lm_components m' = ?cs" "lm_state m' = LS_RUNNING" "lm_started m' = ?cs" "marks' = marks @ ups ?cs"
    | (refused) "lm_components m' = ?cs" "lm_state m' = LS_STARTING" "lm_started m' = lm_started m" "marks' = marks"
    | (failed) k oks where "lm_components m' = ?cs"
        "marks' = marks @ ups (take k ?cs) @ [Up (cp_name (?cs ! k)) False] @ downs (rev (take k ?cs)) oks"
        "lm_state m' = LS_STARTING \<and> lm_started m' = take k ?cs
          \<or> lm_state m' = LS_FAILED \<and> lm_started m' = [] \<and> length oks = k" "k < length ?cs"
    by blast
  then show ?thesis
  proof cases
    case running
    have "held_up marks' = names ?cs" unfolding running(4) held_up_append fold_ups by (simp add: basic(4))
    with running basic show ?thesis
      by (auto simp: lifecycle_inv_def w' settled_states_def intro!: exI [of _ "length ?cs"])
  next
    case refused
    with basic show ?thesis by (simp add: lifecycle_inv_def w' settled_states_def)
  next
    case failed
    have held: "held_up marks' = filter (\<lambda>n. n \<notin> set (names (take (length oks) (rev (take k ?cs))))) (names (take k ?cs))"
      unfolding failed(2) held_ups [OF basic(4)] by (rule fold_downs)
    have "set (held_up marks') \<subseteq> set (names (lm_started m'))"
    proof (cases "length oks = k")
      case True
      have "take k (rev (take k ?cs)) = rev (take k ?cs)" by simp
      then show ?thesis unfolding held True by (simp add: names_rev)
    next
      case False
      with failed(3) show ?thesis unfolding held by auto
    qed
    with failed(1,3) basic show ?thesis
      by (auto simp: lifecycle_inv_def w' settled_states_def)
  qed
qed

lemma started_observed: "lifecycle_inv m w \<Longrightarrow> all_observed (lm_started m)"
  unfolding lifecycle_inv_def by (elim conjE exE) (simp add: all_observed_take)

lemma drain_inv:
  assumes inv: "lifecycle_inv m w" and run: "lm_drain (observed_env v) t m w = (r, m', w')"
  shows "lifecycle_inv m' w'"
proof (cases "0 \<le> t \<and> lm_state m = LS_RUNNING")
  case False
  then have "m' = m \<and> w' = w" using run by (auto simp: lm_drain_def split: if_splits)
  with inv show ?thesis by simp
next
  case True
  obtain w0 marks where w: "w = (w0, marks)" by (rule prod.exhaust)
  obtain w1 marks' where w': "w' = (w1, marks')" by (rule prod.exhaust)
  have obs: "all_observed (lm_started m)" by (rule started_observed [OF inv])
  obtain r1 w1 marks1 where emit: "le_emit (observed_env v) LE_drain_started (w0, marks) = (r1, (w1, marks1))"
    by (metis prod.exhaust)
  obtain now w2 marks2 where time: "le_time (observed_env v) (w1, marks1) = (now, (w2, marks2))"
    by (metis prod.exhaust)
  obtain r3 w3 marks3 where dr: "drain_all (now + t) (lm_started m) (w2, marks2) = (r3, (w3, marks3))"
    by (metis prod.exhaust)
  obtain r4 w4 marks4 where emit2: "le_emit (observed_env v) LE_drain_completed (w3, marks3) = (r4, (w4, marks4))"
    by (metis prod.exhaust)
  have "marks1 = marks" "marks2 = marks1" "marks3 = marks2" "marks4 = marks3"
    by (rule emit_marks [OF emit] time_marks [OF time] drain_all_marks [OF dr obs] emit_marks [OF emit2])+
  with run True w w' emit time dr emit2 have "m' = m\<lparr>lm_state := LS_DRAINING\<rparr>" "marks' = marks"
    by (auto simp: lm_drain_def Let_def split: sum.splits)
  with inv w w' True show ?thesis by (auto simp: lifecycle_inv_def settled_states_def)
qed

text \<open>What a shutdown that was not refused does to the calls.\<close>

lemma shutdown_marks:
  assumes inv: "lifecycle_inv m (w, marks)"
    and state: "0 \<le> g" "lm_state m \<notin> {LS_NEW, LS_STOPPED, LS_STOPPING}"
    and run: "lm_shutdown (observed_env v) g m (w, marks) = (r, m', (w', marks'))"
  shows "lm_components m' = lm_components m
    \<and> (\<exists>oks. marks' = marks @ downs (rev (lm_started m)) oks
        \<and> (lm_state m' = LS_STOPPING \<and> lm_started m' = lm_started m \<and> \<not> is_ok r
          \<or> lm_state m' = LS_STOPPED \<and> lm_started m' = [] \<and> length oks = length (lm_started m)
            \<and> (is_ok r \<longrightarrow> (\<forall>ok \<in> set oks. ok))))"
proof -
  have obs: "all_observed (rev (lm_started m))" using started_observed [OF inv] by (simp add: all_observed_rev)
  have guards: "\<not> g < 0" "lm_state m \<notin> {LS_NEW, LS_STOPPED}" "lm_state m \<noteq> LS_STOPPING" using state by auto
  obtain r1 w1 marks1 where emit: "le_emit (observed_env v) LE_shutdown_started (w, marks) = (r1, (w1, marks1))"
    by (metis prod.exhaust)
  obtain begun w2 marks2 where time: "le_time (observed_env v) (w1, marks1) = (begun, (w2, marks2))"
    by (metis prod.exhaust)
  obtain r3 w3 marks3 where tasks: "le_stop_tasks (observed_env v) g (w2, marks2) = (r3, (w3, marks3))"
    by (metis prod.exhaust)
  obtain t4 w4 marks4 where rem: "remaining_time (observed_env v) g begun (w3, marks3) = (t4, (w4, marks4))"
    by (metis prod.exhaust)
  define errors where "errors = (case r3 of Inl e \<Rightarrow> [e] | Inr _ \<Rightarrow> [])"
  obtain r5 w5 marks5 where stop: "stop_all (observed_env v) g begun (rev (lm_started m)) t4 errors (w4, marks4)
      = (r5, (w5, marks5))" by (metis prod.exhaust)
  have marks4: "marks1 = marks" "marks2 = marks1" "marks3 = marks2" "marks4 = marks3"
    by (rule emit_marks [OF emit] time_marks [OF time] stop_tasks_marks [OF tasks] remaining_marks [OF rem])+
  from stop_all_marks [OF stop obs] obtain oks where oks: "marks5 = marks4 @ downs (rev (lm_started m)) oks"
    "\<forall>errors'. r5 = Inr errors' \<longrightarrow> length oks = length (lm_started m)
       \<and> (errors' = [] \<longleftrightarrow> errors = [] \<and> (\<forall>ok \<in> set oks. ok))" by auto
  show ?thesis
  proof (cases "is_ok r1 \<and> (is_ok r3 \<or> (\<exists>e. r3 = Inl e \<and> is_exception e)) \<and> is_ok r5")
    case False
    have "\<not> is_ok r \<and> m' = m\<lparr>lm_state := LS_STOPPING\<rparr> \<and> (marks' = marks \<or> marks' = marks5)"
      using False run guards emit time tasks rem stop marks4
      by (cases r1; cases r3; cases r5)
         (auto simp: lm_shutdown_def Let_def stop_components_def errors_def split: if_splits)
    moreover have "marks = marks @ downs (rev (lm_started m)) []" by (simp add: downs_def)
    ultimately show ?thesis using oks(1) marks4 by auto
  next
    case True
    then obtain errors' where r5: "r5 = Inr errors'" by (auto simp: is_ok_iff)
    obtain r6 w6 marks6 where emit2:
      "le_emit (observed_env v) (LE_shutdown_completed (errors' \<noteq> [])) (w5, marks5) = (r6, (w6, marks6))"
      by (metis prod.exhaust)
    from emit_marks [OF emit2] have marks6: "marks6 = marks5" .
    have stopped: "(case r3 of
          Inl e \<Rightarrow> if is_exception e then stop_components (observed_env v) g begun (lm_started m) [e] (w3, marks3)
                   else (Inl e, (w3, marks3))
        | Inr _ \<Rightarrow> stop_components (observed_env v) g begun (lm_started m) [] (w3, marks3)) = (Inr errors', (w5, marks5))"
      using True rem stop r5 by (cases r3) (auto simp: stop_components_def errors_def)
    from True obtain u where r1: "r1 = Inr u" by (auto simp: is_ok_iff)
    have "(r, m', (w', marks')) = (case r6 of
        Inl e \<Rightarrow> (Inl e, m\<lparr>lm_state := LS_STOPPING, lm_started := [], lm_state := LS_STOPPED\<rparr>, (w6, marks6))
      | Inr _ \<Rightarrow> (if errors' \<noteq> [] then raise LifecycleError else Inr (),
                 m\<lparr>lm_state := LS_STOPPING, lm_started := [], lm_state := LS_STOPPED\<rparr>, (w6, marks6)))"
      unfolding run [symmetric] lm_shutdown_def Let_def
      using guards emit time tasks r1 stopped emit2 by simp
    then have "m' = m\<lparr>lm_state := LS_STOPPING, lm_started := [], lm_state := LS_STOPPED\<rparr>" "marks' = marks5" "is_ok r \<longrightarrow> errors' = []"
      using marks6 by (auto split: sum.splits if_splits)
    with oks r5 marks4 show ?thesis by auto
  qed
qed

lemma shutdown_inv:
  assumes inv: "lifecycle_inv m w" and run: "lm_shutdown (observed_env v) t m w = (r, m', w')"
  shows "lifecycle_inv m' w'"
proof (cases "0 \<le> t \<and> lm_state m \<notin> {LS_NEW, LS_STOPPED, LS_STOPPING}")
  case False
  then consider "t < 0" | "\<not> t < 0" "lm_state m \<in> {LS_NEW, LS_STOPPED}"
    | "\<not> t < 0" "lm_state m \<notin> {LS_NEW, LS_STOPPED}" "lm_state m = LS_STOPPING" by fastforce
  then have "w' = w \<and> (m' = m \<or> lm_state m \<in> settled_states \<and> m' = m\<lparr>lm_state := LS_STOPPED\<rparr>)"
  proof cases
    case 2
    then have "lm_state m \<in> settled_states" by (auto simp: settled_states_def)
    with 2 run show ?thesis by (simp add: lm_shutdown_def)
  qed (use run in \<open>simp_all add: lm_shutdown_def\<close>)
  with inv show ?thesis by (auto simp: lifecycle_inv_def settled_states_def)
next
  case True
  then have t: "0 \<le> t" and st: "lm_state m \<notin> {LS_NEW, LS_STOPPED, LS_STOPPING}" by simp_all
  obtain w0 marks where w: "w = (w0, marks)" by (rule prod.exhaust)
  obtain w1 marks' where w': "w' = (w1, marks')" by (rule prod.exhaust)
  from shutdown_marks [OF inv [unfolded w] t st run [unfolded w w']] obtain oks where
    cs: "lm_components m' = lm_components m" and marks': "marks' = marks @ downs (rev (lm_started m)) oks"
    and cases: "lm_state m' = LS_STOPPING \<and> lm_started m' = lm_started m
      \<or> lm_state m' = LS_STOPPED \<and> lm_started m' = [] \<and> length oks = length (lm_started m)" by blast
  have held: "held_up marks' = filter (\<lambda>n. n \<notin> set (names (take (length oks) (rev (lm_started m))))) (held_up marks)"
    unfolding marks' by (rule held_after_downs)
  have le: "set (held_up marks) \<subseteq> set (names (lm_started m))" using inv w by (simp add: lifecycle_inv_def)
  have "set (held_up marks') \<subseteq> set (names (lm_started m'))"
  proof (cases "length oks = length (lm_started m)")
    case True
    then have "take (length oks) (rev (lm_started m)) = rev (lm_started m)" by simp
    with le have "set (held_up marks') = {}" unfolding held by (auto simp: names_rev)
    then show ?thesis by simp
  next
    case False
    with cases le show ?thesis unfolding held by auto
  qed
  moreover from inv obtain k where "lm_started m = take k (lm_components m)" unfolding lifecycle_inv_def by blast
  with cases cs have "lm_started m' = take k (lm_components m') \<or> lm_started m' = take 0 (lm_components m')" by auto
  then have "\<exists>k. lm_started m' = take k (lm_components m')" by blast
  moreover have "lm_state m' \<in> settled_states \<longrightarrow> lm_started m' = []" "lm_state m' \<notin> {LS_RUNNING, LS_DRAINING}"
    using cases by (auto simp: settled_states_def)
  ultimately show ?thesis using inv cs w' by (simp add: lifecycle_inv_def)
qed

lemma lifecycle_reachable_inv: "lifecycle_reachable v m w \<Longrightarrow> lifecycle_inv m w"
proof (induction rule: lifecycle_reachable.induct)
  case (lr_new w)
  show ?case by (simp add: lifecycle_inv_def new_lifecycle_def list_defs held_up_def)
qed (erule (1) register_inv startup_inv drain_inv shutdown_inv)+


subsection \<open>Calls that are not interrupted\<close>

text \<open>The listener never raises, and the components and the task supervisor raise ordinary exceptions at most.\<close>

definition only_exceptions :: "'w action \<Rightarrow> bool" where
  "only_exceptions act \<longleftrightarrow> (\<forall>w e. fst (act w) = Inl e \<longrightarrow> is_exception e)"

definition uninterrupted :: "'w lifecycle_env \<Rightarrow> 'w component list \<Rightarrow> bool" where
  "uninterrupted v cs \<longleftrightarrow>
     (\<forall>ev w. is_ok (fst (le_emit v ev w))) \<and> (\<forall>g. only_exceptions (le_stop_tasks v g))
     \<and> (\<forall>c \<in> set cs. only_exceptions (cp_startup c) \<and> (\<forall>limit. only_exceptions (cp_shutdown c limit)))"

lemma only_exceptionsD: "only_exceptions act \<Longrightarrow> act w = (Inl e, w') \<Longrightarrow> is_exception e"
  unfolding only_exceptions_def by (metis fst_conv)

lemma unwind_ok:
  "\<forall>c \<in> set cs. \<forall>limit. only_exceptions (cp_shutdown c limit) \<Longrightarrow> is_ok (fst (unwind cs w))"
proof (induction cs arbitrary: w)
  case (Cons c cs)
  have ex: "cp_shutdown c None w = (Inl e, w1) \<Longrightarrow> is_exception e" for e w1
    using Cons.prems by (auto intro: only_exceptionsD)
  from Cons show ?case by (auto split: prod.split sum.split dest: ex)
qed simp

lemma stop_all_ok:
  "\<forall>c \<in> set cs. \<forall>limit. only_exceptions (cp_shutdown c limit) \<Longrightarrow>
   is_ok (fst (stop_all v g b cs remaining errors w))"
proof (induction cs arbitrary: remaining errors w)
  case (Cons c cs)
  have ex: "cp_shutdown c limit w = (Inl e, w1) \<Longrightarrow> is_exception e" for e w1 limit
    using Cons.prems by (auto intro: only_exceptionsD)
  from Cons show ?case by (auto split: prod.split sum.split dest: ex)
qed simp

lemma start_all_error:
  "\<forall>c \<in> set cs. only_exceptions (cp_startup c) \<Longrightarrow> start_all cs started w = (Inl e, started', w') \<Longrightarrow> is_exception e"
proof (induction cs arbitrary: started w)
  case (Cons c cs)
  then show ?case by (auto split: prod.splits sum.splits dest: only_exceptionsD)
qed simp

lemma startup_settles:
  assumes "uninterrupted v (lm_components m)" and state: "lm_state m \<in> settled_states"
    and run: "lm_startup v m w = (r, m', w')"
  shows "lm_state m' \<noteq> LS_STARTING"
proof -
  from assms(1) have emit: "\<And>ev w. is_ok (fst (le_emit v ev w))"
    and ups: "\<forall>c \<in> set (lm_components m). only_exceptions (cp_startup c)"
    and downs: "\<forall>c \<in> set (lm_components m). \<forall>limit. only_exceptions (cp_shutdown c limit)"
    by (auto simp: uninterrupted_def)
  obtain r1 w1 where e1: "le_emit v LE_startup_started w = (r1, w1)" by (rule prod.exhaust)
  obtain r2 started w2 where all: "start_all (lm_components m) [] w1 = (r2, started, w2)" by (metis prod.exhaust)
  obtain r3 w3 where e3: "le_emit v LE_startup_completed w2 = (r3, w3)" by (rule prod.exhaust)
  obtain r4 w4 where un: "unwind (rev started) w2 = (r4, w4)" by (rule prod.exhaust)
  have "\<exists>k. started = take k (lm_components m)"
  proof -
    have "start_all cs acc w = (r, s, w') \<Longrightarrow> \<exists>k. s = acc @ take k cs" for cs acc r s and w w' :: 'a
    proof (induction cs arbitrary: acc w)
      case (Cons c cs)
      obtain q w1 where step: "cp_startup c w = (q, w1)" by (rule prod.exhaust)
      show ?case
      proof (cases q)
        case (Inl e)
        with Cons.prems step show ?thesis by (auto intro: exI [of _ 0])
      next
        case (Inr u)
        with Cons.prems step Cons.IH [of "acc @ [c]" w1] obtain k where "s = (acc @ [c]) @ take k cs" by auto
        then show ?thesis by (intro exI [of _ "Suc k"]) simp
      qed
    qed simp
    from this [OF all] show ?thesis by simp
  qed
  then have "set started \<subseteq> set (lm_components m)" by (auto dest: in_set_takeD)
  with downs have un_ok: "is_ok r4" using unwind_ok [of "rev started" w2] un by auto
  have "is_ok r1" using emit [of LE_startup_started w] e1 by simp
  moreover have "r2 = Inl e \<Longrightarrow> is_exception e" for e using start_all_error [OF ups, of "[]" w1 e] all by simp
  moreover have "lm_state m \<noteq> LS_RUNNING" "lm_state m \<notin> {LS_STARTING, LS_DRAINING, LS_STOPPING}"
    using state by (auto simp: settled_states_def)
  ultimately show ?thesis using run e1 all e3 un un_ok
    by (cases r1; cases r2; cases r4) (auto simp: lm_startup_def Let_def)
qed

lemma shutdown_settles:
  assumes "uninterrupted v (lm_started m)" and state: "lm_state m \<notin> {LS_NEW, LS_STOPPED, LS_STOPPING}"
    and g: "0 \<le> g" and run: "lm_shutdown v g m w = (r, m', w')"
  shows "lm_state m' = LS_STOPPED"
proof -
  from assms(1) have emit: "\<And>ev w. is_ok (fst (le_emit v ev w))" and tasks: "only_exceptions (le_stop_tasks v g)"
    and downs: "\<forall>c \<in> set (rev (lm_started m)). \<forall>limit. only_exceptions (cp_shutdown c limit)"
    by (auto simp: uninterrupted_def)
  obtain r1 w1 where e1: "le_emit v LE_shutdown_started w = (r1, w1)" by (rule prod.exhaust)
  obtain begun w2 where time: "le_time v w1 = (begun, w2)" by (rule prod.exhaust)
  obtain r3 w3 where st: "le_stop_tasks v g w2 = (r3, w3)" by (rule prod.exhaust)
  obtain t w4 where rem: "remaining_time v g begun w3 = (t, w4)" by (rule prod.exhaust)
  have r1: "is_ok r1" using emit [of LE_shutdown_started w] e1 by simp
  have ex: "r3 = Inl e \<Longrightarrow> is_exception e" for e using only_exceptionsD [OF tasks] st by auto
  have stopped: "is_ok (fst (stop_components v g begun (lm_started m) errors w3))" for errors
    using stop_all_ok [OF downs] by (simp add: stop_components_def rem)
  then obtain es1 w5 where s1: "stop_components v g begun (lm_started m) [] w3 = (Inr es1, w5)"
    by (metis is_ok_iff prod.collapse)
  have s2: "\<exists>es w6. stop_components v g begun (lm_started m) [e] w3 = (Inr es, w6)" for e
    using stopped by (metis is_ok_iff prod.collapse)
  have guards: "\<not> g < 0" "lm_state m \<notin> {LS_NEW, LS_STOPPED}" "lm_state m \<noteq> LS_STOPPING" using state g by auto
  show ?thesis
  proof (cases r3)
    case (Inl e)
    from s2 obtain es w6 where "stop_components v g begun (lm_started m) [e] w3 = (Inr es, w6)" by blast
    with run guards e1 r1 time st Inl ex [OF Inl] show ?thesis
      by (cases r1) (auto simp: lm_shutdown_def Let_def split: prod.splits sum.splits)
  next
    case (Inr u)
    with run guards e1 r1 time st s1 show ?thesis
      by (cases r1) (auto simp: lm_shutdown_def Let_def split: prod.splits sum.splits)
  qed
qed


subsection \<open>Properties\<close>

text \<open>
  C22: the manager never loses a component. After any sequence of registrations, startups, drains
  and shutdowns, with components, listener and task supervisor that return, fail or are cancelled in any way, every
  component that is up is in the list of started components; when the manager is new, stopped or
  failed nothing is up, and while it runs or drains all its components are up, in the order of their registration.
\<close>

theorem lifecycle_never_leaks:
  assumes "lifecycle_reachable v m (w, marks)"
  shows "set (held_up marks) \<subseteq> set (names (lm_started m))
    \<and> (lm_state m \<in> {LS_NEW, LS_STOPPED, LS_FAILED} \<longrightarrow> held_up marks = [])
    \<and> (lm_state m \<in> {LS_RUNNING, LS_DRAINING} \<longrightarrow> held_up marks = names (lm_components m))"
proof -
  from lifecycle_reachable_inv [OF assms] have inv: "lifecycle_inv m (w, marks)" .
  then have "lm_state m \<in> settled_states \<longrightarrow> set (held_up marks) = {}" by (auto simp: lifecycle_inv_def names_def)
  with inv show ?thesis by (auto simp: lifecycle_inv_def settled_states_def)
qed


text \<open>Three components, of which the second can be made to fail; the world counts the calls.\<close>

definition sample_component :: "string \<Rightarrow> bool \<Rightarrow> bool \<Rightarrow> nat component" where
  "sample_component n starts stops =
     \<lparr>cp_name = n,
      cp_startup = (\<lambda>w. (if starts then Inr () else raise RuntimeError, w + 1)),
      cp_shutdown = (\<lambda>limit w. (if stops then Inr () else raise RuntimeError, w + 1)),
      cp_drain = None\<rparr>"

definition sample_env :: "nat lifecycle_env" where
  "sample_env = \<lparr>le_time = (\<lambda>w. (of_nat w, w)), le_emit = (\<lambda>ev w. (Inr (), w)), le_stop_tasks = (\<lambda>g w. (Inr (), w))\<rparr>"

definition sample_manager :: "bool \<Rightarrow> (nat \<times> mark list) lifecycle" where
  "sample_manager starts =
     \<lparr>lm_components = map observed [sample_component ''db'' True True, sample_component ''bus'' starts True,
        sample_component ''web'' True False],
      lm_started = [], lm_state = LS_NEW\<rparr>"

lemma sample_manager_reachable: "lifecycle_reachable sample_env (sample_manager starts) (0, [])"
proof -
  let ?db = "sample_component ''db'' True True" and ?bus = "sample_component ''bus'' starts True"
    and ?web = "sample_component ''web'' True False"
  let ?m1 = "snd (lm_register (observed ?db) new_lifecycle)"
  let ?m2 = "snd (lm_register (observed ?bus) ?m1)"
  let ?m3 = "snd (lm_register (observed ?web) ?m2)"
  have "lifecycle_reachable sample_env ?m3 (0, [])"
    by (rule lr_register [OF lr_register [OF lr_register [OF lr_new]]]) (rule prod.collapse [symmetric])+
  moreover have "?m3 = sample_manager starts"
    by (simp add: lm_register_def new_lifecycle_def sample_manager_def sample_component_def)
  ultimately show ?thesis by simp
qed

lemma sample_uninterrupted: "uninterrupted (observed_env sample_env) (lm_components (sample_manager starts))"
  by (auto simp: uninterrupted_def only_exceptions_def observed_env_def sample_env_def beside_def
      sample_manager_def sample_component_def)

theorem lifecycle_never_leaks_witness:
  "\<exists>m w marks. lm_startup (observed_env sample_env) (sample_manager True) (0, []) = (Inr (), m, (w, marks))
     \<and> lm_state m = LS_RUNNING \<and> held_up marks = [''db'', ''bus'', ''web'']"
proof -
  obtain r m w marks where run: "lm_startup (observed_env sample_env) (sample_manager True) (0, []) = (r, m, (w, marks))"
    by (metis prod.exhaust)
  have "r = Inr ()" "lm_state m = LS_RUNNING" "names (lm_components m) = [''db'', ''bus'', ''web'']"
    using run by (auto simp: lm_startup_def observed_env_def sample_env_def beside_def sample_manager_def
        sample_component_def names_def)
  with lifecycle_never_leaks [OF lr_startup [OF sample_manager_reachable run]] run show ?thesis by auto
qed


text \<open>
  A shutdown that is cancelled leaves the manager in the state \<open>STOPPING\<close> with its components listed as
  started: no later shutdown does anything, and no startup is accepted.
\<close>

lemma cancelled_shutdown_strands:
  assumes "lm_state m = LS_STOPPING" and "0 \<le> grace"
  shows "lm_shutdown v grace m w = (Inr (), m, w)" and "lm_startup v m w = (raise LifecycleError, m, w)"
    and "lm_register c m = (raise LifecycleError, m)"
  using assms by (simp_all add: lm_shutdown_def lm_startup_def lm_register_def)

lemma cancelled_shutdown_reached:
  assumes "lm_state m = LS_RUNNING" and "0 \<le> grace" and "le_emit v LE_shutdown_started w = (Inr (), w1)"
    and "le_time v w1 = (begun, w2)" and "le_stop_tasks v grace w2 = (raise CancelledError, w3)"
  shows "lm_shutdown v grace m w = (raise CancelledError, m\<lparr>lm_state := LS_STOPPING\<rparr>, w3)"
  using assms by (simp add: lm_shutdown_def)

end
