(* ===== verification/Subscriptions.thy ===== *)
theory Subscriptions
  imports Acknowledgements Exceptions
begin

text \<open>
  \<open>broka/subscription.py\<close>: the subscription options and the lifecycle handle of a subscription. Every method
  runs under the handle's own lock, so it is one step. The controller is the interface the handle relies on: the
  locale \<open>consumer_control\<close> states what pausing, resuming and closing a consumer promise, and its lemmas
  that the handle's state is then the consumer's; the broker's implementation interprets it. Metadata other
  than the header filter, the creation time and the handler itself are left out.
\<close>

subsection \<open>Options\<close>

datatype meta_headers = MH_absent | MH_mapping "(string \<times> string) list" | MH_other

record subscription_options =
  so_mode :: ack_mode
  so_durable :: bool
  so_group :: "string option"
  so_consumer_id :: "string option"
  so_concurrency :: int
  so_capacity :: int
  so_prefetch :: "int option"
  so_max_in_flight :: "int option"
  so_headers :: meta_headers

definition positive_int :: "int \<Rightarrow> unit result" where
  "positive_int n = (if n < 1 then raise ValueError else Inr ())"

definition optional_positive :: "int option \<Rightarrow> unit result" where
  "optional_positive x = (case x of None \<Rightarrow> Inr () | Some n \<Rightarrow> positive_int n)"

definition optional_name :: "string option \<Rightarrow> unit result" where
  "optional_name x = (case x of None \<Rightarrow> Inr () | Some s \<Rightarrow> if blank s then raise ValueError else Inr ())"

fun all_ok :: "unit result list \<Rightarrow> unit result" where
  "all_ok [] = Inr ()"
| "all_ok (r # rs) = (case r of Inl e \<Rightarrow> Inl e | Inr _ \<Rightarrow> all_ok rs)"

definition validate_options :: "subscription_options \<Rightarrow> unit result" where
  "validate_options o' =
     all_ok [positive_int (so_concurrency o'), positive_int (so_capacity o'), optional_positive (so_prefetch o'),
       optional_positive (so_max_in_flight o'), optional_name (so_group o'), optional_name (so_consumer_id o')]"

definition default_options :: subscription_options where
  "default_options =
     \<lparr>so_mode = AM_AUTO, so_durable = False, so_group = None, so_consumer_id = None, so_concurrency = 1,
      so_capacity = 100, so_prefetch = None, so_max_in_flight = None, so_headers = MH_absent\<rparr>"

subsection \<open>The handle\<close>

datatype subscription_state = SS_CREATED | SS_ACTIVE | SS_PAUSED | SS_CLOSED | SS_FAILED

record subscription =
  su_id :: string
  su_options :: subscription_options
  su_state :: subscription_state

text \<open>\<open>SubscriptionController\<close>; without one, pausing and resuming are errors and closing only changes the state.\<close>

record 'w controller =
  ct_pause :: "string \<Rightarrow> 'w action"
  ct_resume :: "string \<Rightarrow> 'w action"
  ct_close :: "string \<Rightarrow> 'w action"

definition new_subscription ::
  "string \<Rightarrow> bool \<Rightarrow> subscription_options \<Rightarrow> subscription_state \<Rightarrow> datetime \<Rightarrow> subscription result"
where
  "new_subscription sid is_callable opts state created_at =
     (if \<not> is_callable then raise TypeError
      else if blank sid then raise ValueError
      else if \<not> is_aware created_at then raise ValueError
      else Inr \<lparr>su_id = sid, su_options = opts, su_state = state\<rparr>)"

definition su_active :: "subscription \<Rightarrow> bool" where
  "su_active s \<longleftrightarrow> su_state s = SS_ACTIVE"

definition su_closed :: "subscription \<Rightarrow> bool" where
  "su_closed s \<longleftrightarrow> su_state s = SS_CLOSED"

definition invalid_transition :: "'a result" where
  "invalid_transition = raise InvalidStateTransitionError"

type_synonym 'w handled = "unit result \<times> subscription \<times> 'w"

definition controlled :: "(string \<Rightarrow> 'w action) \<Rightarrow> subscription_state \<Rightarrow> subscription \<Rightarrow> 'w \<Rightarrow> 'w handled" where
  "controlled call target s w =
     (case call (su_id s) w of
        (Inl e, w1) \<Rightarrow> (Inl e, s, w1)
      | (Inr _, w1) \<Rightarrow> (Inr (), s\<lparr>su_state := target\<rparr>, w1))"

definition su_activate :: "subscription \<Rightarrow> 'w \<Rightarrow> 'w handled" where
  "su_activate s w =
     (if su_state s = SS_ACTIVE then (Inr (), s, w)
      else if su_state s \<noteq> SS_CREATED then (invalid_transition, s, w)
      else (Inr (), s\<lparr>su_state := SS_ACTIVE\<rparr>, w))"

definition su_pause :: "'w controller option \<Rightarrow> subscription \<Rightarrow> 'w \<Rightarrow> 'w handled" where
  "su_pause ct s w =
     (if su_state s = SS_PAUSED then (Inr (), s, w)
      else if su_state s \<noteq> SS_ACTIVE then (invalid_transition, s, w)
      else case ct of
          None \<Rightarrow> (raise LifecycleError, s, w)
        | Some c \<Rightarrow> controlled (ct_pause c) SS_PAUSED s w)"

definition su_resume :: "'w controller option \<Rightarrow> subscription \<Rightarrow> 'w \<Rightarrow> 'w handled" where
  "su_resume ct s w =
     (if su_state s = SS_ACTIVE then (Inr (), s, w)
      else if su_state s \<noteq> SS_PAUSED then (invalid_transition, s, w)
      else case ct of
          None \<Rightarrow> (raise LifecycleError, s, w)
        | Some c \<Rightarrow> controlled (ct_resume c) SS_ACTIVE s w)"

definition su_close :: "'w controller option \<Rightarrow> subscription \<Rightarrow> 'w \<Rightarrow> 'w handled" where
  "su_close ct s w =
     (if su_state s = SS_CLOSED then (Inr (), s, w)
      else case ct of
          None \<Rightarrow> (Inr (), s\<lparr>su_state := SS_CLOSED\<rparr>, w)
        | Some c \<Rightarrow> controlled (ct_close c) SS_CLOSED s w)"

definition su_fail :: "subscription \<Rightarrow> 'w \<Rightarrow> 'w handled" where
  "su_fail s w =
     (if su_state s = SS_CLOSED then (invalid_transition, s, w) else (Inr (), s\<lparr>su_state := SS_FAILED\<rparr>, w))"

definition su_aenter :: "subscription \<Rightarrow> 'w \<Rightarrow> 'w handled" where
  "su_aenter s w = (if su_state s = SS_CREATED then su_activate s w else (Inr (), s, w))"

definition su_aexit :: "'w controller option \<Rightarrow> subscription \<Rightarrow> 'w \<Rightarrow> 'w handled" where
  "su_aexit ct s w = su_close ct s w"

subsection \<open>Many handles over one controller\<close>

datatype handle_op = HO_activate | HO_pause | HO_resume | HO_close | HO_fail

fun handle_step :: "'w controller \<Rightarrow> handle_op \<Rightarrow> subscription \<Rightarrow> 'w \<Rightarrow> 'w handled" where
  "handle_step c HO_activate s w = su_activate s w"
| "handle_step c HO_pause s w = su_pause (Some c) s w"
| "handle_step c HO_resume s w = su_resume (Some c) s w"
| "handle_step c HO_close s w = su_close (Some c) s w"
| "handle_step c HO_fail s w = su_fail s w"

type_synonym handles = "(string, subscription) dict"

definition handles_step :: "'w controller \<Rightarrow> string \<times> handle_op \<Rightarrow> handles \<times> 'w \<Rightarrow> handles \<times> 'w" where
  "handles_step c = (\<lambda>(k, op) (hs, w).
     case dict_get hs k of
       None \<Rightarrow> (hs, w)
     | Some s \<Rightarrow> (case handle_step c op s w of (r, s', w') \<Rightarrow> (dict_set k s' hs, w')))"

definition run_handles :: "'w controller \<Rightarrow> (string \<times> handle_op) list \<Rightarrow> handles \<times> 'w \<Rightarrow> handles \<times> 'w" where
  "run_handles c ops w = fold (handles_step c) ops w"

text \<open>What the consumer of a subscription does.\<close>

datatype consumer_phase = Delivering | Held | Released

fun expected_phase :: "subscription_state \<Rightarrow> consumer_phase option" where
  "expected_phase SS_CREATED = Some Delivering"
| "expected_phase SS_ACTIVE = Some Delivering"
| "expected_phase SS_PAUSED = Some Held"
| "expected_phase SS_CLOSED = Some Released"
| "expected_phase SS_FAILED = None"

text \<open>
  The laws of a controller: on a consumer that is there, a call that returns brings it into the phase
  asked for, one that raises changes nothing, and other consumers never notice.
\<close>

locale consumer_control =
  fixes control :: "'w controller"
    and phase :: "'w \<Rightarrow> string \<Rightarrow> consumer_phase"
    and valid :: "'w \<Rightarrow> bool"
  assumes pause_law: "valid w \<Longrightarrow> ct_pause control k w = (r, w') \<Longrightarrow>
      valid w' \<and> (\<forall>j. j \<noteq> k \<longrightarrow> phase w' j = phase w j)
      \<and> phase w' k = (if is_ok r then Held else phase w k)"
    and resume_law: "valid w \<Longrightarrow> ct_resume control k w = (r, w') \<Longrightarrow>
      valid w' \<and> (\<forall>j. j \<noteq> k \<longrightarrow> phase w' j = phase w j)
      \<and> phase w' k = (if is_ok r then Delivering else phase w k)"
    and close_law: "valid w \<Longrightarrow> ct_close control k w = (r, w') \<Longrightarrow>
      valid w' \<and> (\<forall>j. j \<noteq> k \<longrightarrow> phase w' j = phase w j)
      \<and> phase w' k = (if is_ok r then Released else phase w k)"
begin

definition tracks :: "handles \<Rightarrow> 'w \<Rightarrow> bool" where
  "tracks hs w \<longleftrightarrow> (\<forall>k s. dict_get hs k = Some s \<longrightarrow>
     su_id s = k \<and> (\<forall>p. expected_phase (su_state s) = Some p \<longrightarrow> phase w k = p))"

lemma step_tracks:
  assumes "valid w" and "su_id s = k" and "\<forall>p. expected_phase (su_state s) = Some p \<longrightarrow> phase w k = p"
    and "handle_step control op s w = (r, s', w')"
  shows "valid w' \<and> (\<forall>j. j \<noteq> k \<longrightarrow> phase w' j = phase w j) \<and> su_id s' = k
    \<and> (\<forall>p. expected_phase (su_state s') = Some p \<longrightarrow> phase w' k = p)"
proof -
  obtain q u where call: "(case op of HO_pause \<Rightarrow> ct_pause control k w | HO_resume \<Rightarrow> ct_resume control k w
      | _ \<Rightarrow> ct_close control k w) = (q, u)" by (rule prod.exhaust)
  show ?thesis
  proof (cases op)
    case HO_activate
    with assms show ?thesis by (auto simp: su_activate_def split: if_splits)
  next
    case HO_pause
    with call have "ct_pause control k w = (q, u)" by simp
    from pause_law [OF assms(1) this] this assms HO_pause show ?thesis
      by (cases q) (auto simp: su_pause_def controlled_def split: if_splits)
  next
    case HO_resume
    with call have "ct_resume control k w = (q, u)" by simp
    from resume_law [OF assms(1) this] this assms HO_resume show ?thesis
      by (cases q) (auto simp: su_resume_def controlled_def split: if_splits)
  next
    case HO_close
    with call have "ct_close control k w = (q, u)" by simp
    from close_law [OF assms(1) this] this assms HO_close show ?thesis
      by (cases q) (auto simp: su_close_def controlled_def split: if_splits)
  next
    case HO_fail
    with assms show ?thesis by (auto simp: su_fail_def split: if_splits)
  qed
qed

lemma handles_step_tracks:
  assumes "valid w" and "tracks hs w" and "handles_step control a (hs, w) = (hs', w')"
  shows "valid w' \<and> tracks hs' w'"
proof -
  obtain k op where a: "a = (k, op)" by (rule prod.exhaust)
  show ?thesis
  proof (cases "dict_get hs k")
    case None
    with assms a show ?thesis by (auto simp: handles_step_def)
  next
    case (Some s)
    obtain r s' u where step: "handle_step control op s w = (r, s', u)" by (metis prod.exhaust)
    from assms(2) Some have "su_id s = k" "\<forall>p. expected_phase (su_state s) = Some p \<longrightarrow> phase w k = p"
      by (auto simp: tracks_def)
    from step_tracks [OF assms(1) this step] assms(2,3) a Some step show ?thesis
      by (auto simp: handles_step_def tracks_def split: if_splits)
  qed
qed

lemma run_tracks: "valid w \<Longrightarrow> tracks hs w \<Longrightarrow> run_handles control ops (hs, w) = (hs', w') \<Longrightarrow>
  valid w' \<and> tracks hs' w'"
proof (induction ops arbitrary: hs w)
  case (Cons a ops)
  obtain hs1 w1 where step: "handles_step control a (hs, w) = (hs1, w1)" by (rule prod.exhaust)
  from handles_step_tracks [OF Cons.prems(1,2) step] have "valid w1" "tracks hs1 w1" by auto
  from Cons.IH [OF this] Cons.prems(3) step show ?case by (simp add: run_handles_def)
qed (simp add: run_handles_def)

end

text \<open>A closed handle stays closed, and a second close reaches no controller.\<close>

lemma closed_handle_stays:
  "su_state s = SS_CLOSED \<Longrightarrow> \<exists>r. handle_step c op s w = (r, s, w)"
  by (cases op) (auto simp: su_activate_def su_pause_def su_resume_def su_close_def su_fail_def)

text \<open>A handle that is marked failed keeps its consumer delivering.\<close>

lemma failed_handle_keeps_consumer:
  "su_state s \<noteq> SS_CLOSED \<Longrightarrow> handle_step c HO_fail s w = (Inr (), s\<lparr>su_state := SS_FAILED\<rparr>, w)"
  by (simp add: su_fail_def)

end
