(* ===== verification/Supervisor.thy ===== *)
theory Supervisor
  imports Exceptions
begin

text \<open>
  The \<open>TaskSupervisor\<close> of \<open>broka/lifecycle.py\<close>: background tasks with a bounded restart policy. A task is a
  coroutine that runs from one \<open>await\<close> to the next, so its record holds the place where it waits, and a
  step resumes it there with the result of what it waited for; a cancellation is the result
  \<open>CancelledError\<close>. Steps of different tasks interleave in any order. The delay of the backoff strategy is a
  function of the restart count, and the clock reading of a captured failure is left out.
\<close>

datatype restart_policy = RP_NEVER | RP_ON_FAILURE | RP_ALWAYS

datatype task_state = TS_RUNNING | TS_RESTARTING | TS_COMPLETED | TS_FAILED | TS_CANCELLED

text \<open>The awaits of \<open>gated_runner\<close> and \<open>_run\<close>, and the end of the task.\<close>

datatype await_point = At_gate | In_factory | In_handler | In_report | In_announce | In_sleep | Ended

record task_record =
  tk_policy :: restart_policy
  tk_max :: int
  tk_delay :: "int \<Rightarrow> seconds result"
  tk_state :: task_state
  tk_restarts :: int
  tk_last_error :: "pyexc option"
  tk_at :: await_point

record task_failure =
  tf_name :: string
  tf_error :: pyexc
  tf_restarts :: int

record supervisor =
  sv_records :: "(string, task_record) dict"
  sv_failures :: "task_failure list"
  sv_stopping :: bool

definition new_supervisor :: supervisor where
  "new_supervisor = \<lparr>sv_records = [], sv_failures = [], sv_stopping = False\<rparr>"

definition task_done :: "task_record \<Rightarrow> bool" where
  "task_done t \<longleftrightarrow> tk_at t = Ended"

definition sv_start ::
  "string \<Rightarrow> bool \<Rightarrow> restart_policy \<Rightarrow> int \<Rightarrow> (int \<Rightarrow> seconds result) \<Rightarrow> supervisor
   \<Rightarrow> unit result \<times> supervisor"
where
  "sv_start name is_factory policy max_restarts delay s =
     (if sv_stopping s then (raise LifecycleError, s)
      else if name = [] then (raise ValueError, s)
      else if (case dict_get (sv_records s) name of None \<Rightarrow> False | Some t \<Rightarrow> \<not> task_done t)
      then (raise ValueError, s)
      else if max_restarts < 0 then (raise ValueError, s)
      else if \<not> is_factory \<and> policy \<noteq> RP_NEVER then (raise ValueError, s)
      else (Inr (), s\<lparr>sv_records := dict_set name
              \<lparr>tk_policy = policy, tk_max = max_restarts, tk_delay = delay, tk_state = TS_RUNNING,
               tk_restarts = 0, tk_last_error = None, tk_at = At_gate\<rparr> (sv_records s)\<rparr>))"

subsection \<open>One task\<close>

definition loop_head :: "bool \<Rightarrow> task_record \<Rightarrow> task_record" where
  "loop_head stopping t = t\<lparr>tk_at := if stopping then Ended else In_factory\<rparr>"

definition after_call :: "bool \<Rightarrow> task_record \<Rightarrow> task_record" where
  "after_call failed t =
     (let should_restart = (tk_policy t = RP_ALWAYS \<or> (tk_policy t = RP_ON_FAILURE \<and> failed))
      in if \<not> should_restart \<or> tk_max t \<le> tk_restarts t
         then t\<lparr>tk_state := if failed then TS_FAILED else TS_COMPLETED, tk_at := Ended\<rparr>
         else t\<lparr>tk_restarts := tk_restarts t + 1, tk_state := TS_RESTARTING, tk_at := In_announce\<rparr>)"

text \<open>
  The event emitter's exceptions are swallowed, those of the failure handler and of the backoff
  strategy end the task, and a cancellation marks the record only while the factory runs.
\<close>

fun task_resume_at :: "await_point \<Rightarrow> bool \<Rightarrow> unit result \<Rightarrow> task_record \<Rightarrow> task_record" where
  "task_resume_at At_gate stopping r t =
     (case r of Inl e \<Rightarrow> t\<lparr>tk_at := Ended\<rparr> | Inr _ \<Rightarrow> loop_head stopping t)"
| "task_resume_at In_factory stopping r t =
     (case r of
        Inr _ \<Rightarrow> after_call False t
      | Inl e \<Rightarrow>
          if isinstance e CancelledError then t\<lparr>tk_state := TS_CANCELLED, tk_at := Ended\<rparr>
          else if is_exception e then t\<lparr>tk_last_error := Some e, tk_at := In_handler\<rparr>
          else t\<lparr>tk_at := Ended\<rparr>)"
| "task_resume_at In_handler stopping r t =
     (case r of Inl e \<Rightarrow> t\<lparr>tk_at := Ended\<rparr> | Inr _ \<Rightarrow> t\<lparr>tk_at := In_report\<rparr>)"
| "task_resume_at In_report stopping r t =
     (case r of
        Inl e \<Rightarrow> if is_exception e then after_call True t else t\<lparr>tk_at := Ended\<rparr>
      | Inr _ \<Rightarrow> after_call True t)"
| "task_resume_at In_announce stopping r t =
     (if (case r of Inl e \<Rightarrow> \<not> is_exception e | Inr _ \<Rightarrow> False) then t\<lparr>tk_at := Ended\<rparr>
      else case tk_delay t (tk_restarts t) of
          Inl e \<Rightarrow> t\<lparr>tk_at := Ended\<rparr>
        | Inr delay \<Rightarrow> t\<lparr>tk_at := In_sleep\<rparr>)"
| "task_resume_at In_sleep stopping r t =
     (case r of Inl e \<Rightarrow> t\<lparr>tk_at := Ended\<rparr> | Inr _ \<Rightarrow> loop_head stopping (t\<lparr>tk_state := TS_RUNNING\<rparr>))"
| "task_resume_at Ended stopping r t = t"

definition captured_failure :: "string \<Rightarrow> task_record \<Rightarrow> unit result \<Rightarrow> task_failure list" where
  "captured_failure name t r =
     (case r of
        Inl e \<Rightarrow>
          if tk_at t = In_factory \<and> \<not> isinstance e CancelledError \<and> is_exception e
          then [\<lparr>tf_name = name, tf_error = e, tf_restarts = tk_restarts t\<rparr>] else []
      | Inr _ \<Rightarrow> [])"

definition sv_resume :: "string \<Rightarrow> unit result \<Rightarrow> supervisor \<Rightarrow> supervisor" where
  "sv_resume name r s =
     (case dict_get (sv_records s) name of
        None \<Rightarrow> s
      | Some t \<Rightarrow>
          s\<lparr>sv_records := dict_set name (task_resume_at (tk_at t) (sv_stopping s) r t) (sv_records s),
            sv_failures := sv_failures s @ captured_failure name t r\<rparr>)"

subsection \<open>The supervisor's operations\<close>

definition cancelled :: "unit result" where
  "cancelled = raise CancelledError"

definition sv_cancel :: "string \<Rightarrow> supervisor \<Rightarrow> bool \<times> supervisor" where
  "sv_cancel name s =
     (case dict_get (sv_records s) name of
        None \<Rightarrow> (False, s)
      | Some t \<Rightarrow> if task_done t then (False, s) else (True, sv_resume name cancelled s))"

definition sv_pending :: "supervisor \<Rightarrow> string list" where
  "sv_pending s = map fst (filter (\<lambda>(n, t). \<not> task_done t) (sv_records s))"

definition sv_begin_shutdown :: "supervisor \<Rightarrow> supervisor" where
  "sv_begin_shutdown s = s\<lparr>sv_stopping := True\<rparr>"

text \<open>
  Shutdown: the tasks go on for the grace period (the resumptions \<open>during\<close>), those still pending are
  cancelled. Gathering them lets their remaining resumptions happen.
\<close>

definition sv_shutdown ::
  "seconds \<Rightarrow> (string \<times> unit result) list \<Rightarrow> supervisor \<Rightarrow> unit result \<times> supervisor"
where
  "sv_shutdown grace during s =
     (if grace < 0 then (raise ValueError, s)
      else if sv_stopping s then (Inr (), s)
      else
        let s1 = sv_begin_shutdown s;
            pending = sv_pending s1;
            s2 = (if grace \<noteq> 0 \<and> pending \<noteq> [] then fold (\<lambda>(n, r). sv_resume n r) during s1 else s1);
            still_pending = filter (\<lambda>n. n \<in> set (sv_pending s2)) pending
        in (Inr (), fold (\<lambda>n s. snd (sv_cancel n s)) still_pending s2))"

record task_snapshot =
  ts_name :: string
  ts_state :: task_state
  ts_restarts :: int
  ts_error_type :: "exc_class option"
  ts_done :: bool

definition sv_snapshot :: "string \<Rightarrow> supervisor \<Rightarrow> task_snapshot result" where
  "sv_snapshot name s =
     (case dict_get (sv_records s) name of
        None \<Rightarrow> raise KeyError
      | Some t \<Rightarrow> Inr \<lparr>ts_name = name, ts_state = tk_state t, ts_restarts = tk_restarts t,
          ts_error_type = map_option exc_cls (tk_last_error t), ts_done = task_done t\<rparr>)"

definition sv_snapshots :: "supervisor \<Rightarrow> task_snapshot result list" where
  "sv_snapshots s = map (\<lambda>n. sv_snapshot n s) (sort (dict_keys (sv_records s)))"

definition sv_active_count :: "supervisor \<Rightarrow> nat" where
  "sv_active_count s = length (filter (\<lambda>t. \<not> task_done t) (dict_values (sv_records s)))"

subsection \<open>Runs\<close>

datatype sv_event =
    SV_start string bool restart_policy int "int \<Rightarrow> seconds result"
  | SV_resume string "unit result"
  | SV_stop

fun sv_step :: "sv_event \<Rightarrow> supervisor \<Rightarrow> supervisor" where
  "sv_step (SV_start n f p k d) s = snd (sv_start n f p k d s)"
| "sv_step (SV_resume n r) s = sv_resume n r s"
| "sv_step SV_stop s = sv_begin_shutdown s"

definition task_place :: "string \<Rightarrow> supervisor \<Rightarrow> await_point option" where
  "task_place n s = map_option tk_at (dict_get (sv_records s) n)"

text \<open>How often a run calls the factory of a task, and how often it resumes the task.\<close>

fun factory_calls :: "string \<Rightarrow> supervisor \<Rightarrow> sv_event list \<Rightarrow> nat" where
  "factory_calls n s [] = 0"
| "factory_calls n s (ev # evs) =
     (if task_place n s \<noteq> Some In_factory \<and> task_place n (sv_step ev s) = Some In_factory then 1 else 0)
     + factory_calls n (sv_step ev s) evs"

fun resumptions :: "string \<Rightarrow> sv_event list \<Rightarrow> nat" where
  "resumptions n [] = 0"
| "resumptions n (ev # evs) = (case ev of SV_resume k r \<Rightarrow> if k = n then 1 else 0 | _ \<Rightarrow> 0) + resumptions n evs"

fun starts :: "string \<Rightarrow> sv_event \<Rightarrow> bool" where
  "starts n (SV_start k f p m d) = (k = n)"
| "starts n _ = False"

text \<open>The restarts a task has left, with the call that its current wait leads to.\<close>

definition calls_left :: "task_record \<Rightarrow> int" where
  "calls_left t = (if tk_at t = Ended then 0 else
     max 0 (tk_max t - tk_restarts t) + (if tk_at t \<in> {At_gate, In_announce, In_sleep} then 1 else 0))"

fun awaits_left :: "await_point \<Rightarrow> nat" where
  "awaits_left At_gate = 1"
| "awaits_left In_factory = 5"
| "awaits_left In_handler = 4"
| "awaits_left In_report = 3"
| "awaits_left In_announce = 2"
| "awaits_left In_sleep = 1"
| "awaits_left Ended = 0"

lemma calls_left_nonneg: "0 \<le> calls_left t"
  by (simp add: calls_left_def)

lemmas resume_defs = loop_head_def after_call_def Let_def

lemma resume_calls_left: "calls_left (task_resume_at (tk_at t) stopping r t) \<le> calls_left t"
  by (cases "tk_at t") (auto simp: calls_left_def resume_defs split: sum.splits)

lemma resume_begins:
  "tk_at t \<noteq> In_factory \<Longrightarrow> tk_at (task_resume_at (tk_at t) stopping r t) = In_factory \<Longrightarrow>
   1 + calls_left (task_resume_at (tk_at t) stopping r t) \<le> calls_left t"
  by (cases "tk_at t") (auto simp: calls_left_def resume_defs split: sum.splits if_splits)

lemma resume_restarts:
  "tk_restarts t \<le> tk_max t \<Longrightarrow>
   tk_restarts (task_resume_at (tk_at t) stopping r t) \<le> tk_max (task_resume_at (tk_at t) stopping r t)"
  by (cases "tk_at t") (auto simp: resume_defs split: sum.splits)

lemma resume_max [simp]: "tk_max (task_resume_at a stopping r t) = tk_max t"
  by (cases a) (auto simp: resume_defs split: sum.splits)

lemma resume_stopping:
  "tk_at t \<noteq> Ended \<Longrightarrow>
   awaits_left (tk_at (task_resume_at (tk_at t) True r t)) < awaits_left (tk_at t)"
  by (cases "tk_at t") (auto simp: resume_defs split: sum.splits)

lemma resume_not_started:
  "tk_at t \<noteq> In_factory \<Longrightarrow> tk_at (task_resume_at (tk_at t) True r t) \<noteq> In_factory"
  by (cases "tk_at t") (auto simp: resume_defs split: sum.splits)

lemma resume_other [simp]: "n \<noteq> k \<Longrightarrow> dict_get (sv_records (sv_resume k r s)) n = dict_get (sv_records s) n"
  by (simp add: sv_resume_def split: option.split)

lemma resume_same:
  "dict_get (sv_records s) n = Some t \<Longrightarrow>
   dict_get (sv_records (sv_resume n r s)) n = Some (task_resume_at (tk_at t) (sv_stopping s) r t)"
  by (simp add: sv_resume_def)

lemma resume_keeps_stopping [simp]: "sv_stopping (sv_resume n r s) = sv_stopping s"
  by (simp add: sv_resume_def split: option.split)

lemma start_other: "n \<noteq> k \<Longrightarrow> dict_get (sv_records (snd (sv_start k f p m d s))) n = dict_get (sv_records s) n"
  by (simp add: sv_start_def)

lemma start_keeps_stopping [simp]: "sv_stopping (snd (sv_start k f p m d s)) = sv_stopping s"
  by (simp add: sv_start_def)

lemma start_when_stopping: "sv_stopping s \<Longrightarrow> snd (sv_start k f p m d s) = s"
  by (simp add: sv_start_def)

text \<open>One step of the supervisor, as one record sees it.\<close>

lemma step_record:
  assumes "dict_get (sv_records s) n = Some t" and "\<not> starts n ev"
  shows "(\<exists>r. ev = SV_resume n r \<and>
      dict_get (sv_records (sv_step ev s)) n = Some (task_resume_at (tk_at t) (sv_stopping s) r t))
    \<or> ((\<forall>r. ev \<noteq> SV_resume n r) \<and> dict_get (sv_records (sv_step ev s)) n = Some t)"
proof (cases ev)
  case (SV_start k f p m d)
  with assms show ?thesis using start_other [of n k f p m d s] by auto
next
  case (SV_resume k r)
  with assms show ?thesis by (cases "k = n") (auto simp: resume_same)
next
  case SV_stop
  with assms show ?thesis by (simp add: sv_begin_shutdown_def)
qed

lemma step_stopping: "sv_stopping s \<Longrightarrow> sv_stopping (sv_step ev s)"
  by (cases ev) (simp_all add: sv_begin_shutdown_def)

lemma run_calls_bounded:
  "dict_get (sv_records s) n = Some t \<Longrightarrow> tk_restarts t \<le> tk_max t \<Longrightarrow> \<forall>ev \<in> set evs. \<not> starts n ev \<Longrightarrow>
   \<exists>t'. dict_get (sv_records (fold sv_step evs s)) n = Some t' \<and> tk_restarts t' \<le> tk_max t' \<and> tk_max t' = tk_max t
     \<and> int (factory_calls n s evs) + calls_left t' \<le> calls_left t"
proof (induction evs arbitrary: s t)
  case Nil
  then show ?case by simp
next
  case (Cons ev evs)
  from Cons.prems(3) have "\<not> starts n ev" by simp
  from step_record [OF Cons.prems(1) this]
  obtain t1 where t1: "dict_get (sv_records (sv_step ev s)) n = Some t1"
    and step: "(\<exists>r. t1 = task_resume_at (tk_at t) (sv_stopping s) r t) \<or> t1 = t" by blast
  let ?begun = "if tk_at t \<noteq> In_factory \<and> tk_at t1 = In_factory then 1 else 0 :: nat"
  have le: "int ?begun + calls_left t1 \<le> calls_left t" and ok: "tk_restarts t1 \<le> tk_max t1" and m: "tk_max t1 = tk_max t"
    using step resume_calls_left [of t "sv_stopping s"] resume_begins [of t "sv_stopping s"]
      resume_restarts [OF Cons.prems(2)] Cons.prems(2) by auto
  from Cons.IH [OF t1 ok] Cons.prems(3) obtain t' where
    "dict_get (sv_records (fold sv_step evs (sv_step ev s))) n = Some t'" "tk_restarts t' \<le> tk_max t'" "tk_max t' = tk_max t1"
    "int (factory_calls n (sv_step ev s) evs) + calls_left t' \<le> calls_left t1" by auto
  with le m show ?case
    by (intro exI [of _ t']) (simp add: task_place_def Cons.prems(1) t1 split: if_splits)
qed

lemma run_stopping:
  "sv_stopping s \<Longrightarrow> dict_get (sv_records s) n = Some t \<Longrightarrow>
   \<exists>t'. dict_get (sv_records (fold sv_step evs s)) n = Some t' \<and> factory_calls n s evs = 0
     \<and> (awaits_left (tk_at t) \<le> resumptions n evs \<longrightarrow> tk_at t' = Ended)
     \<and> (tk_at t = Ended \<longrightarrow> tk_at t' = Ended)"
proof (induction evs arbitrary: s t)
  case Nil
  then show ?case by (cases "tk_at t") simp_all
next
  case (Cons ev evs)
  show ?case
  proof (cases "starts n ev")
    case True
    then obtain f p m d where "ev = SV_start n f p m d" by (cases ev) auto
    then have "sv_step ev s = s" and "resumptions n (ev # evs) = resumptions n evs"
      using Cons.prems(1) by (simp_all add: start_when_stopping)
    with Cons.IH [OF Cons.prems] show ?thesis by simp
  next
    case False
    from step_record [OF Cons.prems(2) this]
    consider (resumed) r where "ev = SV_resume n r"
        "dict_get (sv_records (sv_step ev s)) n = Some (task_resume_at (tk_at t) True r t)"
      | (other) "\<forall>r. ev \<noteq> SV_resume n r" "dict_get (sv_records (sv_step ev s)) n = Some t"
      using Cons.prems(1) by auto
    then show ?thesis
    proof cases
      case resumed
      define t1 where "t1 = task_resume_at (tk_at t) True r t"
      have less: "tk_at t \<noteq> Ended \<Longrightarrow> awaits_left (tk_at t1) < awaits_left (tk_at t)"
        and same: "tk_at t = Ended \<Longrightarrow> tk_at t1 = Ended"
        and no_call: "tk_at t \<noteq> In_factory \<Longrightarrow> tk_at t1 \<noteq> In_factory"
        unfolding t1_def by (rule resume_stopping, assumption, simp, rule resume_not_started)
      from Cons.IH [OF step_stopping [OF Cons.prems(1)] resumed(2)] obtain t' where
        t': "dict_get (sv_records (fold sv_step evs (sv_step ev s))) n = Some t'"
          "factory_calls n (sv_step ev s) evs = 0"
          "awaits_left (tk_at t1) \<le> resumptions n evs \<longrightarrow> tk_at t' = Ended"
          "tk_at t1 = Ended \<longrightarrow> tk_at t' = Ended" unfolding t1_def by blast
      have "awaits_left (tk_at t) \<le> resumptions n (ev # evs) \<longrightarrow> tk_at t' = Ended"
        using t'(3,4) less same resumed(1) by (cases "tk_at t = Ended") auto
      moreover have "factory_calls n s (ev # evs) = 0"
        using t'(2) no_call resumed(2) Cons.prems(2) unfolding t1_def
        by (cases "tk_at t = In_factory") (simp_all add: task_place_def)
      ultimately show ?thesis using t' same by auto
    next
      case other
      have "resumptions n (ev # evs) = resumptions n evs"
        using other(1) by (cases ev) auto
      with Cons.IH [OF step_stopping [OF Cons.prems(1)] other(2)] other(2) Cons.prems(2)
      show ?thesis by (simp add: task_place_def)
    qed
  qed
qed

subsection \<open>Properties\<close>

text \<open>
  C24: supervision is bounded. However the steps of the tasks interleave, a task started with
  a maximum of \<open>k\<close> restarts calls its factory at most \<open>k + 1\<close> times and never counts more than \<open>k\<close>
  restarts; and once shutdown has begun no factory is called any more, and every task ends
  after five of its awaits have completed, whatever they returned.
\<close>

theorem supervision_bounded:
  assumes "sv_start n is_factory policy k delay s = (Inr (), s1)"
    and "\<forall>ev \<in> set (before @ after). \<not> starts n ev"
  shows "\<exists>t'. dict_get (sv_records (fold sv_step (before @ SV_stop # after) s1)) n = Some t'
    \<and> int (factory_calls n s1 (before @ SV_stop # after)) \<le> k + 1 \<and> tk_restarts t' \<le> k
    \<and> factory_calls n (sv_begin_shutdown (fold sv_step before s1)) after = 0
    \<and> (5 \<le> resumptions n after \<longrightarrow> tk_at t' = Ended)"
proof -
  from assms(1) obtain t where t: "dict_get (sv_records s1) n = Some t"
    and fresh: "tk_restarts t = 0" "tk_max t = k" "0 \<le> k" "tk_at t = At_gate"
    by (auto simp: sv_start_def split: if_splits)
  have "\<forall>ev \<in> set (before @ SV_stop # after). \<not> starts n ev" using assms(2) by auto
  from run_calls_bounded [OF t _ this] fresh obtain t' where
    t': "dict_get (sv_records (fold sv_step (before @ SV_stop # after) s1)) n = Some t'" "tk_restarts t' \<le> k"
      "int (factory_calls n s1 (before @ SV_stop # after)) + calls_left t' \<le> calls_left t" by auto
  have "calls_left t = k + 1" using fresh by (simp add: calls_left_def)
  with t' have calls: "int (factory_calls n s1 (before @ SV_stop # after)) \<le> k + 1"
    using calls_left_nonneg [of t'] by linarith
  let ?s2 = "sv_begin_shutdown (fold sv_step before s1)"
  have "\<forall>ev \<in> set before. \<not> starts n ev" using assms(2) by auto
  from run_calls_bounded [OF t _ this] fresh obtain u where
    "dict_get (sv_records (fold sv_step before s1)) n = Some u" by auto
  then have u: "dict_get (sv_records ?s2) n = Some u" "sv_stopping ?s2" by (simp_all add: sv_begin_shutdown_def)
  have "awaits_left (tk_at u) \<le> 5" by (cases "tk_at u") simp_all
  moreover from run_stopping [OF u(2) u(1), of after] t'(1)
  have "factory_calls n ?s2 after = 0" and "awaits_left (tk_at u) \<le> resumptions n after \<longrightarrow> tk_at t' = Ended" by auto
  ultimately show ?thesis using t'(1,2) calls by auto
qed

definition idle_delay :: "int \<Rightarrow> seconds result" where
  "idle_delay n = Inr 1"

definition user_failure :: "unit result" where
  "user_failure = Inl (PyExc (UserException 0) False)"

theorem supervision_bounded_witness:
  "factory_calls ''t'' (snd (sv_start ''t'' True RP_ON_FAILURE 1 idle_delay new_supervisor))
     ([SV_resume ''t'' (Inr ()), SV_resume ''t'' user_failure, SV_resume ''t'' (Inr ()), SV_resume ''t'' (Inr ()),
       SV_resume ''t'' (Inr ()), SV_resume ''t'' (Inr ())] @ SV_stop # replicate 5 (SV_resume ''t'' (Inr ()))) = 2
   \<and> (\<exists>t'. dict_get (sv_records (fold sv_step
         ([SV_resume ''t'' (Inr ()), SV_resume ''t'' user_failure, SV_resume ''t'' (Inr ()), SV_resume ''t'' (Inr ()),
           SV_resume ''t'' (Inr ()), SV_resume ''t'' (Inr ())] @ SV_stop # replicate 5 (SV_resume ''t'' (Inr ())))
         (snd (sv_start ''t'' True RP_ON_FAILURE 1 idle_delay new_supervisor)))) ''t'' = Some t'
       \<and> tk_restarts t' \<le> 1 \<and> tk_at t' = Ended)"
proof -
  let ?before = "[SV_resume ''t'' (Inr ()), SV_resume ''t'' user_failure, SV_resume ''t'' (Inr ()),
    SV_resume ''t'' (Inr ()), SV_resume ''t'' (Inr ()), SV_resume ''t'' (Inr ())]"
  let ?after = "replicate 5 (SV_resume ''t'' (Inr ()))"
  let ?s1 = "snd (sv_start ''t'' True RP_ON_FAILURE 1 idle_delay new_supervisor)"
  have start: "sv_start ''t'' True RP_ON_FAILURE 1 idle_delay new_supervisor = (Inr (), ?s1)"
    by (simp add: sv_start_def new_supervisor_def)
  have other: "\<forall>ev \<in> set (?before @ ?after). \<not> starts ''t'' ev" by simp
  have "5 \<le> resumptions ''t'' ?after" by code_simp
  moreover have "factory_calls ''t'' ?s1 (?before @ SV_stop # ?after) = 2" by code_simp
  ultimately show ?thesis using supervision_bounded [OF start other] by blast
qed

text \<open>
  Shutdown is final: the flag is never reset, so a supervisor that was shut down refuses every later
  task, although the \<open>LifecycleManager\<close> that owns it can be started again.
\<close>

lemma shutdown_is_final:
  assumes "sv_shutdown grace during s = (Inr (), s')" and "\<not> sv_stopping s"
  shows "sv_start n f p k d (fold sv_step evs s') = (raise LifecycleError, fold sv_step evs s')"
proof -
  have cancel: "sv_stopping (snd (sv_cancel n s)) = sv_stopping s" for n s
    by (simp add: sv_cancel_def split: option.split)
  then have cancels: "sv_stopping (fold (\<lambda>n s. snd (sv_cancel n s)) ns s) = sv_stopping s" for ns s
    by (induction ns arbitrary: s) simp_all
  have resumes: "sv_stopping (fold (\<lambda>(n, r). sv_resume n r) rs s) = sv_stopping s" for rs s
    by (induction rs arbitrary: s) (simp_all add: case_prod_unfold)
  from assms(1) have "s' = snd (sv_shutdown grace during s)" and "\<not> grace < 0"
    by (simp_all add: sv_shutdown_def split: if_splits)
  then have "sv_stopping s'"
    using assms(2) by (simp add: sv_shutdown_def Let_def cancels resumes) (simp add: sv_begin_shutdown_def)
  then have "sv_stopping (fold sv_step evs s')"
    by (induction evs arbitrary: s') (simp_all add: step_stopping)
  then show ?thesis by (simp add: sv_start_def)
qed

text \<open>A task cancelled while it waits to be restarted is reported as restarting forever.\<close>

lemma cancelled_backoff_stays_restarting:
  "map_option (\<lambda>t. (tk_state t, task_done t)) (dict_get (sv_records
     (fold sv_step [SV_resume ''t'' (Inr ()), SV_resume ''t'' user_failure, SV_resume ''t'' (Inr ()),
        SV_resume ''t'' (Inr ()), SV_resume ''t'' (Inr ()), SV_resume ''t'' cancelled]
       (snd (sv_start ''t'' True RP_ON_FAILURE 1 idle_delay new_supervisor)))) ''t'')
   = Some (TS_RESTARTING, True)"
  by code_simp

end
