(* ===== verification/Connection.thy ===== *)
theory Connection
  imports Retry Circuit Supervisor
begin

text \<open>
  \<open>broka/connection.py\<close>: the connection manager puts retry, circuit breaker, topology restoration, leases,
  heartbeat and draining around one engine. A world is the manager's state and everything else; the engine, the
  restore callbacks, the listener and the waiting are awaited calls on the whole world, since other tasks may run
  meanwhile. A restore callback is known by its name, and the loop over the callbacks runs over those registered
  when it begins. The circuit breaker's operation runs while no other call of the breaker does, as in the theory
  \<open>Circuit\<close>. \<open>asyncio.timeout\<close> is a limit given to the call, which raises \<open>TimeoutError\<close> when cut off.
\<close>

datatype conn_state =
    CN_DISCONNECTED | CN_CONNECTING | CN_CONNECTED | CN_RECONNECTING
  | CN_DRAINING | CN_CLOSING | CN_CLOSED | CN_FAILED

record connection =
  cn_state :: conn_state
  cn_leases :: int
  cn_callbacks :: "string list"
  cn_reconnects :: int
  cn_since :: "seconds option"
  cn_last_connected :: "seconds option"
  cn_last_disconnected :: "seconds option"
  cn_last_error :: "pyexc option"
  cn_breaker :: breaker
  cn_supervisor :: supervisor

type_synonym 'x conn_world = "connection \<times> 'x"

datatype conn_event =
    CE_disconnected bool | CE_failed bool | CE_connected bool int | CE_heartbeat_failed
  | CE_drain_started int | CE_drain_completed | CE_closed bool

text \<open>\<open>EngineHealth\<close>, without its details.\<close>

record engine_health =
  eh_healthy :: bool
  eh_connected :: bool

record 'x conn_env =
  ce_engine :: string
  ce_connect :: "'x conn_world action"
  ce_disconnect :: "'x conn_world action"
  ce_healthcheck :: "seconds \<Rightarrow> 'x conn_world \<Rightarrow> engine_health result \<times> 'x conn_world"
  ce_restore :: "string \<Rightarrow> 'x conn_world action"
  ce_emit :: "conn_event \<Rightarrow> 'x conn_world action"
  ce_clock :: "'x conn_world \<Rightarrow> seconds"
  ce_sleep :: "seconds \<Rightarrow> 'x conn_world action"
  ce_await_idle :: "seconds \<Rightarrow> 'x conn_world action"
  ce_retry :: "'x conn_world retry_manager"
  ce_policy :: "'x conn_world retry_policy"
  ce_circuit :: circuit_config
  ce_circuit_emit :: "(circuit_transition \<Rightarrow> 'x conn_world action) option"
  ce_classify :: "pyexc \<Rightarrow> bool"
  ce_interval :: "seconds option"
  ce_heartbeat_timeout :: seconds
  ce_reconnect_on_unhealthy :: bool
  ce_owns_supervisor :: bool

text \<open>The default of \<open>connection_error_classifier\<close>.\<close>

definition default_classifier :: "pyexc \<Rightarrow> bool" where
  "default_classifier e \<longleftrightarrow> isinstance e ConnectionError \<or> isinstance e OSError"

definition validate_connection :: "'x conn_env \<Rightarrow> unit result" where
  "validate_connection v =
     (if (\<exists>i \<in> set_option (ce_interval v). i \<le> 0) then raise ValueError
      else if ce_heartbeat_timeout v \<le> 0 then raise ValueError
      else Inr ())"

definition new_connection :: "breaker \<Rightarrow> supervisor \<Rightarrow> connection" where
  "new_connection b s =
     \<lparr>cn_state = CN_DISCONNECTED, cn_leases = 0, cn_callbacks = [], cn_reconnects = 0, cn_since = None,
      cn_last_connected = None, cn_last_disconnected = None, cn_last_error = None, cn_breaker = b, cn_supervisor = s\<rparr>"

definition register_restore :: "string \<Rightarrow> connection \<Rightarrow> unit result \<times> connection" where
  "register_restore name c =
     (if name \<in> set (cn_callbacks c) then (raise ValueError, c)
      else (Inr (), c\<lparr>cn_callbacks := cn_callbacks c @ [name]\<rparr>))"

definition unregister_restore :: "string \<Rightarrow> connection \<Rightarrow> bool \<times> connection" where
  "unregister_restore name c =
     (if name \<in> set (cn_callbacks c) then (True, c\<lparr>cn_callbacks := remove1 name (cn_callbacks c)\<rparr>)
      else (False, c))"

abbreviation in_conn :: "(connection \<Rightarrow> connection) \<Rightarrow> 'x conn_world \<Rightarrow> 'x conn_world" where
  "in_conn f w \<equiv> (f (fst w), snd w)"

definition set_state :: "conn_state \<Rightarrow> 'x conn_world \<Rightarrow> 'x conn_world" where
  "set_state s = in_conn (cn_state_update (\<lambda>_. s))"

definition note_error :: "pyexc \<Rightarrow> 'x conn_world \<Rightarrow> 'x conn_world" where
  "note_error e = in_conn (cn_last_error_update (\<lambda>_. Some e))"

definition conn_error :: "bool \<Rightarrow> 'a result" where
  "conn_error retryable = Inl (PyExc ConnectionError retryable)"

text \<open>A call whose ordinary exceptions are ignored: \<open>_emit\<close>, and a disconnect that may fail.\<close>

definition swallow :: "'w action \<Rightarrow> 'w action" where
  "swallow act w =
     (case act w of (Inl e, w1) \<Rightarrow> (if is_exception e then Inr () else Inl e, w1) | (Inr _, w1) \<Rightarrow> (Inr (), w1))"

definition conn_emit :: "'x conn_env \<Rightarrow> conn_event \<Rightarrow> 'x conn_world action" where
  "conn_emit v ev = swallow (ce_emit v ev)"

text \<open>A call through the connection's circuit breaker.\<close>

definition through_circuit ::
  "'x conn_env \<Rightarrow> ('x conn_world \<Rightarrow> 'a result \<times> 'x conn_world) \<Rightarrow> 'x conn_world \<Rightarrow> 'a result \<times> 'x conn_world"
where
  "through_circuit v operation w =
     (case circuit_call (ce_circuit v) (ce_clock v) (ce_circuit_emit v) operation (cn_breaker (fst w)) w of
        (r, b, w1) \<Rightarrow> (r, in_conn (cn_breaker_update (\<lambda>_. b)) w1))"

subsection \<open>Connecting\<close>

definition connect_operation :: "'x conn_env \<Rightarrow> seconds option \<Rightarrow> 'x conn_world action" where
  "connect_operation v timeout = through_circuit v (ce_connect v)"

fun restore_all :: "'x conn_env \<Rightarrow> string list \<Rightarrow> 'x conn_world action" where
  "restore_all v [] w = (Inr (), w)"
| "restore_all v (n # ns) w =
     (case ce_restore v n w of
        (Inl e, w1) \<Rightarrow> (if is_exception e then conn_error True else Inl e, w1)
      | (Inr _, w1) \<Rightarrow> restore_all v ns w1)"

definition connect_failed :: "'x conn_env \<Rightarrow> bool \<Rightarrow> pyexc \<Rightarrow> 'x conn_world action" where
  "connect_failed v reconnecting e w =
     (case conn_emit v (CE_failed reconnecting) (set_state CN_FAILED (note_error e w)) of
        (Inl e', w1) \<Rightarrow> (Inl e', w1)
      | (Inr _, w1) \<Rightarrow> (Inl e, w1))"

definition connect_done :: "'x conn_env \<Rightarrow> bool \<Rightarrow> 'x conn_world action" where
  "connect_done v reconnecting w =
     (let now = ce_clock v w;
          w1 = in_conn (\<lambda>c. c\<lparr>cn_since := Some now, cn_last_connected := Some now, cn_last_error := None,
                             cn_state := CN_CONNECTED\<rparr>) w
      in conn_emit v (CE_connected reconnecting (cn_reconnects (fst w1))) w1)"

definition connect_locked :: "'x conn_env \<Rightarrow> bool \<Rightarrow> 'x conn_world action" where
  "connect_locked v reconnecting w =
     (case retry_run (ce_retry v) (ce_policy v) (connect_operation v) w of
        (out, w1) \<Rightarrow>
          (case outcome_result out of
             Inl e \<Rightarrow> connect_failed v reconnecting e w1
           | Inr _ \<Rightarrow>
               (case restore_all v (cn_callbacks (fst w1)) w1 of
                  (Inl e, w2) \<Rightarrow>
                    (case swallow (ce_disconnect v) w2 of
                       (Inl e', w3) \<Rightarrow> (Inl e', w3)
                     | (Inr _, w3) \<Rightarrow> connect_failed v reconnecting e w3)
                | (Inr _, w2) \<Rightarrow> connect_done v reconnecting w2)))"

definition heartbeat_name :: "'x conn_env \<Rightarrow> string" where
  "heartbeat_name v = ''connection:'' @ ce_engine v @ '':heartbeat''"

definition heartbeat_running :: "'x conn_env \<Rightarrow> connection \<Rightarrow> bool" where
  "heartbeat_running v c =
     (case sv_snapshot (heartbeat_name v) (cn_supervisor c) of Inl e \<Rightarrow> False | Inr s \<Rightarrow> \<not> ts_done s)"

definition start_heartbeat :: "'x conn_env \<Rightarrow> 'x conn_world action" where
  "start_heartbeat v w =
     (if ce_interval v = None \<or> heartbeat_running v (fst w) then (Inr (), w)
      else case sv_start (heartbeat_name v) True RP_ON_FAILURE 3 (\<lambda>n. Inr 1) (cn_supervisor (fst w)) of
        (r, s) \<Rightarrow> (r, in_conn (cn_supervisor_update (\<lambda>_. s)) w))"

definition conn_startup :: "'x conn_env \<Rightarrow> 'x conn_world action" where
  "conn_startup v w =
     (if cn_state (fst w) = CN_CONNECTED then (Inr (), w)
      else if cn_state (fst w) \<in> {CN_DRAINING, CN_CLOSING} then (conn_error False, w)
      else case connect_locked v False (set_state CN_CONNECTING w) of
          (Inl e, w1) \<Rightarrow> (Inl e, w1)
        | (Inr _, w1) \<Rightarrow> start_heartbeat v w1)"

definition ensure_connected :: "'x conn_env \<Rightarrow> 'x conn_world action" where
  "ensure_connected v w = (if cn_state (fst w) = CN_CONNECTED then (Inr (), w) else conn_startup v w)"

definition conn_reconnect :: "'x conn_env \<Rightarrow> 'x conn_world action" where
  "conn_reconnect v w =
     (if cn_state (fst w) \<in> {CN_DRAINING, CN_CLOSING, CN_CLOSED} then (conn_error False, w)
      else case swallow (ce_disconnect v) (set_state CN_RECONNECTING w) of
          (Inl e, w1) \<Rightarrow> (Inl e, w1)
        | (Inr _, w1) \<Rightarrow>
            let now = ce_clock v w1;
                w2 = in_conn (\<lambda>c. c\<lparr>cn_since := None, cn_last_disconnected := Some now\<rparr>) w1
            in (case conn_emit v (CE_disconnected True) w2 of
                  (Inl e, w3) \<Rightarrow> (Inl e, w3)
                | (Inr _, w3) \<Rightarrow>
                    connect_locked v True (in_conn (\<lambda>c. c\<lparr>cn_reconnects := cn_reconnects c + 1\<rparr>) w3)))"

subsection \<open>Leases and operations\<close>

definition lease_enter :: "'x conn_env \<Rightarrow> 'x conn_world action" where
  "lease_enter v w =
     (case ensure_connected v w of
        (Inl e, w1) \<Rightarrow> (Inl e, w1)
      | (Inr _, w1) \<Rightarrow>
          if cn_state (fst w1) \<noteq> CN_CONNECTED then (conn_error (cn_state (fst w1) = CN_FAILED), w1)
          else (Inr (), in_conn (\<lambda>c. c\<lparr>cn_leases := cn_leases c + 1\<rparr>) w1))"

definition lease_exit :: "'x conn_world \<Rightarrow> 'x conn_world" where
  "lease_exit = in_conn (\<lambda>c. c\<lparr>cn_leases := cn_leases c - 1\<rparr>)"

definition run_failed :: "'x conn_env \<Rightarrow> pyexc \<Rightarrow> 'x conn_world \<Rightarrow> 'a result \<times> 'x conn_world" where
  "run_failed v e w =
     (if isinstance e CancelledError \<or> \<not> is_exception e then (Inl e, w)
      else if ce_classify v e
      then case conn_reconnect v (set_state CN_FAILED (note_error e w)) of
          (Inl e', w1) \<Rightarrow> (Inl e', w1)
        | (Inr _, w1) \<Rightarrow> (Inl e, w1)
      else (Inl e, w))"

definition conn_run ::
  "'x conn_env \<Rightarrow> ('x conn_world \<Rightarrow> 'a result \<times> 'x conn_world) \<Rightarrow> 'x conn_world \<Rightarrow> 'a result \<times> 'x conn_world"
where
  "conn_run v operation w =
     (case lease_enter v w of
        (Inl e, w1) \<Rightarrow> run_failed v e w1
      | (Inr _, w1) \<Rightarrow>
          (case through_circuit v operation w1 of
             (Inl e, w2) \<Rightarrow> run_failed v e (lease_exit w2)
           | (Inr x, w2) \<Rightarrow> (Inr x, lease_exit w2)))"

subsection \<open>Heartbeat\<close>

definition heartbeat_active :: "connection \<Rightarrow> bool" where
  "heartbeat_active c \<longleftrightarrow> cn_state c \<notin> {CN_DRAINING, CN_CLOSING, CN_CLOSED}"

definition heartbeat_failed :: "'x conn_env \<Rightarrow> pyexc \<Rightarrow> 'x conn_world action" where
  "heartbeat_failed v e w =
     (case conn_emit v CE_heartbeat_failed (set_state CN_FAILED (note_error e w)) of
        (Inl e', w1) \<Rightarrow> (Inl e', w1)
      | (Inr _, w1) \<Rightarrow> if ce_reconnect_on_unhealthy v then conn_reconnect v w1 else (Inr (), w1))"

text \<open>One turn of the loop.\<close>

definition heartbeat_turn :: "'x conn_env \<Rightarrow> seconds \<Rightarrow> 'x conn_world action" where
  "heartbeat_turn v interval w =
     (case ce_sleep v interval w of
        (Inl e, w1) \<Rightarrow> (Inl e, w1)
      | (Inr _, w1) \<Rightarrow>
          if cn_state (fst w1) \<noteq> CN_CONNECTED
          then if ce_reconnect_on_unhealthy v \<and> cn_state (fst w1) = CN_FAILED then conn_reconnect v w1
               else (Inr (), w1)
          else case ce_healthcheck v (ce_heartbeat_timeout v) w1 of
              (Inl e, w2) \<Rightarrow>
                if isinstance e CancelledError \<or> \<not> is_exception e then (Inl e, w2) else heartbeat_failed v e w2
            | (Inr h, w2) \<Rightarrow>
                if \<not> eh_healthy h \<or> \<not> eh_connected h then heartbeat_failed v (PyExc ConnectionError True) w2
                else (Inr (), w2))"

partial_function (option) heartbeat_loop ::
  "'x conn_env \<Rightarrow> seconds \<Rightarrow> 'x conn_world \<Rightarrow> (unit result \<times> 'x conn_world) option"
where
  "heartbeat_loop v interval w =
     (if \<not> heartbeat_active (fst w) then Some (Inr (), w)
      else case heartbeat_turn v interval w of
          (Inl e, w1) \<Rightarrow> Some (Inl e, w1)
        | (Inr _, w1) \<Rightarrow> heartbeat_loop v interval w1)"

subsection \<open>Draining and shutdown\<close>

definition conn_drain :: "'x conn_env \<Rightarrow> seconds \<Rightarrow> 'x conn_world \<Rightarrow> bool result \<times> 'x conn_world" where
  "conn_drain v timeout w =
     (if timeout < 0 then (raise ValueError, w)
      else if cn_state (fst w) \<in> {CN_CLOSED, CN_DISCONNECTED} then (Inr True, w)
      else case conn_emit v (CE_drain_started (cn_leases (fst w))) (set_state CN_DRAINING w) of
          (Inl e, w1) \<Rightarrow> (Inl e, w1)
        | (Inr _, w1) \<Rightarrow>
            (case (if cn_leases (fst w1) = 0 then (Inr (), w1) else ce_await_idle v timeout w1) of
               (Inl e, w2) \<Rightarrow> if isinstance e TimeoutError then (Inr False, w2) else (Inl e, w2)
             | (Inr _, w2) \<Rightarrow>
                 (case conn_emit v CE_drain_completed w2 of
                    (Inl e, w3) \<Rightarrow> (Inl e, w3)
                  | (Inr _, w3) \<Rightarrow> (Inr True, w3))))"

definition conn_shutdown :: "'x conn_env \<Rightarrow> seconds \<Rightarrow> 'x conn_world action" where
  "conn_shutdown v grace w =
     (if grace < 0 then (raise ValueError, w)
      else if cn_state (fst w) = CN_CLOSED then (Inr (), w)
      else
        let w1 = in_conn (\<lambda>c. c\<lparr>cn_supervisor := snd (sv_cancel (heartbeat_name v) (cn_supervisor c))\<rparr>) w
        in case conn_drain v grace w1 of
            (Inl e, w2) \<Rightarrow> (Inl e, w2)
          | (Inr drained, w2) \<Rightarrow>
              (case ce_disconnect v (set_state CN_CLOSING w2) of
                 (r, w3) \<Rightarrow>
                   let now = ce_clock v w3;
                       w4 = in_conn (\<lambda>c. c\<lparr>cn_since := None, cn_last_disconnected := Some now\<rparr>) w3
                   in (case r of
                         Inl e \<Rightarrow>
                           if is_exception e then (conn_error False, set_state CN_FAILED (note_error e w4))
                           else (Inl e, w4)
                       | Inr _ \<Rightarrow>
                           (case conn_emit v (CE_closed (\<not> drained)) (set_state CN_CLOSED w4) of
                              (Inl e, w5) \<Rightarrow> (Inl e, w5)
                            | (Inr _, w5) \<Rightarrow>
                                (Inr (), if ce_owns_supervisor v
                                         then in_conn (\<lambda>c. c\<lparr>cn_supervisor := snd (sv_shutdown 0 [] (cn_supervisor c))\<rparr>) w5
                                         else w5)))))"

definition conn_aenter :: "'x conn_env \<Rightarrow> 'x conn_world action" where
  "conn_aenter v w = conn_startup v w"

definition conn_aexit :: "'x conn_env \<Rightarrow> 'x conn_world action" where
  "conn_aexit v w = conn_shutdown v 30 w"

subsection \<open>Health\<close>

datatype health_status = HS_HEALTHY | HS_DEGRADED | HS_UNHEALTHY

record conn_health =
  ch_status :: health_status
  ch_error :: "pyexc option"
  ch_latency :: seconds
  ch_leases :: int
  ch_reconnects :: int

definition status_of :: "conn_state \<Rightarrow> engine_health option \<Rightarrow> health_status" where
  "status_of s h =
     (if s = CN_CONNECTED \<and> h \<noteq> None
      then (case h of
              None \<Rightarrow> HS_UNHEALTHY
            | Some x \<Rightarrow> if eh_healthy x \<and> eh_connected x then HS_HEALTHY else HS_DEGRADED)
      else if s \<in> {CN_CONNECTING, CN_RECONNECTING, CN_DRAINING} then HS_DEGRADED
      else HS_UNHEALTHY)"

definition conn_health_check :: "'x conn_env \<Rightarrow> 'x conn_world \<Rightarrow> conn_health result \<times> 'x conn_world" where
  "conn_health_check v w =
     (let started = ce_clock v w; (r, w1) = ce_healthcheck v (ce_heartbeat_timeout v) w;
          report = (\<lambda>h e. \<lparr>ch_status = status_of (cn_state (fst w1)) h, ch_error = e,
            ch_latency = max 0 (ce_clock v w1 - started), ch_leases = cn_leases (fst w1),
            ch_reconnects = cn_reconnects (fst w1)\<rparr>)
      in case r of
          Inl e \<Rightarrow> if is_exception e then (Inr (report None (Some e)), w1) else (Inl e, w1)
        | Inr h \<Rightarrow> (Inr (report (Some h) None), w1))"

record conn_snapshot =
  cs_state :: conn_state
  cs_leases :: int
  cs_reconnects :: int
  cs_since :: "seconds option"
  cs_last_connected :: "seconds option"
  cs_last_disconnected :: "seconds option"
  cs_error_type :: "exc_class option"
  cs_heartbeat :: bool

definition snapshot_of :: "'x conn_env \<Rightarrow> connection \<Rightarrow> conn_snapshot" where
  "snapshot_of v c =
     \<lparr>cs_state = cn_state c, cs_leases = cn_leases c, cs_reconnects = cn_reconnects c, cs_since = cn_since c,
      cs_last_connected = cn_last_connected c, cs_last_disconnected = cn_last_disconnected c,
      cs_error_type = map_option exc_cls (cn_last_error c), cs_heartbeat = heartbeat_running v c\<rparr>"

subsection \<open>An engine that writes down its calls\<close>

datatype conn_mark = M_connect bool | M_disconnect bool | M_restore string bool | M_operation bool

definition core :: "connection \<Rightarrow> conn_state \<times> int \<times> string list \<times> int \<times> supervisor" where
  "core c = (cn_state c, cn_leases c, cn_callbacks c, cn_reconnects c, cn_supervisor c)"

text \<open>
  Nobody else uses the connection meanwhile: the engine's calls are written to \<open>marks\<close> and, like all
  the other awaited calls, leave the manager alone; the listener, and the engine's disconnect, are not cancelled,
  and the circuit's listener does not raise.
\<close>

definition silent :: "('x \<Rightarrow> conn_mark list) \<Rightarrow> 'x conn_world action \<Rightarrow> bool" where
  "silent marks act \<longleftrightarrow>
     (\<forall>w. core (fst (snd (act w))) = core (fst w) \<and> marks (snd (snd (act w))) = marks (snd w))"

definition marked :: "('x \<Rightarrow> conn_mark list) \<Rightarrow> (bool \<Rightarrow> conn_mark) \<Rightarrow> 'x conn_world action \<Rightarrow> bool" where
  "marked marks mk act \<longleftrightarrow>
     (\<forall>w. core (fst (snd (act w))) = core (fst w) \<and> marks (snd (snd (act w))) = marks (snd w) @ [mk (is_ok (fst (act w)))])"

definition raises_exceptions :: "'w action \<Rightarrow> bool" where
  "raises_exceptions act \<longleftrightarrow> (\<forall>w e. fst (act w) = Inl e \<longrightarrow> is_exception e)"

definition undisturbed :: "('x \<Rightarrow> conn_mark list) \<Rightarrow> 'x conn_env \<Rightarrow> bool" where
  "undisturbed marks v \<longleftrightarrow>
     marked marks M_connect (ce_connect v)
     \<and> marked marks M_disconnect (ce_disconnect v) \<and> raises_exceptions (ce_disconnect v)
     \<and> (\<forall>n. marked marks (M_restore n) (ce_restore v n))
     \<and> (\<forall>ev. silent marks (ce_emit v ev) \<and> raises_exceptions (ce_emit v ev))
     \<and> (\<forall>f tr. ce_circuit_emit v = Some f \<longrightarrow> silent marks (f tr) \<and> (\<forall>w. is_ok (fst (f tr w))))
     \<and> quiet (\<lambda>w. (core (fst w), marks (snd w))) (ce_retry v) (ce_policy v)"

lemma markedD:
  "marked marks mk act \<Longrightarrow> act w = (r, w') \<Longrightarrow>
   core (fst w') = core (fst w) \<and> marks (snd w') = marks (snd w) @ [mk (is_ok r)]"
  unfolding marked_def by (metis fst_conv snd_conv)

lemma silentD:
  "silent marks act \<Longrightarrow> act w = (r, w') \<Longrightarrow> core (fst w') = core (fst w) \<and> marks (snd w') = marks (snd w)"
  unfolding silent_def by (metis snd_conv)

lemma swallow_ok: "raises_exceptions act \<Longrightarrow> swallow act w = (Inr (), snd (act w))"
  by (auto simp: raises_exceptions_def swallow_def split: prod.split sum.split) (metis fst_conv)

lemma conn_emit_silent:
  assumes "undisturbed marks v"
  obtains w' where "conn_emit v ev w = (Inr (), w')" and "core (fst w') = core (fst w)"
    and "marks (snd w') = marks (snd w)"
proof -
  have e: "raises_exceptions (ce_emit v ev)" and s: "silent marks (ce_emit v ev)"
    using assms by (auto simp: undisturbed_def)
  show thesis
    by (rule that [of "snd (ce_emit v ev w)"])
       (use s in \<open>simp_all add: conn_emit_def swallow_ok [OF e] silent_def del: split_paired_All\<close>)
qed

lemma disconnect_marked:
  assumes "undisturbed marks v"
  obtains w' ok where "swallow (ce_disconnect v) w = (Inr (), w')" and "core (fst w') = core (fst w)"
    and "marks (snd w') = marks (snd w) @ [M_disconnect ok]"
proof -
  have e: "raises_exceptions (ce_disconnect v)" and m: "marked marks M_disconnect (ce_disconnect v)"
    using assms by (auto simp: undisturbed_def)
  show thesis
    by (rule that [of "snd (ce_disconnect v w)" "is_ok (fst (ce_disconnect v w))"])
       (use m in \<open>simp_all add: swallow_ok [OF e] marked_def del: split_paired_All\<close>)
qed

text \<open>A call through the circuit: refused, or made with its result passed on.\<close>

lemma through_circuit_cases:
  assumes u: "undisturbed marks v" and run: "through_circuit v operation w = (r, w')"
  shows "(\<not> is_ok r \<and> core (fst w') = core (fst w) \<and> snd w' = snd w)
    \<or> (\<exists>w1 w2. core (fst w1) = core (fst w) \<and> marks (snd w1) = marks (snd w) \<and> operation w1 = (r, w2)
        \<and> core (fst w') = core (fst w2) \<and> marks (snd w') = marks (snd w2))"
proof -
  let ?emit = "emit_transition (ce_circuit_emit v)"
  have emit: "is_ok (fst (?emit t x)) \<and> core (fst (snd (?emit t x))) = core (fst x)
      \<and> marks (snd (snd (?emit t x))) = marks (snd x)" for t x
    using u by (auto simp: emit_transition_def undisturbed_def silent_def simp del: split_paired_All split: option.split)
  have emitted: "?emit t x = (q, x') \<Longrightarrow> q = Inr () \<and> core (fst x') = core (fst x) \<and> marks (snd x') = marks (snd x)"
    for t x q x'
    using emit [of t x] by (auto simp: is_ok_iff)
  obtain p b1 where before: "before_call (ce_circuit v) (ce_clock v w) (cn_breaker (fst w)) = (p, b1)" by (rule prod.exhaust)
  show ?thesis
  proof (cases p)
    case (Inl e)
    with run before show ?thesis by (auto simp: through_circuit_def circuit_call_def core_def)
  next
    case (Inr t)
    obtain q1 w1 where e1: "?emit t w = (q1, w1)" by (rule prod.exhaust)
    obtain s w2 where op: "operation w1 = (s, w2)" by (rule prod.exhaust)
    from emitted [OF e1] have w1: "q1 = Inr ()" "core (fst w1) = core (fst w)" "marks (snd w1) = marks (snd w)" by auto
    have core_b: "core (c\<lparr>cn_breaker := b\<rparr>) = core c" for c b by (simp add: core_def)
    have "r = s \<and> core (fst w') = core (fst w2) \<and> marks (snd w') = marks (snd w2)"
      using run before Inr e1 w1(1) op
      by (auto simp: through_circuit_def circuit_call_def core_b split: sum.splits if_splits prod.splits
          dest!: emitted)
    with w1 op show ?thesis by blast
  qed
qed


lemma connect_operation_cases:
  assumes u: "undisturbed marks v" and run: "connect_operation v t w = (r, w')"
  shows "core (fst w') = core (fst w)
    \<and> (is_ok r \<longrightarrow> marks (snd w') = marks (snd w) @ [M_connect True])
    \<and> (\<not> is_ok r \<longrightarrow> (\<exists>n. marks (snd w') = marks (snd w) @ replicate n (M_connect False)))"
proof -
  have m: "marked marks M_connect (ce_connect v)" using u by (simp add: undisturbed_def)
  from through_circuit_cases [OF u run [unfolded connect_operation_def]]
  consider (refused) "\<not> is_ok r" "core (fst w') = core (fst w)" "snd w' = snd w"
    | (made) w1 w2 where "core (fst w1) = core (fst w)" "marks (snd w1) = marks (snd w)" "ce_connect v w1 = (r, w2)"
        "core (fst w') = core (fst w2)" "marks (snd w') = marks (snd w2)" by blast
  then show ?thesis
  proof cases
    case refused
    then show ?thesis by (auto intro: exI [of _ 0])
  next
    case made
    from markedD [OF m made(3)] made show ?thesis
      by (cases r) (auto intro: exI [of _ 1])
  qed
qed

text \<open>The run of the retry manager: some failed connects, and one that succeeds when it returns.\<close>

lemma connect_run_cases:
  assumes u: "undisturbed marks v"
    and run: "retry_run (ce_retry v) (ce_policy v) (connect_operation v) w = (out, w')"
  shows "core (fst w') = core (fst w) \<and> (\<exists>n. marks (snd w') = marks (snd w) @ replicate n (M_connect False)
      @ (if is_ok (outcome_result out) then [M_connect True] else []))"
proof -
  define Q where "Q = (\<lambda>u :: 'a conn_world. core (fst u) = core (fst w)
    \<and> (\<exists>n. marks (snd u) = marks (snd w) @ replicate n (M_connect False)))"
  define R where "R = (\<lambda>(x :: unit) (u :: 'a conn_world). core (fst u) = core (fst w)
    \<and> (\<exists>n. marks (snd u) = marks (snd w) @ replicate n (M_connect False) @ [M_connect True]))"
  have "quiet (\<lambda>u. (core (fst u), marks (snd u))) (ce_retry v) (ce_policy v)" using u by (simp add: undisturbed_def)
  from quiet_keeps [OF this, of "\<lambda>(c, ms). c = core (fst w) \<and> (\<exists>n. ms = marks (snd w) @ replicate n (M_connect False))"]
  have keep: "keeps Q (ce_retry v) (ce_policy v)" by (simp add: Q_def)
  have more: "replicate n a @ replicate k a = replicate (n + k) a" for n k and a :: conn_mark
    by (simp add: replicate_add)
  have fails: "Q u \<Longrightarrow> connect_operation v t u = (Inl e, u') \<Longrightarrow> Q u'" for u t e u'
  proof -
    assume q: "Q u" and op: "connect_operation v t u = (Inl e, u')"
    from connect_operation_cases [OF u op] obtain k where "core (fst u') = core (fst u)"
      "marks (snd u') = marks (snd u) @ replicate k (M_connect False)" by auto
    with q show "Q u'" unfolding Q_def by (auto simp: more)
  qed
  have returns: "Q u \<Longrightarrow> connect_operation v t u = (Inr x, u') \<Longrightarrow> R x u'" for u t x u'
    using connect_operation_cases [OF u, of t u "Inr x" u'] by (auto simp: Q_def R_def)
  have start: "Q w" by (auto simp: Q_def intro: exI [of _ 0])
  have "case out of Returned x \<Rightarrow> R x w' | _ \<Rightarrow> Q w'"
    by (rule retry_run_rule [OF keep _ _ start run]) (erule (1) fails, erule (1) returns)
  then show ?thesis by (cases out) (auto simp: Q_def R_def)
qed

definition restored :: "string list \<Rightarrow> conn_mark list" where
  "restored ns = map (\<lambda>n. M_restore n True) ns"

lemma restore_all_cases:
  assumes u: "undisturbed marks v"
  shows "restore_all v ns w = (r, w') \<Longrightarrow> core (fst w') = core (fst w)
    \<and> (is_ok r \<longrightarrow> marks (snd w') = marks (snd w) @ restored ns)
    \<and> (\<not> is_ok r \<longrightarrow> (\<exists>k < length ns. marks (snd w') = marks (snd w) @ restored (take k ns) @ [M_restore (ns ! k) False]))"
proof (induction ns arbitrary: w)
  case (Cons n ns)
  obtain r1 w1 where step: "ce_restore v n w = (r1, w1)" by (rule prod.exhaust)
  have "marked marks (M_restore n) (ce_restore v n)" using u by (simp add: undisturbed_def)
  note m = markedD [OF this step]
  show ?case
  proof (cases r1)
    case (Inl e)
    with Cons.prems step m show ?thesis
      by (auto simp: restored_def conn_error_def split: if_splits intro!: exI [of _ 0])
  next
    case (Inr y)
    with Cons.prems step have rest: "restore_all v ns w1 = (r, w')" by simp
    from Cons.IH [OF rest] m Inr show ?thesis
      by (auto simp: restored_def intro: exI [of _ "Suc _"])
  qed
qed (auto simp: restored_def)

lemma core_simps [simp]:
  "core (c\<lparr>cn_last_error := e\<rparr>) = core c"
  "core (c\<lparr>cn_since := s\<rparr>) = core c"
  "core (c\<lparr>cn_last_disconnected := s\<rparr>) = core c"
  "core (c\<lparr>cn_last_connected := s\<rparr>) = core c"
  by (simp_all add: core_def)

text \<open>The manager but for its state.\<close>

definition rest_of :: "connection \<Rightarrow> int \<times> string list \<times> int \<times> supervisor" where
  "rest_of c = (cn_leases c, cn_callbacks c, cn_reconnects c, cn_supervisor c)"

lemma core_rest: "core c = core d \<longleftrightarrow> cn_state c = cn_state d \<and> rest_of c = rest_of d"
  by (auto simp: core_def rest_of_def)

lemma connect_failed_cases:
  assumes u: "undisturbed marks v" and run: "connect_failed v b e w = (r, w')"
  shows "r = Inl e \<and> cn_state (fst w') = CN_FAILED \<and> rest_of (fst w') = rest_of (fst w) \<and> marks (snd w') = marks (snd w)"
proof -
  obtain w1 where e: "conn_emit v (CE_failed b) (set_state CN_FAILED (note_error e w)) = (Inr (), w1)"
    and w1: "core (fst w1) = core (fst (set_state CN_FAILED (note_error e w)))"
      "marks (snd w1) = marks (snd (set_state CN_FAILED (note_error e w)))"
    by (rule conn_emit_silent [OF u])
  from run e have "r = Inl e" "w' = w1" by (simp_all add: connect_failed_def)
  with w1 show ?thesis by (simp add: core_rest set_state_def note_error_def) (simp add: rest_of_def)
qed

lemma connect_done_cases:
  assumes u: "undisturbed marks v" and run: "connect_done v b w = (r, w')"
  shows "r = Inr () \<and> cn_state (fst w') = CN_CONNECTED \<and> rest_of (fst w') = rest_of (fst w) \<and> marks (snd w') = marks (snd w)"
proof -
  let ?w1 = "in_conn (\<lambda>c. c\<lparr>cn_since := Some (ce_clock v w), cn_last_connected := Some (ce_clock v w),
    cn_last_error := None, cn_state := CN_CONNECTED\<rparr>) w"
  obtain w2 where e: "conn_emit v (CE_connected b (cn_reconnects (fst ?w1))) ?w1 = (Inr (), w2)"
    and w2: "core (fst w2) = core (fst ?w1)" "marks (snd w2) = marks (snd ?w1)"
    by (rule conn_emit_silent [OF u])
  from run e have "r = Inr ()" "w' = w2" by (simp_all add: connect_done_def Let_def)
  with w2 show ?thesis by (simp add: core_rest) (simp add: rest_of_def)
qed


text \<open>Connecting: every callback restored, or nothing left connected.\<close>

definition connected_marks :: "string list \<Rightarrow> conn_mark list \<Rightarrow> bool" where
  "connected_marks ns ms \<longleftrightarrow> (\<exists>n. ms = replicate n (M_connect False) @ [M_connect True] @ restored ns)"

definition failed_marks :: "string list \<Rightarrow> conn_mark list \<Rightarrow> bool" where
  "failed_marks ns ms \<longleftrightarrow>
     (\<exists>n. ms = replicate n (M_connect False)
       \<or> (\<exists>k < length ns. \<exists>gone. ms = replicate n (M_connect False) @ [M_connect True] @ restored (take k ns)
            @ [M_restore (ns ! k) False, M_disconnect gone]))"

lemma connect_locked_cases:
  assumes u: "undisturbed marks v" and run: "connect_locked v b w = (r, w')"
  shows "rest_of (fst w') = rest_of (fst w) \<and> (\<exists>ms. marks (snd w') = marks (snd w) @ ms
    \<and> (is_ok r \<longrightarrow> cn_state (fst w') = CN_CONNECTED \<and> connected_marks (cn_callbacks (fst w)) ms)
    \<and> (\<not> is_ok r \<longrightarrow> cn_state (fst w') = CN_FAILED \<and> failed_marks (cn_callbacks (fst w)) ms))"
proof -
  obtain out w1 where rr: "retry_run (ce_retry v) (ce_policy v) (connect_operation v) w = (out, w1)" by (rule prod.exhaust)
  from connect_run_cases [OF u rr] obtain n where core1: "core (fst w1) = core (fst w)"
    and m1: "marks (snd w1) = marks (snd w) @ replicate n (M_connect False)
      @ (if is_ok (outcome_result out) then [M_connect True] else [])" by blast
  from core1 have rest1: "rest_of (fst w1) = rest_of (fst w)" and cbs: "cn_callbacks (fst w1) = cn_callbacks (fst w)"
    by (simp_all add: core_rest rest_of_def)
  show ?thesis
  proof (cases "outcome_result out")
    case (Inl e)
    with run rr have "connect_failed v b e w1 = (r, w')" by (simp add: connect_locked_def)
    from connect_failed_cases [OF u this] rest1 m1 Inl show ?thesis
      by (auto simp: failed_marks_def)
  next
    case (Inr x)
    obtain r2 w2 where ra: "restore_all v (cn_callbacks (fst w)) w1 = (r2, w2)" by (rule prod.exhaust)
    note spec = restore_all_cases [OF u ra]
    show ?thesis
    proof (cases r2)
      case (Inr y)
      with run rr \<open>outcome_result out = Inr x\<close> ra cbs have "connect_done v b w2 = (r, w')" by (simp add: connect_locked_def)
      from connect_done_cases [OF u this] spec rest1 m1 \<open>outcome_result out = Inr x\<close> Inr show ?thesis
        by (auto simp: connected_marks_def core_rest)
    next
      case (Inl e)
      obtain w3 gone where d: "swallow (ce_disconnect v) w2 = (Inr (), w3)" and w3: "core (fst w3) = core (fst w2)"
        "marks (snd w3) = marks (snd w2) @ [M_disconnect gone]" by (rule disconnect_marked [OF u])
      with run rr \<open>outcome_result out = Inr x\<close> ra Inl cbs have "connect_failed v b e w3 = (r, w')"
        by (simp add: connect_locked_def)
      note f = connect_failed_cases [OF u this]
      from spec Inl obtain k where "k < length (cn_callbacks (fst w))"
        "marks (snd w2) = marks (snd w1) @ restored (take k (cn_callbacks (fst w))) @ [M_restore (cn_callbacks (fst w) ! k) False]"
        by auto
      with f w3 spec rest1 m1 \<open>outcome_result out = Inr x\<close> show ?thesis
        by (auto simp: failed_marks_def core_rest)
    qed
  qed
qed

lemma rest_of_state [simp]: "rest_of (c\<lparr>cn_state := s\<rparr>) = rest_of c" "rest_of (c\<lparr>cn_last_error := e\<rparr>) = rest_of c"
  by (simp_all add: rest_of_def)

lemma set_state_simps [simp]:
  "fst (set_state s w) = fst w\<lparr>cn_state := s\<rparr>" "snd (set_state s w) = snd w"
  "fst (note_error e w) = fst w\<lparr>cn_last_error := Some e\<rparr>" "snd (note_error e w) = snd w"
  by (simp_all add: set_state_def note_error_def)

lemma reconnect_cases:
  assumes u: "undisturbed marks v" and state: "cn_state (fst w) \<notin> {CN_DRAINING, CN_CLOSING, CN_CLOSED}"
    and run: "conn_reconnect v w = (r, w')"
  shows "cn_leases (fst w') = cn_leases (fst w) \<and> cn_callbacks (fst w') = cn_callbacks (fst w)
    \<and> cn_reconnects (fst w') = cn_reconnects (fst w) + 1
    \<and> (\<exists>gone ms. marks (snd w') = marks (snd w) @ M_disconnect gone # ms
        \<and> (is_ok r \<longrightarrow> cn_state (fst w') = CN_CONNECTED \<and> connected_marks (cn_callbacks (fst w)) ms)
        \<and> (\<not> is_ok r \<longrightarrow> cn_state (fst w') = CN_FAILED \<and> failed_marks (cn_callbacks (fst w)) ms))"
proof -
  obtain w1 gone where d: "swallow (ce_disconnect v) (set_state CN_RECONNECTING w) = (Inr (), w1)"
    and w1: "core (fst w1) = core (fst (set_state CN_RECONNECTING w))"
      "marks (snd w1) = marks (snd (set_state CN_RECONNECTING w)) @ [M_disconnect gone]"
    by (rule disconnect_marked [OF u])
  let ?w2 = "in_conn (\<lambda>c. c\<lparr>cn_since := None, cn_last_disconnected := Some (ce_clock v w1)\<rparr>) w1"
  obtain w3 where e: "conn_emit v (CE_disconnected True) ?w2 = (Inr (), w3)"
    and w3: "core (fst w3) = core (fst ?w2)" "marks (snd w3) = marks (snd ?w2)"
    by (rule conn_emit_silent [OF u])
  let ?w4 = "in_conn (\<lambda>c. c\<lparr>cn_reconnects := cn_reconnects c + 1\<rparr>) w3"
  have "connect_locked v True ?w4 = (r, w')"
    using run state d e by (auto simp: conn_reconnect_def Let_def)
  note c = connect_locked_cases [OF u this]
  from w1 w3 have "rest_of (fst w3) = rest_of (fst w)" and m: "marks (snd w3) = marks (snd w) @ [M_disconnect gone]"
    by (simp_all add: core_rest rest_of_def)
  then have "cn_leases (fst ?w4) = cn_leases (fst w)" "cn_callbacks (fst ?w4) = cn_callbacks (fst w)"
    "cn_reconnects (fst ?w4) = cn_reconnects (fst w) + 1" by (simp_all add: rest_of_def)
  with c m show ?thesis by (auto simp: rest_of_def)
qed

lemma startup_cases:
  assumes u: "undisturbed marks v" and run: "conn_startup v w = (r, w')"
  shows "cn_leases (fst w') = cn_leases (fst w) \<and> cn_callbacks (fst w') = cn_callbacks (fst w)
    \<and> (\<exists>ms. marks (snd w') = marks (snd w) @ ms
        \<and> (ms = [] \<or> connected_marks (cn_callbacks (fst w)) ms \<or> failed_marks (cn_callbacks (fst w)) ms))
    \<and> (is_ok r \<longrightarrow> cn_state (fst w') = CN_CONNECTED)"
proof (cases "cn_state (fst w) \<in> {CN_CONNECTED, CN_DRAINING, CN_CLOSING}")
  case True
  with run show ?thesis by (auto simp: conn_startup_def conn_error_def)
next
  case False
  obtain r1 w1 where c: "connect_locked v False (set_state CN_CONNECTING w) = (r1, w1)" by (rule prod.exhaust)
  note spec = connect_locked_cases [OF u c]
  have h: "cn_leases (fst w'') = cn_leases (fst w1) \<and> cn_callbacks (fst w'') = cn_callbacks (fst w1)
      \<and> cn_state (fst w'') = cn_state (fst w1) \<and> snd w'' = snd w1"
    if "start_heartbeat v w1 = (q, w'')" for q w''
    using that by (auto simp: start_heartbeat_def split: if_splits prod.splits)
  show ?thesis
  proof (cases r1)
    case (Inl e)
    with run False c spec show ?thesis by (auto simp: conn_startup_def rest_of_def)
  next
    case (Inr x)
    with run False c have "start_heartbeat v w1 = (r, w')" by (auto simp: conn_startup_def)
    from h [OF this] spec Inr show ?thesis by (auto simp: rest_of_def)
  qed
qed


fun is_operation :: "conn_mark \<Rightarrow> bool" where
  "is_operation (M_operation _) = True"
| "is_operation _ = False"

lemma no_operation:
  "connected_marks ns ms \<Longrightarrow> filter is_operation ms = []"
  "failed_marks ns ms \<Longrightarrow> filter is_operation ms = []"
  by (auto simp: connected_marks_def failed_marks_def restored_def filter_empty_conv)

lemma lease_enter_cases:
  assumes u: "undisturbed marks v" and run: "lease_enter v w = (r, w')"
  shows "cn_leases (fst w') = (if is_ok r then cn_leases (fst w) + 1 else cn_leases (fst w))
    \<and> cn_callbacks (fst w') = cn_callbacks (fst w)
    \<and> (\<exists>ms. marks (snd w') = marks (snd w) @ ms \<and> filter is_operation ms = [])
    \<and> (is_ok r \<longrightarrow> cn_state (fst w') = CN_CONNECTED)"
proof -
  obtain r1 w1 where e: "ensure_connected v w = (r1, w1)" by (rule prod.exhaust)
  have spec: "cn_leases (fst w1) = cn_leases (fst w) \<and> cn_callbacks (fst w1) = cn_callbacks (fst w)
    \<and> (\<exists>ms. marks (snd w1) = marks (snd w) @ ms \<and> filter is_operation ms = [])"
  proof (cases "cn_state (fst w) = CN_CONNECTED")
    case True
    with e show ?thesis by (auto simp: ensure_connected_def)
  next
    case False
    with e have "conn_startup v w = (r1, w1)" by (simp add: ensure_connected_def)
    from startup_cases [OF u this] show ?thesis by (auto dest: no_operation)
  qed
  with run e show ?thesis
    by (cases r1) (auto simp: lease_enter_def conn_error_def split: if_splits)
qed

lemma run_failed_cases:
  assumes u: "undisturbed marks v" and run: "run_failed v e w = (r, w')"
  shows "\<not> is_ok r \<and> cn_leases (fst w') = cn_leases (fst w) \<and> cn_callbacks (fst w') = cn_callbacks (fst w)
    \<and> (\<exists>ms. marks (snd w') = marks (snd w) @ ms \<and> filter is_operation ms = [])
    \<and> (w' = w \<or> cn_state (fst w') \<in> {CN_CONNECTED, CN_FAILED})"
proof (cases "\<not> (isinstance e CancelledError \<or> \<not> is_exception e) \<and> ce_classify v e")
  case True
  let ?w1 = "set_state CN_FAILED (note_error e w)"
  obtain r1 w1 where c: "conn_reconnect v ?w1 = (r1, w1)" by (rule prod.exhaust)
  have "cn_state (fst ?w1) \<notin> {CN_DRAINING, CN_CLOSING, CN_CLOSED}" by simp
  from reconnect_cases [OF u this c]
  have "cn_leases (fst w1) = cn_leases (fst w)" "cn_callbacks (fst w1) = cn_callbacks (fst w)"
    "\<exists>ms. marks (snd w1) = marks (snd w) @ ms \<and> filter is_operation ms = []"
    "cn_state (fst w1) \<in> {CN_CONNECTED, CN_FAILED}"
    by (cases r1; auto dest: no_operation)+
  with run True c show ?thesis by (cases r1) (auto simp: run_failed_def)
next
  case False
  with run show ?thesis by (auto simp: run_failed_def split: if_splits)
qed

subsection \<open>Properties\<close>


text \<open>
  An operation runs under exactly one lease and is never replayed. On a manager nobody else
  uses meanwhile, \<open>run\<close> calls the operation at most once, whatever the circuit, the retries and the reconnection do; it
  returns only if that call did; and it leaves the number of leases and the registered callbacks as it found them.
\<close>

theorem run_leases_once:
  assumes "undisturbed marks v" and "marked marks M_operation (\<lambda>w. case operation w of (r, w1) \<Rightarrow> (map_sum id (\<lambda>x. ()) r, w1))"
    and "conn_run v operation w = (r, w')"
  shows "cn_leases (fst w') = cn_leases (fst w) \<and> cn_callbacks (fst w') = cn_callbacks (fst w)
    \<and> (\<exists>ms. marks (snd w') = marks (snd w) @ ms \<and> length (filter is_operation ms) \<le> 1
        \<and> (is_ok r \<longrightarrow> filter is_operation ms = [M_operation True] \<and> cn_state (fst w') = CN_CONNECTED))"
proof -
  note u = assms(1)
  have op: "operation x = (q, y) \<Longrightarrow> core (fst y) = core (fst x) \<and> marks (snd y) = marks (snd x) @ [M_operation (is_ok q)]"
    for x q y
    using markedD [OF assms(2), of x "map_sum id (\<lambda>x. ()) q" y] by (cases q) auto
  obtain r1 w1 where l: "lease_enter v w = (r1, w1)" by (rule prod.exhaust)
  from lease_enter_cases [OF u l] obtain ms1 where
    l1: "cn_leases (fst w1) = (if is_ok r1 then cn_leases (fst w) + 1 else cn_leases (fst w))"
      "cn_callbacks (fst w1) = cn_callbacks (fst w)" "marks (snd w1) = marks (snd w) @ ms1" "filter is_operation ms1 = []"
      "is_ok r1 \<longrightarrow> cn_state (fst w1) = CN_CONNECTED" by blast
  show ?thesis
  proof (cases r1)
    case (Inl e)
    with assms(3) l have "run_failed v e w1 = (r, w')" by (simp add: conn_run_def)
    from run_failed_cases [OF u this] l1 Inl show ?thesis by auto
  next
    case (Inr x)
    obtain r2 w2 where c: "through_circuit v operation w1 = (r2, w2)" by (rule prod.exhaust)
    have c2: "core (fst w2) = core (fst w1) \<and> (\<exists>ms2. marks (snd w2) = marks (snd w1) @ ms2
        \<and> length (filter is_operation ms2) \<le> 1 \<and> (is_ok r2 \<longrightarrow> filter is_operation ms2 = [M_operation True]))"
      using through_circuit_cases [OF u c] op by fastforce
    then obtain ms2 where m2: "marks (snd w2) = marks (snd w1) @ ms2" "length (filter is_operation ms2) \<le> 1"
      "is_ok r2 \<longrightarrow> filter is_operation ms2 = [M_operation True]" by blast
    have s2: "cn_leases (fst (lease_exit w2)) = cn_leases (fst w)" "cn_callbacks (fst (lease_exit w2)) = cn_callbacks (fst w)"
      "snd (lease_exit w2) = snd w2" "cn_state (fst (lease_exit w2)) = CN_CONNECTED"
      using c2 l1 Inr by (auto simp: lease_exit_def core_def)
    show ?thesis
    proof (cases r2)
      case (Inl e)
      with assms(3) l \<open>r1 = Inr x\<close> c have "run_failed v e (lease_exit w2) = (r, w')" by (simp add: conn_run_def)
      from run_failed_cases [OF u this] s2 m2 l1 show ?thesis by auto
    next
      case (Inr y)
      with assms(3) l \<open>r1 = Inr x\<close> c have "r = Inr y" "w' = lease_exit w2" by (simp_all add: conn_run_def)
      with s2 m2 l1 Inr show ?thesis by auto
    qed
  qed
qed


subsection \<open>A concrete connection\<close>

definition sample_conn_policy :: "conn_mark list conn_world retry_policy" where
  "sample_conn_policy =
     \<lparr>rp_max_attempts = 2, rp_max_elapsed = None, rp_backoff = backoff_delay (FixedBackoff (Fin 1)),
      rp_classifier = TypeClassifier [Exception] [], rp_budget = None, rp_attempt_timeout = None,
      rp_cancellation = CB_PROPAGATE, rp_terminal_action = TA_RAISE, rp_name = ''connection''\<rparr>"

definition sample_conn_retry :: "conn_mark list conn_world retry_manager" where
  "sample_conn_retry =
     \<lparr>rm_clock = (\<lambda>w. (0, w)), rm_sleep = (\<lambda>d w. (Inr (), w)), rm_on_retry = None, rm_events = None\<rparr>"

definition mark_call :: "conn_mark \<Rightarrow> unit result \<Rightarrow> conn_mark list conn_world action" where
  "mark_call m r w = (r, (fst w, snd w @ [m]))"

definition sample_conn :: "conn_mark list conn_env" where
  "sample_conn =
     \<lparr>ce_engine = ''local'', ce_connect = mark_call (M_connect True) (Inr ()),
      ce_disconnect = mark_call (M_disconnect True) (Inr ()), ce_healthcheck = (\<lambda>t w. (Inr \<lparr>eh_healthy = True, eh_connected = True\<rparr>, w)),
      ce_restore = (\<lambda>n. if n = ''bad'' then mark_call (M_restore n False) (raise OSError) else mark_call (M_restore n True) (Inr ())),
      ce_emit = (\<lambda>ev w. (Inr (), w)), ce_clock = (\<lambda>w. 0), ce_sleep = (\<lambda>d w. (Inr (), w)),
      ce_await_idle = (\<lambda>t w. (raise TimeoutError, w)), ce_retry = sample_conn_retry, ce_policy = sample_conn_policy,
      ce_circuit = sample_config\<lparr>cc_failure_threshold := 2, cc_failure_rate := None\<rparr>, ce_circuit_emit = None, ce_classify = default_classifier, ce_interval = Some 30,
      ce_heartbeat_timeout = 5, ce_reconnect_on_unhealthy = True, ce_owns_supervisor = True\<rparr>"

lemma sample_conn_undisturbed: "undisturbed id sample_conn"
  by (simp add: undisturbed_def sample_conn_def marked_def silent_def raises_exceptions_def mark_call_def quiet_def
      sample_conn_retry_def sample_conn_policy_def retry_notify_def optional_call_def validate_attempt_def
      split: if_splits sum.splits)

definition sample_connection :: "string list \<Rightarrow> connection" where
  "sample_connection cbs = (new_connection closed_breaker new_supervisor)\<lparr>cn_state := CN_CONNECTED, cn_callbacks := cbs\<rparr>"


theorem run_leases_once_witness:
  "\<exists>c ms. conn_run sample_conn (mark_call (M_operation False) (raise OSError)) (sample_connection [''a''], []) = (raise OSError, (c, ms))
    \<and> cn_leases c = 0 \<and> cn_callbacks c = [''a''] \<and> length (filter is_operation ms) \<le> 1"
proof -
  let ?op = "mark_call (M_operation False) (raise OSError)"
  let ?w = "(sample_connection [''a''], [])"
  obtain r c ms where run: "conn_run sample_conn ?op ?w = (r, (c, ms))" by (metis prod.exhaust)
  have "fst (conn_run sample_conn ?op ?w) = raise OSError" by code_simp
  with run have r: "r = raise OSError" by simp
  have "marked id M_operation (\<lambda>w. case ?op w of (r, w1) \<Rightarrow> (map_sum id (\<lambda>x. ()) r, w1))"
    by (simp add: marked_def mark_call_def)
  from run_leases_once [OF sample_conn_undisturbed this run] have "cn_leases c = 0" "cn_callbacks c = [''a'']"
    "length (filter is_operation ms) \<le> 1"
    by (auto simp: sample_connection_def new_connection_def)
  with run r show ?thesis by blast
qed

text \<open>
  A connection that was shut down is opened again by the next operation: the engine is connected and
  restored, and because the supervisor refuses the heartbeat task the operation fails with the connection left
  connected.
\<close>

lemma run_reopens_closed_connection:
  "(case conn_shutdown sample_conn 1 (sample_connection [''a''], []) of
      (r, w) \<Rightarrow> (r, cn_state (fst w), case conn_run sample_conn (mark_call (M_operation True) (Inr ())) w of
         (r', w') \<Rightarrow> (r', cn_state (fst w'), snd w')))
   = (Inr (), CN_CLOSED, raise LifecycleError, CN_CONNECTED, [M_disconnect True, M_connect True, M_restore ''a'' True])"
  by code_simp

text \<open>
  Operations and connects share the circuit: an operation that opens it makes its own reconnection
  impossible, and the caller gets the exhausted connect attempts instead of the operation's error.
\<close>

lemma failing_operation_blocks_reconnect:
  "(case conn_run (sample_conn\<lparr>ce_circuit := sample_config\<rparr>) (mark_call (M_operation False) (raise OSError))
           (sample_connection [''a''], []) of
      (r :: unit result, w) \<Rightarrow> (r, cn_state (fst w), snd w))
   = (raise RetryExhaustedError, CN_FAILED, [M_operation False, M_disconnect True])"
  by code_simp

end
