(* ===== verification/Subscribing.thy ===== *)
theory Subscribing
  imports Subscriptions Connection Routers InProcess Local
begin

text \<open>
  The subscription side of \<open>broka/broker.py\<close>: \<open>subscribe\<close> and \<open>unsubscribe\<close>, the controller callbacks \<open>pause\<close>,
  \<open>resume\<close> and \<open>close\<close>, and the callback that restores a consumer after a reconnection. The broker's part of the
  world is its table of subscriptions and its router; the engine \<open>'e\<close> is reached through its connection manager, and
  a consumer is a handle that the engine gave out. One engine is modelled, so the table of connections is the one
  connection. The consumer's callback, which runs \<open>_consume\<close>, is the subject of the theory \<open>Consume\<close>.
\<close>

record sub_record =
  sr_consumer :: nat
  sr_registration :: string
  sr_engine :: string
  sr_destination :: destination
  sr_restore :: string
  sr_physical :: engine_subscription

record subs =
  sb_table :: "(string, sub_record) dict"
  sb_router :: router

record 'e engine_ops =
  eo_create :: "engine_subscription \<Rightarrow> 'e \<Rightarrow> nat result \<times> 'e"
  eo_pause :: "nat \<Rightarrow> 'e action"
  eo_resume :: "nat \<Rightarrow> 'e action"
  eo_close :: "nat \<Rightarrow> 'e action"

type_synonym 'e subs_world = "(subs \<times> 'e) conn_world"

definition the_subs :: "'e subs_world \<Rightarrow> subs" where
  "the_subs w = fst (snd w)"

definition the_engine :: "'e subs_world \<Rightarrow> 'e" where
  "the_engine w = snd (snd w)"

definition in_subs :: "(subs \<Rightarrow> subs) \<Rightarrow> 'e subs_world \<Rightarrow> 'e subs_world" where
  "in_subs f w = (fst w, f (the_subs w), the_engine w)"

definition on_engine :: "('e \<Rightarrow> 'a result \<times> 'e) \<Rightarrow> 'e subs_world \<Rightarrow> 'a result \<times> 'e subs_world" where
  "on_engine call w = (case call (the_engine w) of (r, e) \<Rightarrow> (r, (fst w, the_subs w, e)))"

subsection \<open>Controller callbacks\<close>

definition broker_pause :: "'e engine_ops \<Rightarrow> string \<Rightarrow> 'e subs_world action" where
  "broker_pause ops k w =
     (case dict_get (sb_table (the_subs w)) k of
        None \<Rightarrow> (raise LifecycleError, w)
      | Some r \<Rightarrow> on_engine (eo_pause ops (sr_consumer r)) w)"

definition broker_resume :: "'e engine_ops \<Rightarrow> string \<Rightarrow> 'e subs_world action" where
  "broker_resume ops k w =
     (case dict_get (sb_table (the_subs w)) k of
        None \<Rightarrow> (raise LifecycleError, w)
      | Some r \<Rightarrow> on_engine (eo_resume ops (sr_consumer r)) w)"

definition broker_close :: "'e engine_ops \<Rightarrow> string \<Rightarrow> 'e subs_world action" where
  "broker_close ops k w =
     (case dict_get (sb_table (the_subs w)) k of
        None \<Rightarrow> (Inr (), w)
      | Some r \<Rightarrow>
          let w1 = in_subs (\<lambda>b. b\<lparr>sb_table := dict_del k (sb_table b)\<rparr>) w;
              w2 = (snd (unregister_restore (sr_restore r) (fst w1)), snd w1)
          in (case on_engine (eo_close ops (sr_consumer r)) w2 of
                (Inl e, w3) \<Rightarrow> (Inl e, w3)
              | (Inr _, w3) \<Rightarrow>
                  (Inr (), in_subs (\<lambda>b. b\<lparr>sb_router := snd (unregister_handler (sr_registration r) (sb_router b))\<rparr>) w3)))"

definition broker_controller :: "'e engine_ops \<Rightarrow> 'e subs_world controller" where
  "broker_controller ops =
     \<lparr>ct_pause = broker_pause ops, ct_resume = broker_resume ops, ct_close = broker_close ops\<rparr>"

definition broker_unsubscribe :: "'e engine_ops \<Rightarrow> string \<Rightarrow> subscription \<Rightarrow> 'e subs_world \<Rightarrow> 'e subs_world handled" where
  "broker_unsubscribe ops k s w =
     (if dict_has (sb_table (the_subs w)) k then su_close (Some (broker_controller ops)) s w else (Inr (), s, w))"

text \<open>The restore callback of a subscription; it is unregistered when the subscription leaves the table.\<close>

definition restore_consumer :: "'e engine_ops \<Rightarrow> string \<Rightarrow> 'e subs_world action" where
  "restore_consumer ops k w =
     (case dict_get (sb_table (the_subs w)) k of
        None \<Rightarrow> (Inr (), w)
      | Some r \<Rightarrow>
          (case on_engine (eo_create ops (sr_physical r)) w of
             (Inl e, w1) \<Rightarrow> (Inl e, w1)
           | (Inr a, w1) \<Rightarrow>
               (Inr (), in_subs (\<lambda>b. b\<lparr>sb_table := dict_set k (r\<lparr>sr_consumer := a\<rparr>) (sb_table b)\<rparr>) w1)))"

subsection \<open>Subscribing\<close>

text \<open>The \<open>route\<close> argument: a string, a route, or a declared message type with its name.\<close>

datatype subscribe_route = SR_str string | SR_route route | SR_type pytype string

fun pattern_of_route :: "subscribe_route \<Rightarrow> pattern_like" where
  "pattern_of_route (SR_str s) = PL_str s"
| "pattern_of_route (SR_route r) = PL_route r"
| "pattern_of_route (SR_type t name) = PL_type t"

fun normalize_pattern :: "subscribe_route \<Rightarrow> string result" where
  "normalize_pattern (SR_str s) = (if blank s then raise RoutingError else Inr (strip s))"
| "normalize_pattern (SR_route r) = Inr (rt_name r)"
| "normalize_pattern (SR_type t name) = Inr name"

definition physical_destination :: "string \<Rightarrow> string" where
  "physical_destination pattern =
     (let stem = takeWhile (\<lambda>c. c \<noteq> CHR ''*'' \<and> c \<noteq> CHR ''?'') pattern;
          base = rev (dropWhile (\<lambda>c. c \<in> set ''.:-/'') (rev stem))
      in if base = [] then ''pyev'' else base)"

definition subscription_headers :: "subscription_options \<Rightarrow> headers result" where
  "subscription_headers o' =
     (case so_headers o' of
        MH_absent \<Rightarrow> Inr []
      | MH_mapping items \<Rightarrow> Inr (dict_of_items items)
      | MH_other \<Rightarrow> raise ConfigurationError)"

text \<open>The engine's part: how it is found and what it can do.\<close>

record 'e subscribe_env =
  se_running :: bool
  se_get_engine :: "string option \<Rightarrow> 'e subs_world \<Rightarrow> string result \<times> 'e subs_world"
  se_durable :: bool
  se_groups :: bool
  se_ops :: "'e engine_ops"
  se_conn :: "(subs \<times> 'e) conn_env"

definition validate_subscription_options :: "'e subscribe_env \<Rightarrow> subscription_options \<Rightarrow> unit result" where
  "validate_subscription_options v o' =
     (if so_durable o' \<and> \<not> se_durable v then raise UnsupportedCapabilityError
      else if so_group o' \<noteq> None \<and> \<not> se_groups v then raise UnsupportedCapabilityError
      else Inr ())"

definition subscription_name :: "string \<Rightarrow> string" where
  "subscription_name sid = ''subscription:'' @ sid"

definition choose_destination :: "string \<Rightarrow> destination list \<Rightarrow> destination result" where
  "choose_destination pattern ds =
     (case ds of [] \<Rightarrow> new_destination (physical_destination pattern) DK_TOPIC None [] | d # _ \<Rightarrow> Inr d)"

text \<open>What happens between the registration of the handler and the creation of the consumer.\<close>

definition subscribe_prepare ::
  "'e subscribe_env \<Rightarrow> string \<Rightarrow> subscription \<Rightarrow> 'e subs_world
   \<Rightarrow> (string \<times> destination \<times> engine_subscription) result \<times> 'e subs_world"
where
  "subscribe_prepare v pattern s w =
     (case resolve_destinations (RL_str pattern) None None None (sb_router (the_subs w)) of
        Inl e \<Rightarrow> (Inl e, w)
      | Inr ds \<Rightarrow>
          (case choose_destination pattern ds of
             Inl e \<Rightarrow> (Inl e, w)
           | Inr d \<Rightarrow>
               (case se_get_engine v (de_engine d) w of
                  (Inl e, w1) \<Rightarrow> (Inl e, w1)
                | (Inr engine, w1) \<Rightarrow>
                    (case validate_subscription_options v (su_options s) of
                       Inl e \<Rightarrow> (Inl e, w1)
                     | Inr _ \<Rightarrow>
                         (case subscription_headers (su_options s) of
                            Inl e \<Rightarrow> (Inl e, w1)
                          | Inr hs \<Rightarrow>
                              (case new_engine_subscription (su_id s) pattern (de_name d)
                                      (so_concurrency (su_options s)) (so_capacity (su_options s)) hs of
                                 Inl e \<Rightarrow> (Inl e, w1)
                               | Inr physical \<Rightarrow> (Inr (engine, d, physical), w1)))))))"

definition subscribe_create ::
  "'e subscribe_env \<Rightarrow> string \<Rightarrow> subscription \<Rightarrow> string \<times> destination \<times> engine_subscription
   \<Rightarrow> 'e subs_world \<Rightarrow> subscription result \<times> 'e subs_world"
where
  "subscribe_create v registration s = (\<lambda>(engine, d, physical) w.
     (case conn_run (se_conn v) (on_engine (eo_create (se_ops v) physical)) w of
        (Inl e, w1) \<Rightarrow>
          (Inl e, if is_exception e
                  then in_subs (\<lambda>b. b\<lparr>sb_router := snd (unregister_handler registration (sb_router b))\<rparr>) w1
                  else w1)
      | (Inr a, w1) \<Rightarrow>
          let r = \<lparr>sr_consumer = a, sr_registration = registration, sr_engine = engine, sr_destination = d,
                   sr_restore = subscription_name (su_id s), sr_physical = physical\<rparr>;
              w2 = in_subs (\<lambda>b. b\<lparr>sb_table := dict_set (su_id s) r (sb_table b)\<rparr>) w1
          in (case register_restore (sr_restore r) (fst w2) of
                (Inl e, c) \<Rightarrow> (Inl e, (c, snd w2))
              | (Inr _, c) \<Rightarrow>
                  (case su_activate s (c, snd w2) of
                     (Inl e, s', w3) \<Rightarrow> (Inl e, w3)
                   | (Inr _, s', w3) \<Rightarrow> (Inr s', w3)))))"

definition broker_subscribe ::
  "'e subscribe_env \<Rightarrow> string \<Rightarrow> datetime \<Rightarrow> subscribe_route \<Rightarrow> handler \<Rightarrow> subscription_options
   \<Rightarrow> 'e subs_world \<Rightarrow> subscription result \<times> 'e subs_world"
where
  "broker_subscribe v sid created route h opts w =
     (if \<not> se_running v then (raise LifecycleError, w)
      else case normalize_pattern route of
          Inl e \<Rightarrow> (Inl e, w)
        | Inr pattern \<Rightarrow>
            (case new_subscription sid True opts SS_CREATED created of
               Inl e \<Rightarrow> (Inl e, w)
             | Inr s \<Rightarrow>
                 (case register_handler (pattern_of_route route) h (Some (subscription_name sid)) None None 0
                         (sb_router (the_subs w)) of
                    (reg, ro) \<Rightarrow>
                      let w1 = in_subs (sb_router_update (\<lambda>_. ro)) w
                      in (case reg of
                            Inl e \<Rightarrow> (Inl e, w1)
                          | Inr registration \<Rightarrow>
                              (case subscribe_prepare v pattern s w1 of
                                 (Inl e, w2) \<Rightarrow> (Inl e, w2)
                               | (Inr p, w2) \<Rightarrow> subscribe_create v (rg_name registration) s p w2)))))"

subsection \<open>The broker over the local engine\<close>

definition local_ops :: "local_engine engine_ops" where
  "local_ops =
     \<lparr>eo_create = local_create_consumer, eo_pause = (\<lambda>a e. (Inr (), at_object a consumer_pause e)),
      eo_resume = (\<lambda>a e. (Inr (), at_object a consumer_resume e)), eo_close = (\<lambda>a e. (Inr (), at_object a consumer_close e))\<rparr>"

definition object_phase :: "local_consumer \<Rightarrow> consumer_phase" where
  "object_phase c = (if lc_closed c then Released else if lc_resumed c then Delivering else Held)"

definition local_phase :: "local_engine subs_world \<Rightarrow> string \<Rightarrow> consumer_phase" where
  "local_phase w k =
     (case dict_get (sb_table (the_subs w)) k of
        None \<Rightarrow> Released
      | Some r \<Rightarrow> object_phase (le_objects (the_engine w) ! sr_consumer r))"

text \<open>Every subscription has a consumer of its own, which is not closed.\<close>

definition subs_valid :: "local_engine subs_world \<Rightarrow> bool" where
  "subs_valid w \<longleftrightarrow>
     (\<forall>k r. dict_get (sb_table (the_subs w)) k = Some r \<longrightarrow>
        sr_consumer r < length (le_objects (the_engine w)) \<and> \<not> lc_closed (le_objects (the_engine w) ! sr_consumer r))
     \<and> (\<forall>j k r q. dict_get (sb_table (the_subs w)) j = Some r \<longrightarrow> dict_get (sb_table (the_subs w)) k = Some q \<longrightarrow>
        j \<noteq> k \<longrightarrow> sr_consumer r \<noteq> sr_consumer q)"

lemmas subs_defs = the_subs_def the_engine_def in_subs_def on_engine_def

lemma object_phases [simp]:
  "object_phase (consumer_pause c) = (if lc_closed c then Released else Held)"
  "object_phase (consumer_resume c) = (if lc_closed c then Released else Delivering)"
  "lc_closed (consumer_pause c) = lc_closed c" "lc_closed (consumer_resume c) = lc_closed c"
  by (simp_all add: object_phase_def consumer_pause_def consumer_resume_def)

lemma moved_object:
  assumes v: "subs_valid w" and k: "dict_get (sb_table (the_subs w)) k = Some r"
    and f: "\<And>c. lc_closed (f c) = lc_closed c"
    and w': "w' = (fst w, the_subs w, at_object (sr_consumer r) f (the_engine w))"
  shows "subs_valid w' \<and> (\<forall>j. j \<noteq> k \<longrightarrow> local_phase w' j = local_phase w j)
    \<and> local_phase w' k = object_phase (f (le_objects (the_engine w) ! sr_consumer r))"
proof -
  let ?os = "le_objects (the_engine w)" and ?os' = "le_objects (the_engine w')"
  have same: "the_subs w' = the_subs w" and os: "?os' = ?os[sr_consumer r := f (?os ! sr_consumer r)]"
    by (simp_all add: w' subs_defs at_object_def)
  from v have range: "\<And>j q. dict_get (sb_table (the_subs w)) j = Some q \<Longrightarrow> sr_consumer q < length ?os \<and> \<not> lc_closed (?os ! sr_consumer q)"
    and own: "\<And>j q. dict_get (sb_table (the_subs w)) j = Some q \<Longrightarrow> j \<noteq> k \<Longrightarrow> sr_consumer q \<noteq> sr_consumer r"
    using k unfolding subs_valid_def by blast+
  have here: "?os' ! sr_consumer r = f (?os ! sr_consumer r)" using range [OF k] by (simp add: os)
  have there: "?os' ! sr_consumer q = ?os ! sr_consumer q"
    if "dict_get (sb_table (the_subs w)) j = Some q" "j \<noteq> k" for j q
    using own [OF that] by (simp add: os)
  have "sr_consumer q < length ?os' \<and> \<not> lc_closed (?os' ! sr_consumer q)"
    if "dict_get (sb_table (the_subs w)) j = Some q" for j q
    using range [OF that] there [OF that] here f k that by (cases "j = k") (auto simp: os)
  then have "subs_valid w'" using v unfolding subs_valid_def same by blast
  moreover have "local_phase w' j = local_phase w j" if "j \<noteq> k" for j
    using there [OF _ that] by (simp add: local_phase_def same split: option.split)
  moreover have "local_phase w' k = object_phase (f (?os ! sr_consumer r))"
    by (simp add: local_phase_def same k here)
  ultimately show ?thesis by blast
qed

lemma local_close_law:
  assumes v: "subs_valid w" and run: "broker_close local_ops k w = (r, w')"
  shows "subs_valid w' \<and> (\<forall>j. j \<noteq> k \<longrightarrow> local_phase w' j = local_phase w j)
    \<and> r = Inr () \<and> local_phase w' k = Released"
proof (cases "dict_get (sb_table (the_subs w)) k")
  case None
  with v run show ?thesis by (auto simp: broker_close_def local_phase_def)
next
  case (Some q)
  let ?os = "le_objects (the_engine w)"
  from run Some have r: "r = Inr ()" and table: "sb_table (the_subs w') = dict_del k (sb_table (the_subs w))"
    and os: "le_objects (the_engine w') = ?os[sr_consumer q := consumer_close (?os ! sr_consumer q)]"
    by (auto simp: broker_close_def subs_defs local_ops_def at_object_def Let_def)
  from v have range: "\<And>j p. dict_get (sb_table (the_subs w)) j = Some p \<Longrightarrow> sr_consumer p < length ?os \<and> \<not> lc_closed (?os ! sr_consumer p)"
    and own: "\<And>j p. dict_get (sb_table (the_subs w)) j = Some p \<Longrightarrow> j \<noteq> k \<Longrightarrow> sr_consumer p \<noteq> sr_consumer q"
    and inj: "\<And>i j p p'. dict_get (sb_table (the_subs w)) i = Some p \<Longrightarrow> dict_get (sb_table (the_subs w)) j = Some p' \<Longrightarrow>
      i \<noteq> j \<Longrightarrow> sr_consumer p \<noteq> sr_consumer p'"
    using Some unfolding subs_valid_def by blast+
  have there: "le_objects (the_engine w') ! sr_consumer p = ?os ! sr_consumer p"
    if "dict_get (sb_table (the_subs w)) j = Some p" "j \<noteq> k" for j p
    using own [OF that] by (simp add: os)
  have "subs_valid w'"
    using range there inj by (auto simp: subs_valid_def table os)
  moreover have "local_phase w' j = local_phase w j" if "j \<noteq> k" for j
    using there [OF _ that] that by (simp add: local_phase_def table split: option.split)
  moreover have "local_phase w' k = Released" by (simp add: local_phase_def table)
  ultimately show ?thesis using r by blast
qed

lemma local_move_law:
  assumes v: "subs_valid w" and f: "\<And>c. lc_closed (f c) = lc_closed c"
    and run: "(case dict_get (sb_table (the_subs w)) k of
        None \<Rightarrow> (raise LifecycleError, w)
      | Some r \<Rightarrow> on_engine (\<lambda>e. (Inr (), at_object (sr_consumer r) f e)) w) = (r, w')"
  shows "subs_valid w' \<and> (\<forall>j. j \<noteq> k \<longrightarrow> local_phase w' j = local_phase w j)
    \<and> (is_ok r \<longrightarrow> (\<exists>c. \<not> lc_closed c \<and> local_phase w' k = object_phase (f c)))
    \<and> (\<not> is_ok r \<longrightarrow> local_phase w' k = local_phase w k)"
proof (cases "dict_get (sb_table (the_subs w)) k")
  case None
  with v run show ?thesis by auto
next
  case (Some q)
  with run have r: "r = Inr ()" and w': "w' = (fst w, the_subs w, at_object (sr_consumer q) f (the_engine w))"
    by (auto simp: on_engine_def)
  have "\<not> lc_closed (le_objects (the_engine w) ! sr_consumer q)" using v Some by (auto simp: subs_valid_def)
  with moved_object [OF v Some f w'] r show ?thesis by auto
qed

lemma broker_controller_local:
  "ct_pause (broker_controller local_ops) k w =
     (case dict_get (sb_table (the_subs w)) k of
        None \<Rightarrow> (raise LifecycleError, w)
      | Some r \<Rightarrow> on_engine (\<lambda>e. (Inr (), at_object (sr_consumer r) consumer_pause e)) w)"
  "ct_resume (broker_controller local_ops) k w =
     (case dict_get (sb_table (the_subs w)) k of
        None \<Rightarrow> (raise LifecycleError, w)
      | Some r \<Rightarrow> on_engine (\<lambda>e. (Inr (), at_object (sr_consumer r) consumer_resume e)) w)"
  "ct_close (broker_controller local_ops) k w = broker_close local_ops k w"
  by (simp_all add: broker_controller_def broker_pause_def broker_resume_def local_ops_def split: option.split)

interpretation local_control: consumer_control "broker_controller local_ops" local_phase subs_valid
proof
  fix w w' :: "local_engine subs_world" and k r
  assume v: "subs_valid w"
  show "subs_valid w' \<and> (\<forall>j. j \<noteq> k \<longrightarrow> local_phase w' j = local_phase w j)
      \<and> local_phase w' k = (if is_ok r then Held else local_phase w k)"
    if "ct_pause (broker_controller local_ops) k w = (r, w')"
    using local_move_law [OF v _ that [unfolded broker_controller_local]] by auto
  show "subs_valid w' \<and> (\<forall>j. j \<noteq> k \<longrightarrow> local_phase w' j = local_phase w j)
      \<and> local_phase w' k = (if is_ok r then Delivering else local_phase w k)"
    if "ct_resume (broker_controller local_ops) k w = (r, w')"
    using local_move_law [OF v _ that [unfolded broker_controller_local]] by auto
  show "subs_valid w' \<and> (\<forall>j. j \<noteq> k \<longrightarrow> local_phase w' j = local_phase w j)
      \<and> local_phase w' k = (if is_ok r then Released else local_phase w k)"
    if "ct_close (broker_controller local_ops) k w = (r, w')"
    using local_close_law [OF v that [unfolded broker_controller_local]] by simp
qed


subsection \<open>Properties\<close>


subsection \<open>A concrete broker\<close>

definition sub_policy :: "(subs \<times> local_engine) conn_world retry_policy" where
  "sub_policy =
     \<lparr>rp_max_attempts = 2, rp_max_elapsed = None, rp_backoff = backoff_delay (FixedBackoff (Fin 1)),
      rp_classifier = TypeClassifier [Exception] [], rp_budget = None, rp_attempt_timeout = None,
      rp_cancellation = CB_PROPAGATE, rp_terminal_action = TA_RAISE, rp_name = ''connection''\<rparr>"

definition sub_conn :: "(subs \<times> local_engine) conn_env" where
  "sub_conn =
     \<lparr>ce_engine = ''local'', ce_connect = on_engine (\<lambda>e. (Inr (), local_connect e)),
      ce_disconnect = on_engine (\<lambda>e. (Inr (), local_disconnect e)),
      ce_healthcheck = (\<lambda>t w. (Inr \<lparr>eh_healthy = True, eh_connected = True\<rparr>, w)),
      ce_restore = (\<lambda>n. restore_consumer local_ops (drop (length (subscription_name [])) n)),
      ce_emit = (\<lambda>ev w. (Inr (), w)), ce_clock = (\<lambda>w. 0), ce_sleep = (\<lambda>d w. (Inr (), w)),
      ce_await_idle = (\<lambda>t w. (Inr (), w)),
      ce_retry = \<lparr>rm_clock = (\<lambda>w. (0, w)), rm_sleep = (\<lambda>d w. (Inr (), w)), rm_on_retry = None, rm_events = None\<rparr>,
      ce_policy = sub_policy, ce_circuit = sample_config\<lparr>cc_failure_threshold := 5, cc_failure_rate := None\<rparr>,
      ce_circuit_emit = None, ce_classify = default_classifier, ce_interval = None,
      ce_heartbeat_timeout = 5, ce_reconnect_on_unhealthy = True, ce_owns_supervisor = True\<rparr>"

definition sub_env :: "local_engine subscribe_env" where
  "sub_env =
     \<lparr>se_running = True, se_get_engine = (\<lambda>n w. (Inr ''local'', w)), se_durable = False, se_groups = False,
      se_ops = local_ops, se_conn = sub_conn\<rparr>"

definition sub_world :: "router \<Rightarrow> local_engine subs_world" where
  "sub_world ro =
     ((new_connection closed_breaker new_supervisor)\<lparr>cn_state := CN_CONNECTED\<rparr>,
      \<lparr>sb_table = [], sb_router = ro\<rparr>, local_connect new_local_engine)"

definition subscribed :: "string \<Rightarrow> router \<Rightarrow> subscription result \<times> local_engine subs_world" where
  "subscribed pattern ro =
     broker_subscribe sub_env ''s'' (Aware 0) (SR_str pattern) (sample_handler 1) default_options (sub_world ro)"

definition sample_subscription :: subscription where
  "sample_subscription = \<lparr>su_id = ''s'', su_options = default_options, su_state = SS_ACTIVE\<rparr>"

lemma subscribed_valid: "subs_valid (snd (subscribed ''orders.*'' empty_router))"
proof -
  let ?w = "snd (subscribed ''orders.*'' empty_router)"
  have keys: "map (\<lambda>(k, r). (k, sr_consumer r)) (sb_table (the_subs ?w)) = [(''s'', 0)]"
    and os: "map lc_closed (le_objects (the_engine ?w)) = [False]" by code_simp+
  from keys obtain r where "sb_table (the_subs ?w) = [(''s'', r)]" "sr_consumer r = 0" by auto
  with os show ?thesis by (auto simp: subs_valid_def split: if_splits)
qed


text \<open>
  A subscription to a wildcard pattern is refused as soon as the router has any destination rule, because the
  pattern is then parsed as a route name; and the handler's registration stays in the router.
\<close>

lemma wildcard_subscribe_fails_with_rules:
  "(case subscribed ''orders.*'' two_rules of (r, w) \<Rightarrow>
      (case r of Inl e \<Rightarrow> Some e | Inr s \<Rightarrow> None, dict_keys (ro_handlers (sb_router (the_subs w))), sb_table (the_subs w) = []))
   = (Some (PyExc RoutingError False), [''subscription:s''], True)"
  by code_simp

text \<open>So is one to a pattern with a character class, whose fallback destination keeps the bracket.\<close>

lemma bracket_subscribe_fails:
  "(case subscribed ''orders.[ab]'' empty_router of (r, w) \<Rightarrow>
      (case r of Inl e \<Rightarrow> Some e | Inr s \<Rightarrow> None, dict_keys (ro_handlers (sb_router (the_subs w)))))
   = (Some (PyExc RoutingError False), [''subscription:s''])"
  by code_simp

text \<open>Whatever goes wrong between the registration and the creation of the consumer leaves the registration behind.\<close>

lemma failed_preparation_leaks_registration:
  assumes "se_running v" and "normalize_pattern route = Inr pattern"
    and "new_subscription sid True opts SS_CREATED created = Inr s"
    and "register_handler (pattern_of_route route) h (Some (subscription_name sid)) None None 0 (sb_router (the_subs w)) = (Inr g, ro)"
    and "subscribe_prepare v pattern s (in_subs (sb_router_update (\<lambda>_. ro)) w) = (Inl e, w')"
  shows "broker_subscribe v sid created route h opts w = (Inl e, w')"
  using assms by (simp add: broker_subscribe_def)

text \<open>A reconnection makes the consumer of a paused subscription deliver again.\<close>

lemma reconnect_resumes_paused:
  "(case run_handles (broker_controller local_ops) [(''s'', HO_pause)]
           ([(''s'', sample_subscription)], snd (subscribed ''orders.*'' empty_router)) of
      (hs, w) \<Rightarrow> (map_option su_state (dict_get hs ''s''), local_phase w ''s'', local_phase (snd (conn_reconnect sub_conn w)) ''s''))
   = (Some SS_PAUSED, Held, Delivering)"
  by code_simp

text \<open>A closed subscription's consumer stays in the engine's table, and its identifier is never free again.\<close>

lemma closed_consumer_stays_in_engine:
  "(case broker_close local_ops ''s'' (snd (subscribed ''orders.*'' empty_router)) of
      (r, w) \<Rightarrow> (r, local_phase w ''s'', dict_keys (le_consumers (the_engine w)), local_active (the_engine w)))
   = (Inr (), Released, [''s''], 0)"
  by code_simp

end
