(* ===== verification/Consume.thy ===== *)
theory Consume
  imports Deliveries InProcess Retry Middleware
begin

text \<open>
  \<open>Broker._consume\<close> of \<open>broka/broker.py\<close>: what the broker does with one incoming message. The envelope is
  decoded, a delivery is made for it, the handler runs inside the inbound middleware and the retry loop, and
  the outcome settles the message with the transport. The world is the delivery and a base: the transport's state
  \<open>'k\<close>, the broker's counters and the rest \<open>'x\<close>. Decoding, the handler, the event emitter and the dead-letter manager are
  parameters; metrics are left out. An attempt's time limit is given to the handler.
\<close>

record ('k, 'x) consume_base =
  cb_transport :: 'k
  cb_inflight :: int
  cb_dead_letters :: int
  cb_rest :: 'x

type_synonym ('k, 'x) consume_world = "delivery \<times> ('k, 'x) consume_base"

datatype consume_event =
    CE_handler_started | CE_handler_failed exc_class | CE_handler_completed
  | CE_acknowledged | CE_nacked | CE_deferred

text \<open>\<open>EngineIncomingMessage\<close>; its acknowledgement object is the transport's state.\<close>

record incoming =
  ic_destination :: string
  ic_payload :: string
  ic_received_at :: datetime
  ic_attempt :: int

record ('v, 'm, 'k, 'x) consume_env =
  cs_adapter :: "'k ack_adapter"
  cs_decode :: "string \<Rightarrow> 'v result"
  cs_to_message :: "'v \<Rightarrow> 'm result"
  cs_raw :: "'v \<Rightarrow> 'm"
  cs_id :: "'v \<Rightarrow> string"
  cs_headers :: "'v \<Rightarrow> headers"
  cs_expired :: "'v \<Rightarrow> 'x \<Rightarrow> bool"
  cs_mode :: ack_mode
  cs_pipeline :: "('m, unit, ('k, 'x) consume_world) pipeline"
  cs_handler :: "seconds option \<Rightarrow> 'm \<Rightarrow> ('k, 'x) consume_world action"
  cs_retry :: "('k, 'x) consume_world retry_manager"
  cs_policy :: "('k, 'x) consume_world retry_policy"
  cs_emit :: "consume_event \<Rightarrow> 'x action"
  cs_dead_letter :: "string \<Rightarrow> 'v option \<Rightarrow> pyexc \<Rightarrow> 'x action"

definition on_transport :: "'k action \<Rightarrow> ('k, 'x) consume_base action" where
  "on_transport act b = (case act (cb_transport b) of (r, k) \<Rightarrow> (r, b\<lparr>cb_transport := k\<rparr>))"

definition on_rest :: "'x action \<Rightarrow> ('k, 'x) consume_base action" where
  "on_rest act b = (case act (cb_rest b) of (r, x) \<Rightarrow> (r, b\<lparr>cb_rest := x\<rparr>))"

definition lift_adapter :: "'k ack_adapter \<Rightarrow> ('k, 'x) consume_base ack_adapter" where
  "lift_adapter ad =
     \<lparr>ad_ack = on_transport (ad_ack ad), ad_nack = (\<lambda>requeue. on_transport (ad_nack ad requeue)),
      ad_reject = on_transport (ad_reject ad), ad_requeue = on_transport (ad_requeue ad),
      ad_defer = (\<lambda>delay. on_transport (ad_defer ad delay)), ad_touch = (\<lambda>extension. on_transport (ad_touch ad extension))\<rparr>"

text \<open>\<open>_on_delivery_transition\<close>.\<close>

definition transition_event :: "transition \<Rightarrow> consume_event option" where
  "transition_event t =
     (if tr_to t = DS_ACKNOWLEDGED then Some CE_acknowledged
      else if tr_to t \<in> {DS_NACKED, DS_REQUEUED} then Some CE_nacked
      else if tr_to t = DS_DEFERRED then Some CE_deferred
      else None)"

definition broker_observer :: "(consume_event \<Rightarrow> 'x action) \<Rightarrow> ('k, 'x) consume_base observer" where
  "broker_observer emit t b =
     (case transition_event t of None \<Rightarrow> (Inr (), b) | Some ev \<Rightarrow> on_rest (emit ev) b)"

text \<open>An operation of the delivery in this world.\<close>

definition deliver :: "('v, 'm, 'k, 'x) consume_env \<Rightarrow> delivery_op \<Rightarrow> ('k, 'x) consume_world action" where
  "deliver v x = (\<lambda>(d, b).
     (case deliv_op (lift_adapter (cs_adapter v)) (Some (broker_observer (cs_emit v))) x d b of
        (r, d', b') \<Rightarrow> (r, (d', b'))))"

definition emit_event :: "('v, 'm, 'k, 'x) consume_env \<Rightarrow> consume_event \<Rightarrow> ('k, 'x) consume_world action" where
  "emit_event v ev = (\<lambda>(d, b). case on_rest (cs_emit v ev) b of (r, b') \<Rightarrow> (r, (d, b')))"

text \<open>The handler inside the inbound middleware.\<close>

definition terminal_call ::
  "('v, 'm, 'k, 'x) consume_env \<Rightarrow> seconds option \<Rightarrow> ('m, unit, ('k, 'x) consume_world) next_call"
where
  "terminal_call v limit = (\<lambda>m. Some (andthen (emit_event v CE_handler_started) (\<lambda>_. cs_handler v limit m)))"

definition invoke_handler ::
  "('v, 'm, 'k, 'x) consume_env \<Rightarrow> incoming \<Rightarrow> 'v \<Rightarrow> 'm \<Rightarrow> seconds option \<Rightarrow> ('k, 'x) consume_world action"
where
  "invoke_handler v inc envelope m limit =
     mw_run (cs_pipeline v) m (terminal_call v limit) (Some (RL_str (ic_destination inc))) (Some (cs_headers v envelope))"

definition settled_by_handler :: "delivery_state set" where
  "settled_by_handler = {DS_ACKNOWLEDGED, DS_DEFERRED, DS_REQUEUED, DS_RETRY_SCHEDULED}"

definition count_dead_letter :: "('k, 'x) consume_base \<Rightarrow> ('k, 'x) consume_base" where
  "count_dead_letter b = b\<lparr>cb_dead_letters := cb_dead_letters b + 1\<rparr>"

text \<open>The handler has failed for good.\<close>

definition handler_gave_up ::
  "('v, 'm, 'k, 'x) consume_env \<Rightarrow> incoming \<Rightarrow> 'v \<Rightarrow> pyexc \<Rightarrow> ('k, 'x) consume_world action"
where
  "handler_gave_up v inc envelope e w =
     (if dl_state (fst w) \<in> settled_by_handler then (Inr (), w)
      else case emit_event v (CE_handler_failed (exc_cls e)) w of
          (Inl e', w1) \<Rightarrow> (Inl e', w1)
        | (Inr _, (d, b)) \<Rightarrow>
            (case on_rest (cs_dead_letter v (ic_payload inc) (Some envelope) e) b of
               (Inl e', b1) \<Rightarrow> (Inl e', (d, b1))
             | (Inr _, b1) \<Rightarrow>
                 (case on_transport (ad_reject (cs_adapter v)) (count_dead_letter b1) of
                    (r, b2) \<Rightarrow>
                      (case deliver v (mark_dead_lettered None) (d, b2) of
                         (Inl e', w3) \<Rightarrow> (Inl e', w3)
                       | (Inr _, w3) \<Rightarrow> (r, w3)))))"

definition consume_handle ::
  "('v, 'm, 'k, 'x) consume_env \<Rightarrow> incoming \<Rightarrow> 'v \<Rightarrow> 'm \<Rightarrow> ('k, 'x) consume_world action"
where
  "consume_handle v inc envelope m w =
     (case retry_run (cs_retry v) (cs_policy v) (invoke_handler v inc envelope m) w of
        (out, w1) \<Rightarrow>
          (case outcome_result out of
             Inl e \<Rightarrow> if is_exception e then handler_gave_up v inc envelope e w1 else (Inl e, w1)
           | Inr _ \<Rightarrow>
               (case emit_event v CE_handler_completed w1 of
                  (Inl e, w2) \<Rightarrow> (Inl e, w2)
                | (Inr _, w2) \<Rightarrow>
                    if cs_mode v \<in> {AM_AUTO, AM_BATCH} \<and> dl_state (fst w2) = DS_PROCESSING then deliver v OpAck w2
                    else (Inr (), w2))))"

definition decode_message :: "('v, 'm, 'k, 'x) consume_env \<Rightarrow> 'v \<Rightarrow> 'm result" where
  "decode_message v envelope =
     (case cs_to_message v envelope of
        Inl e \<Rightarrow> if isinstance e UnknownEventError then Inr (cs_raw v envelope) else Inl e
      | Inr m \<Rightarrow> Inr m)"

type_synonym ('k, 'x) consumed = "unit result \<times> delivery option \<times> ('k, 'x) consume_base"

definition with_delivery :: "unit result \<times> ('k, 'x) consume_world \<Rightarrow> ('k, 'x) consumed" where
  "with_delivery x = (case x of (r, (d, b)) \<Rightarrow> (r, Some d, b))"

text \<open>The body of the outer \<open>try\<close>.\<close>

definition consume_delivery ::
  "('v, 'm, 'k, 'x) consume_env \<Rightarrow> incoming \<Rightarrow> 'v \<Rightarrow> 'm \<Rightarrow> delivery \<Rightarrow> ('k, 'x) consume_base \<Rightarrow> ('k, 'x) consumed"
where
  "consume_delivery v inc envelope m d b =
     (if cs_expired v envelope (cb_rest b)
      then case on_transport (ad_reject (cs_adapter v)) b of
          (Inl e, b1) \<Rightarrow> (Inl e, Some d, b1)
        | (Inr _, b1) \<Rightarrow> with_delivery (deliver v (mark_expired (Some ''ttl elapsed'')) (d, b1))
      else case (if cs_mode v = AM_NONE then on_transport (ad_ack (cs_adapter v)) b else (Inr (), b)) of
          (Inl e, b1) \<Rightarrow> (Inl e, Some d, b1)
        | (Inr _, b1) \<Rightarrow>
            with_delivery (andthen (deliver v start_processing) (\<lambda>_. consume_handle v inc envelope m) (d, b1)))"

definition consume_body ::
  "('v, 'm, 'k, 'x) consume_env \<Rightarrow> incoming \<Rightarrow> ('k, 'x) consume_base \<Rightarrow> ('k, 'x) consumed"
where
  "consume_body v inc b =
     (case cs_decode v (ic_payload inc) of
        Inl e \<Rightarrow> (Inl e, None, b)
      | Inr envelope \<Rightarrow>
          (case decode_message v envelope of
             Inl e \<Rightarrow> (Inl e, None, b)
           | Inr m \<Rightarrow>
               (case new_delivery (cs_id v envelope) (ic_attempt inc) (ic_received_at inc) None (cs_mode v) DS_DELIVERED of
                  Inl e \<Rightarrow> (Inl e, None, b)
                | Inr d \<Rightarrow> consume_delivery v inc envelope m d b)))"

definition malformed :: "pyexc \<Rightarrow> bool" where
  "malformed e \<longleftrightarrow> isinstance e SerializationError \<or> isinstance e MessageValidationError"

definition reject_malformed ::
  "('v, 'm, 'k, 'x) consume_env \<Rightarrow> incoming \<Rightarrow> pyexc \<Rightarrow> ('k, 'x) consume_base action"
where
  "reject_malformed v inc e b =
     (case on_rest (cs_dead_letter v (ic_payload inc) None e) b of
        (Inl e', b1) \<Rightarrow> (Inl e', b1)
      | (Inr _, b1) \<Rightarrow> on_transport (ad_reject (cs_adapter v)) (count_dead_letter b1))"

definition change_inflight :: "int \<Rightarrow> ('k, 'x) consume_base \<Rightarrow> ('k, 'x) consume_base" where
  "change_inflight n b = b\<lparr>cb_inflight := cb_inflight b + n\<rparr>"

definition consume ::
  "('v, 'm, 'k, 'x) consume_env \<Rightarrow> incoming \<Rightarrow> ('k, 'x) consume_base \<Rightarrow> ('k, 'x) consumed"
where
  "consume v inc b =
     (case consume_body v inc (change_inflight 1 b) of
        (Inr _, d, b1) \<Rightarrow> (Inr (), d, change_inflight (- 1) b1)
      | (Inl e, d, b1) \<Rightarrow>
          if malformed e
          then case reject_malformed v inc e b1 of (r, b2) \<Rightarrow> (r, d, change_inflight (- 1) b2)
          else (Inl e, d, change_inflight (- 1) b1))"

subsection \<open>The delivery and the transport stay in step\<close>

lemma on_transport_result:
  "on_transport act b = (r, b') \<Longrightarrow> \<exists>k. act (cb_transport b) = (r, k) \<and> b' = b\<lparr>cb_transport := k\<rparr>"
  by (auto simp: on_transport_def split: prod.splits)

lemma on_rest_result: "on_rest act b = (r, b') \<Longrightarrow> \<exists>x. act (cb_rest b) = (r, x) \<and> b' = b\<lparr>cb_rest := x\<rparr>"
  by (auto simp: on_rest_def split: prod.splits)

definition decision :: "(inproc_ack, 'x) consume_base \<Rightarrow> settlement option" where
  "decision b = settled_action (cb_transport b)"

lemma observer_rest: "broker_observer emit t b = (r, b') \<Longrightarrow> \<exists>x. b' = b\<lparr>cb_rest := x\<rparr>"
  by (auto simp: broker_observer_def split: option.splits dest: on_rest_result intro: exI [of _ "cb_rest b"])

interpretation brokered: settling_adapter "lift_adapter inproc_adapter :: (inproc_ack, 'x) consume_base ack_adapter"
  "Some (broker_observer emit)" decision for emit :: "consume_event \<Rightarrow> 'x action"
proof unfold_locales
  fix f :: "(inproc_ack, 'x) consume_base action" and rq s w and e :: pyexc and w'
  assume "f \<in> {ad_ack (lift_adapter inproc_adapter), ad_nack (lift_adapter inproc_adapter) rq,
      ad_reject (lift_adapter inproc_adapter), ad_requeue (lift_adapter inproc_adapter), ad_defer (lift_adapter inproc_adapter) s}"
    and "f w = (Inl e, w')"
  then show "decision w' = decision w"
    by (auto simp: lift_adapter_def decision_def dest!: on_transport_result
        dest: inproc.failed_frame [where rq = rq and s = s, rotated])
next
  fix f :: "(inproc_ack, 'x) consume_base action" and rq s w x r w'
  assume "f \<in> {ad_ack (lift_adapter inproc_adapter), ad_nack (lift_adapter inproc_adapter) rq,
      ad_reject (lift_adapter inproc_adapter), ad_requeue (lift_adapter inproc_adapter), ad_defer (lift_adapter inproc_adapter) s}"
    and "decision w = Some x" and "f w = (r, w')"
  then show "decision w' = Some x"
    by (auto simp: lift_adapter_def decision_def dest!: on_transport_result
        dest: inproc.decided_once [where rq = rq and s = s, rotated])
next
  fix g t r and w w' :: "(inproc_ack, 'x) consume_base"
  assume "Some (broker_observer emit) = Some g" and "g t w = (r, w')"
  then show "decision w' = decision w" by (auto simp: decision_def dest!: observer_rest)
qed (auto simp: lift_adapter_def decision_def dest!: on_transport_result
    dest: inproc.ack_settles inproc.nack_settles inproc.reject_settles inproc.requeue_settles
      inproc.defer_settles inproc.touch_frame)

subsection \<open>Settling\<close>

text \<open>What holds while the handler runs: the delivery and the transport are in step, and nothing was dead-lettered.\<close>

definition handled_states :: "delivery_state set" where
  "handled_states = {DS_PROCESSING, DS_ACKNOWLEDGED, DS_NACKED, DS_REJECTED, DS_REQUEUED, DS_DEFERRED}"

definition in_step :: "delivery \<Rightarrow> (inproc_ack, 'x) consume_base \<Rightarrow> bool" where
  "in_step d b \<longleftrightarrow> (case settlement_of (dl_state d) of None \<Rightarrow> True | Some x \<Rightarrow> decision b = Some x)"

definition handling :: "ack_mode \<Rightarrow> int \<Rightarrow> (inproc_ack, 'x) consume_world \<Rightarrow> bool" where
  "handling mode n = (\<lambda>(d, b). in_step d b \<and> dl_mode d = mode \<and> dl_state d \<in> handled_states \<and> cb_dead_letters b = n)"

lemma in_step_agrees: "in_step d b = brokered.agrees d b"
  by (simp add: in_step_def brokered.agrees_def)

lemma notify_base:
  assumes "notify (Some (broker_observer emit)) t b = (r, b')"
  shows "cb_dead_letters b' = cb_dead_letters b \<and> cb_transport b' = cb_transport b"
proof (cases t)
  case None
  with assms show ?thesis by (simp add: notify_def)
next
  case (Some tr)
  obtain q u where o: "broker_observer emit tr b = (q, u)" by (rule prod.exhaust)
  from observer_rest [OF o] obtain x where "u = b\<lparr>cb_rest := x\<rparr>" by blast
  with assms Some o show ?thesis by (auto simp: notify_def split: sum.splits if_splits)
qed

lemma ack_dead_letters:
  assumes "deliv_ack (lift_adapter ad) (Some (broker_observer emit)) d b = (r, d', b')"
  shows "cb_dead_letters b' = cb_dead_letters b"
  using assms
  by (auto simp: deliv_ack_def perform_def lift_adapter_def split: if_splits sum.splits prod.splits
      dest!: on_transport_result dest: notify_base)

lemma deliver_in_step:
  assumes "cs_adapter v = inproc_adapter" and "framework_op x"
    and "deliver v x (d, b) = (r, (d', b'))" and "in_step d b"
  shows "in_step d' b' \<and> (decision b = Some y \<longrightarrow> decision b' = Some y)"
proof -
  from assms(1,3) have "deliv_op (lift_adapter inproc_adapter) (Some (broker_observer (cs_emit v))) x d b = (r, d', b')"
    by (auto simp: deliver_def split: prod.splits)
  from brokered.op_settles [OF assms(2) this] assms(4) show ?thesis by (simp add: in_step_agrees)
qed

lemma emit_event_base:
  assumes "emit_event v ev (d, b) = (r, (d', b'))"
  shows "d' = d \<and> cb_transport b' = cb_transport b \<and> cb_dead_letters b' = cb_dead_letters b"
proof -
  obtain q u where "on_rest (cs_emit v ev) b = (q, u)" by (rule prod.exhaust)
  with on_rest_result [OF this] assms show ?thesis by (auto simp: emit_event_def)
qed

lemma mark_dead_lettered_done:
  assumes "dl_state d \<in> handled_states - settled_by_handler"
  shows "deliver v (mark_dead_lettered None) (d, b) = (Inr (), (d\<lparr>dl_state := DS_DEAD_LETTERED\<rparr>, b))"
  using assms
  by (auto simp: deliver_def mark_dead_lettered_def deliv_transition_def transition_locked_def validate_transition_def
      handled_states_def settled_by_handler_def notify_def broker_observer_def transition_event_def)

lemma reject_decides:
  assumes "on_transport (ad_reject inproc_adapter) b = (Inr u, b')"
  shows "decision b' = Some ST_reject \<and> cb_dead_letters b' = cb_dead_letters b \<and> ia_action (cb_transport b') = AA_REJECT"
proof -
  from on_transport_result [OF assms] obtain k where k: "ad_reject inproc_adapter (cb_transport b) = (Inr u, k)"
    and b': "b' = b\<lparr>cb_transport := k\<rparr>" by blast
  from k have "ia_action k = AA_REJECT" by (auto simp: inproc_adapter_def dest: finish_cases)
  with b' show ?thesis by (simp add: decision_def settled_action_def)
qed

text \<open>The outcomes of a message that was consumed.\<close>

definition consumed_well :: "int \<Rightarrow> delivery option \<times> (inproc_ack, 'x) consume_base \<Rightarrow> bool" where
  "consumed_well n = (\<lambda>(d, b).
     ia_action (cb_transport b) \<noteq> AA_PENDING
     \<and> (cb_dead_letters b = n \<or> cb_dead_letters b = n + 1 \<and> ia_action (cb_transport b) = AA_REJECT)
     \<and> (\<forall>d'. d = Some d' \<longrightarrow> in_step d' b
          \<and> (dl_state d' = DS_DEAD_LETTERED \<longrightarrow> cb_dead_letters b = n + 1)))"

lemma decided_not_pending: "decision b = Some x \<Longrightarrow> ia_action (cb_transport b) \<noteq> AA_PENDING"
  by (auto simp: decision_def settled_action_def)

lemma gave_up_well:
  assumes ad: "cs_adapter v = inproc_adapter" and h: "handling mode n w"
    and run: "handler_gave_up v inc envelope e w = (Inr (), (d', b'))"
  shows "consumed_well n (Some d', b')"
proof -
  obtain d b where w: "w = (d, b)" by (rule prod.exhaust)
  from h w have step: "in_step d b" and st: "dl_state d \<in> handled_states" and n: "cb_dead_letters b = n"
    by (auto simp: handling_def)
  show ?thesis
  proof (cases "dl_state d \<in> settled_by_handler")
    case True
    with run w have "d' = d" "b' = b" by (simp_all add: handler_gave_up_def)
    moreover have "\<exists>x. decision b = Some x" "dl_state d \<noteq> DS_DEAD_LETTERED"
      using True step st by (auto simp: in_step_def settled_by_handler_def handled_states_def settlement_of_def)
    ultimately show ?thesis using step n by (auto simp: consumed_well_def dest: decided_not_pending)
  next
    case False
    with st have ds: "dl_state d \<in> handled_states - settled_by_handler" by simp
    obtain q d1 b1 where e: "emit_event v (CE_handler_failed (exc_cls e)) (d, b) = (q, (d1, b1))" by (metis prod.exhaust)
    from emit_event_base [OF e] have e1: "d1 = d" "cb_dead_letters b1 = n" using n by auto
    obtain q2 b2 where dl: "on_rest (cs_dead_letter v (ic_payload inc) (Some envelope) e) b1 = (q2, b2)" by (rule prod.exhaust)
    from on_rest_result [OF dl] have b2: "cb_dead_letters b2 = n" using e1 by auto
    obtain q3 b3 where rj: "on_transport (ad_reject inproc_adapter) (count_dead_letter b2) = (q3, b3)" by (rule prod.exhaust)
    from run w False e e1 dl ad rj mark_dead_lettered_done [OF ds, of v b3]
    have "q3 = Inr ()" "d' = d\<lparr>dl_state := DS_DEAD_LETTERED\<rparr>" "b' = b3"
      by (auto simp: handler_gave_up_def split: sum.splits)
    with reject_decides [of "count_dead_letter b2" "()" b3] rj b2 show ?thesis
      by (auto simp: consumed_well_def count_dead_letter_def in_step_def settlement_of_def)
  qed
qed

lemma handle_well:
  assumes ad: "cs_adapter v = inproc_adapter" and auto_mode: "cs_mode v \<in> {AM_AUTO, AM_BATCH}"
    and k: "keeps (handling mode n) (cs_retry v) (cs_policy v)"
    and inv: "\<And>t u. handling mode n u \<Longrightarrow> handling mode n (snd (invoke_handler v inc envelope m t u))"
    and h: "handling mode n w" and run: "consume_handle v inc envelope m w = (Inr (), (d', b'))"
  shows "consumed_well n (Some d', b')"
proof -
  obtain out w1 where rr: "retry_run (cs_retry v) (cs_policy v) (invoke_handler v inc envelope m) w = (out, w1)"
    by (rule prod.exhaust)
  have call: "invoke_handler v inc envelope m t u = (q, u') \<Longrightarrow> handling mode n u \<Longrightarrow> handling mode n u'" for t u q u'
    using inv [of u t] by simp
  have "case out of Returned x \<Rightarrow> handling mode n w1 | _ \<Rightarrow> handling mode n w1"
    by (rule retry_run_rule [OF k _ _ h rr, where R = "\<lambda>x. handling mode n"]) (erule (1) call)+
  then have h1: "handling mode n w1" by (cases out) simp_all
  show ?thesis
  proof (cases "outcome_result out")
    case (Inl e)
    with run rr have "handler_gave_up v inc envelope e w1 = (Inr (), (d', b'))"
      by (auto simp: consume_handle_def split: if_splits)
    from gave_up_well [OF ad h1 this] show ?thesis .
  next
    case (Inr x)
    obtain d1 b1 where w1: "w1 = (d1, b1)" by (rule prod.exhaust)
    obtain q d2 b2 where e: "emit_event v CE_handler_completed (d1, b1) = (q, (d2, b2))" by (metis prod.exhaust)
    note e1 = emit_event_base [OF e]
    from h1 w1 e1 have h2: "in_step d2 b2" "dl_state d2 \<in> handled_states" "cb_dead_letters b2 = n"
      by (auto simp: handling_def in_step_def decision_def split: option.splits)
    show ?thesis
    proof (cases "dl_state d2 = DS_PROCESSING")
      case True
      with run rr Inr w1 e auto_mode have ack: "deliver v OpAck (d2, b2) = (Inr (), (d', b'))"
        by (auto simp: consume_handle_def split: sum.splits)
      then have op: "deliv_ack (lift_adapter inproc_adapter) (Some (broker_observer (cs_emit v))) d2 b2 = (Inr (), d', b')"
        using ad by (auto simp: deliver_def split: prod.splits)
      have "framework_op OpAck" by (simp add: framework_op_def)
      from deliver_in_step [OF ad this ack h2(1)] have step: "in_step d' b'" by blast
      have "dl_state d' = DS_ACKNOWLEDGED"
        using op True by (auto simp: deliv_ack_def perform_def validate_transition_def transition_locked_def
            split: if_splits sum.splits prod.splits)
      moreover have "cb_dead_letters b' = n" using ack_dead_letters [OF op] h2(3) by simp
      ultimately show ?thesis
        using step by (auto simp: consumed_well_def in_step_def settlement_of_def dest: decided_not_pending)
    next
      case False
      with run rr Inr w1 e have "d' = d2" "b' = b2" by (auto simp: consume_handle_def split: sum.splits)
      moreover have "\<exists>x. decision b2 = Some x" "dl_state d2 \<noteq> DS_DEAD_LETTERED"
        using False h2 by (auto simp: in_step_def handled_states_def settlement_of_def)
      ultimately show ?thesis using h2 by (auto simp: consumed_well_def dest: decided_not_pending)
    qed
  qed
qed


lemma framework_moves:
  assumes "dl_state d = DS_DELIVERED"
  shows "deliver v start_processing (d, b) = (Inr (), (d\<lparr>dl_state := DS_PROCESSING\<rparr>, b))"
    and "deliver v (mark_expired reason) (d, b) = (Inr (), (d\<lparr>dl_state := DS_EXPIRED\<rparr>, b))"
  using assms
  by (simp_all add: deliver_def start_processing_def mark_expired_def deliv_transition_def transition_locked_def
      validate_transition_def notify_def broker_observer_def transition_event_def)

lemma change_inflight_simps [simp]:
  "cb_transport (change_inflight i b) = cb_transport b" "cb_dead_letters (change_inflight i b) = cb_dead_letters b"
  "decision (change_inflight i b) = decision b" "in_step d (change_inflight i b) = in_step d b"
  by (simp_all add: change_inflight_def decision_def in_step_def split: option.split)

lemma consumed_well_inflight [simp]: "consumed_well n (d, change_inflight i b) = consumed_well n (d, b)"
  by (simp add: consumed_well_def)

text \<open>What the handlers, with the middleware around them, and the retry loop's collaborators must keep.\<close>

definition well_behaved :: "int \<Rightarrow> ('v, 'm, inproc_ack, 'x) consume_env \<Rightarrow> incoming \<Rightarrow> bool" where
  "well_behaved n v inc \<longleftrightarrow>
     keeps (handling (cs_mode v) n) (cs_retry v) (cs_policy v)
     \<and> (\<forall>envelope m t w. handling (cs_mode v) n w \<longrightarrow> handling (cs_mode v) n (snd (invoke_handler v inc envelope m t w)))"

lemma delivery_handles:
  assumes "\<not> cs_expired v envelope (cb_rest b)" and "cs_mode v \<in> {AM_AUTO, AM_BATCH}" and "dl_state d = DS_DELIVERED"
  shows "consume_delivery v inc envelope m d b
    = with_delivery (consume_handle v inc envelope m (d\<lparr>dl_state := DS_PROCESSING\<rparr>, b))"
proof -
  have "andthen (deliver v start_processing) (\<lambda>_. consume_handle v inc envelope m) (d, b)
      = consume_handle v inc envelope m (d\<lparr>dl_state := DS_PROCESSING\<rparr>, b)"
    by (rule andthen_Inr) (rule framework_moves(1) [OF assms(3)])
  with assms(1,2) show ?thesis by (auto simp: consume_delivery_def)
qed

lemma delivery_well:
  assumes ad: "cs_adapter v = inproc_adapter" and auto_mode: "cs_mode v \<in> {AM_AUTO, AM_BATCH}"
    and good: "well_behaved n v inc" and d: "dl_state d = DS_DELIVERED" "dl_mode d = cs_mode v"
    and n: "cb_dead_letters b = n"
    and run: "consume_delivery v inc envelope m d b = (Inr (), d', b')"
  shows "consumed_well n (d', b')"
proof (cases "cs_expired v envelope (cb_rest b)")
  case True
  obtain q b1 where rj: "on_transport (ad_reject inproc_adapter) b = (q, b1)" by (rule prod.exhaust)
  from run True ad rj have "q = Inr ()" and "with_delivery (deliver v (mark_expired (Some ''ttl elapsed'')) (d, b1)) = (Inr (), d', b')"
    by (auto simp: consume_delivery_def split: sum.splits)
  then have "q = Inr ()" "d' = Some (d\<lparr>dl_state := DS_EXPIRED\<rparr>)" "b' = b1"
    unfolding framework_moves(2) [OF d(1)] by (simp_all add: with_delivery_def)
  with reject_decides [of b "()" b1] rj n show ?thesis
    by (auto simp: consumed_well_def in_step_def settlement_of_def)
next
  case False
  let ?d = "d\<lparr>dl_state := DS_PROCESSING\<rparr>"
  obtain q d1 b1 where h: "consume_handle v inc envelope m (?d, b) = (q, (d1, b1))" by (metis prod.exhaust)
  from run h have "q = Inr ()" "d' = Some d1" "b' = b1"
    unfolding delivery_handles [OF False auto_mode d(1)] by (simp_all add: with_delivery_def)
  moreover have "handling (cs_mode v) n (?d, b)"
    using d n by (simp add: handling_def in_step_def settlement_of_def handled_states_def)
  ultimately show ?thesis
    using handle_well [OF ad auto_mode, of "cs_mode v" n inc envelope m "(?d, b)" d1 b1] good h
    by (auto simp: well_behaved_def)
qed

text \<open>When a malformed message's error ends the processing early, the delivery and the transport are still in step.\<close>

definition left_open :: "int \<Rightarrow> delivery \<Rightarrow> (inproc_ack, 'x) consume_base \<Rightarrow> bool" where
  "left_open n d b \<longleftrightarrow> in_step d b \<and> cb_dead_letters b = n \<and> dl_state d \<noteq> DS_DEAD_LETTERED"

lemma malformed_exception: "malformed e \<Longrightarrow> is_exception e"
  by (auto simp: malformed_def is_subclass.simps elim!: isinstance_trans)

lemma handling_left_open: "handling mode n (d, b) \<Longrightarrow> left_open n d b"
  by (auto simp: handling_def left_open_def handled_states_def)

lemma left_open_base:
  "left_open n d b \<Longrightarrow> cb_transport b' = cb_transport b \<Longrightarrow> cb_dead_letters b' = cb_dead_letters b \<Longrightarrow> left_open n d b'"
  by (simp add: left_open_def in_step_def decision_def split: option.splits)

lemma inproc_reject_error: "on_transport (ad_reject inproc_adapter) b = (Inl e, b') \<Longrightarrow> \<not> malformed e \<and> decision b' = decision b"
  by (auto simp: inproc_adapter_def malformed_def isinstance_def is_subclass.simps decision_def
      dest!: on_transport_result finish_cases)

lemma gave_up_error:
  assumes ad: "cs_adapter v = inproc_adapter" and h: "handling mode n (d, b)" and e: "malformed e'"
    and run: "handler_gave_up v inc envelope e (d, b) = (Inl e', (d', b'))"
  shows "left_open n d' b'"
proof -
  from h have st: "dl_state d \<in> handled_states" by (simp add: handling_def)
  have ds: "dl_state d \<in> handled_states - settled_by_handler" using run st by (auto simp: handler_gave_up_def)
  obtain q d1 b1 where ev: "emit_event v (CE_handler_failed (exc_cls e)) (d, b) = (q, (d1, b1))" by (metis prod.exhaust)
  note ev1 = emit_event_base [OF ev]
  obtain q2 b2 where dl: "on_rest (cs_dead_letter v (ic_payload inc) (Some envelope) e) b1 = (q2, b2)" by (rule prod.exhaust)
  from on_rest_result [OF dl] have dl1: "cb_transport b2 = cb_transport b1" "cb_dead_letters b2 = cb_dead_letters b1" by auto
  obtain q3 b3 where rj: "on_transport (ad_reject inproc_adapter) (count_dead_letter b2) = (q3, b3)" by (rule prod.exhaust)
  have "(d' = d \<and> b' = b1) \<or> (d' = d \<and> b' = b2) \<or> q3 = Inl e'"
    using run ds ev ev1 dl ad rj mark_dead_lettered_done [OF ds, of v b3]
    by (auto simp: handler_gave_up_def split: sum.splits)
  with inproc_reject_error [of "count_dead_letter b2" e' b3] rj e
  have "d' = d \<and> (b' = b1 \<or> b' = b2)" by auto
  with left_open_base [OF handling_left_open [OF h]] ev1 dl1 show ?thesis by auto
qed

lemma handle_error:
  assumes ad: "cs_adapter v = inproc_adapter"
    and k: "keeps (handling mode n) (cs_retry v) (cs_policy v)"
    and inv: "\<And>t u. handling mode n u \<Longrightarrow> handling mode n (snd (invoke_handler v inc envelope m t u))"
    and h: "handling mode n w" and e: "malformed e" and run: "consume_handle v inc envelope m w = (Inl e, (d', b'))"
  shows "left_open n d' b'"
proof -
  obtain out d1 b1 where rr: "retry_run (cs_retry v) (cs_policy v) (invoke_handler v inc envelope m) w = (out, (d1, b1))"
    by (metis prod.exhaust)
  have call: "invoke_handler v inc envelope m t u = (q, u') \<Longrightarrow> handling mode n u \<Longrightarrow> handling mode n u'" for t u q u'
    using inv [of u t] by simp
  have "case out of Returned x \<Rightarrow> handling mode n (d1, b1) | _ \<Rightarrow> handling mode n (d1, b1)"
    by (rule retry_run_rule [OF k _ _ h rr, where R = "\<lambda>x. handling mode n"]) (erule (1) call)+
  then have h1: "handling mode n (d1, b1)" by (cases out) simp_all
  show ?thesis
  proof (cases "outcome_result out")
    case (Inl e1)
    with run rr malformed_exception [OF e] have "handler_gave_up v inc envelope e1 (d1, b1) = (Inl e, (d', b'))"
      by (auto simp: consume_handle_def split: if_splits)
    from gave_up_error [OF ad h1 e this] show ?thesis .
  next
    case (Inr x)
    obtain q d2 b2 where ev: "emit_event v CE_handler_completed (d1, b1) = (q, (d2, b2))" by (metis prod.exhaust)
    note ev1 = emit_event_base [OF ev]
    have "left_open n d1 b2" by (rule left_open_base [OF handling_left_open [OF h1]]) (simp_all add: ev1)
    then have open2: "left_open n d2 b2" using ev1 by simp
    show ?thesis
    proof (cases "d' = d2 \<and> b' = b2")
      case True
      with open2 show ?thesis by simp
    next
      case False
      with run rr Inr ev have ack: "deliver v OpAck (d2, b2) = (Inl e, (d', b'))"
        by (auto simp: consume_handle_def split: sum.splits if_splits)
      then have op: "deliv_ack (lift_adapter inproc_adapter) (Some (broker_observer (cs_emit v))) d2 b2 = (Inl e, d', b')"
        using ad by (auto simp: deliver_def split: prod.splits)
      have "framework_op OpAck" by (simp add: framework_op_def)
      from deliver_in_step [OF ad this ack] open2 have "in_step d' b'" by (simp add: left_open_def)
      moreover have "dl_state d' = dl_state d2 \<or> dl_state d' = DS_ACKNOWLEDGED"
        using op unfolding deliv_ack_def by (auto dest!: perform_states)
      ultimately show ?thesis using ack_dead_letters [OF op] open2 by (auto simp: left_open_def)
    qed
  qed
qed

lemma delivery_error:
  assumes ad: "cs_adapter v = inproc_adapter" and auto_mode: "cs_mode v \<in> {AM_AUTO, AM_BATCH}"
    and good: "well_behaved n v inc" and d: "dl_state d = DS_DELIVERED" "dl_mode d = cs_mode v"
    and n: "cb_dead_letters b = n" and e: "malformed e"
    and run: "consume_delivery v inc envelope m d b = (Inl e, d', b')"
  shows "\<exists>d1. d' = Some d1 \<and> left_open n d1 b'"
proof (cases "cs_expired v envelope (cb_rest b)")
  case True
  obtain q b1 where rj: "on_transport (ad_reject inproc_adapter) b = (q, b1)" by (rule prod.exhaust)
  have "\<not> (\<exists>e1. q = Inl e1 \<and> malformed e1)" using inproc_reject_error [of b _ b1] rj by auto
  with run True ad rj e have "with_delivery (deliver v (mark_expired (Some ''ttl elapsed'')) (d, b1)) = (Inl e, d', b')"
    by (auto simp: consume_delivery_def split: sum.splits)
  then show ?thesis unfolding framework_moves(2) [OF d(1)] by (simp add: with_delivery_def)
next
  case False
  let ?d = "d\<lparr>dl_state := DS_PROCESSING\<rparr>"
  obtain q d1 b1 where h: "consume_handle v inc envelope m (?d, b) = (q, (d1, b1))" by (metis prod.exhaust)
  from run h have "q = Inl e" "d' = Some d1" "b' = b1"
    unfolding delivery_handles [OF False auto_mode d(1)] by (simp_all add: with_delivery_def)
  moreover have "handling (cs_mode v) n (?d, b)"
    using d n by (simp add: handling_def in_step_def settlement_of_def handled_states_def)
  ultimately show ?thesis
    using handle_error [OF ad, of "cs_mode v" n inc envelope m "(?d, b)" e d1 b1] good h e
    by (auto simp: well_behaved_def)
qed

subsection \<open>Properties\<close>


text \<open>A handler that always fails, tried twice.\<close>

definition idle_manager :: "'w retry_manager" where
  "idle_manager = \<lparr>rm_clock = (\<lambda>w. (0, w)), rm_sleep = (\<lambda>d w. (Inr (), w)), rm_on_retry = None, rm_events = None\<rparr>"

definition two_attempts :: "'w retry_policy" where
  "two_attempts =
     \<lparr>rp_max_attempts = 2, rp_max_elapsed = None, rp_backoff = backoff_delay (FixedBackoff (Fin 1)),
      rp_classifier = TypeClassifier [Exception] [], rp_budget = None, rp_attempt_timeout = None,
      rp_cancellation = CB_PROPAGATE, rp_terminal_action = TA_RAISE, rp_name = ''handler''\<rparr>"

definition sample_env ::
  "ack_mode \<Rightarrow> (inproc_ack, nat) consume_world action \<Rightarrow> nat action \<Rightarrow> (unit, unit, inproc_ack, nat) consume_env"
where
  "sample_env mode handle store =
     \<lparr>cs_adapter = inproc_adapter, cs_decode = (\<lambda>_. Inr ()), cs_to_message = Inr, cs_raw = (\<lambda>v. v),
      cs_id = (\<lambda>_. ''m1''), cs_headers = (\<lambda>_. []), cs_expired = (\<lambda>_ _. False), cs_mode = mode,
      cs_pipeline = empty_pipeline, cs_handler = (\<lambda>_ _. handle), cs_retry = idle_manager, cs_policy = two_attempts,
      cs_emit = (\<lambda>_ n. (Inr (), Suc n)), cs_dead_letter = (\<lambda>_ _ _. store)\<rparr>"

definition sample_incoming :: incoming where
  "sample_incoming = \<lparr>ic_destination = ''orders'', ic_payload = ''{}'', ic_received_at = Aware 0, ic_attempt = 1\<rparr>"

definition sample_base :: "(inproc_ack, nat) consume_base" where
  "sample_base = \<lparr>cb_transport = fresh_ack, cb_inflight = 0, cb_dead_letters = 0, cb_rest = 0\<rparr>"

lemma idle_keeps: "keeps Q idle_manager two_attempts"
  by (simp add: keeps_def idle_manager_def two_attempts_def retry_notify_def optional_call_def split: sum.split)

lemma sample_invoke:
  "invoke_handler (sample_env mode handle store) inc e m t (d, b) = handle (d, b\<lparr>cb_rest := Suc (cb_rest b)\<rparr>)"
proof -
  let ?v = "sample_env mode handle store"
  have "emit_event ?v CE_handler_started (d, b) = (Inr (), (d, b\<lparr>cb_rest := Suc (cb_rest b)\<rparr>))"
    by (simp add: emit_event_def on_rest_def sample_env_def)
  then have "andthen (emit_event ?v CE_handler_started) f (d, b) = f () (d, b\<lparr>cb_rest := Suc (cb_rest b)\<rparr>)" for f :: "unit \<Rightarrow> _"
    by (rule andthen_Inr)
  moreover have "cs_pipeline ?v = empty_pipeline" "cs_handler ?v = (\<lambda>_ _. handle)" by (simp_all add: sample_env_def)
  ultimately show ?thesis
    by (simp add: invoke_handler_def mw_run_def terminal_call_def applicable_def mw_registrations_def
        empty_pipeline_def dict_values_def)
qed

lemma sample_well_behaved:
  assumes "\<And>w. handling mode n w \<Longrightarrow> handling mode n (snd (handle w))"
  shows "well_behaved n (sample_env mode handle store) inc"
proof -
  have "handling mode n (snd (handle (d, b\<lparr>cb_rest := x\<rparr>)))" if "handling mode n (d, b)" for d b x
  proof (rule assms)
    show "handling mode n (d, b\<lparr>cb_rest := x\<rparr>)"
      using that by (simp add: handling_def in_step_def decision_def split: option.splits)
  qed
  moreover have "cs_retry (sample_env mode handle store) = idle_manager" "cs_policy (sample_env mode handle store) = two_attempts"
    "cs_mode (sample_env mode handle store) = mode" by (simp_all add: sample_env_def)
  ultimately show ?thesis
    unfolding well_behaved_def split_paired_All sample_invoke by (simp add: idle_keeps)
qed


text \<open>In the mode NONE the message is acknowledged first, so the rejection of a failed one conflicts: the error
  of the transport escapes, after the message has been dead-lettered.\<close>

lemma none_mode_failure_raises:
  "case consume (sample_env AM_NONE (\<lambda>w. (raise OSError, w)) (\<lambda>n. (Inr (), n))) sample_incoming sample_base of
     (r, d, b) \<Rightarrow> r = raise RuntimeError \<and> ia_action (cb_transport b) = AA_ACK \<and> cb_dead_letters b = 1"
  by code_simp

text \<open>When the dead-letter manager fails, the error escapes and the transport is left without a decision.\<close>

lemma failed_dead_letter_undecided:
  "case consume (sample_env AM_AUTO (\<lambda>w. (raise OSError, w)) (\<lambda>n. (raise OSError, n))) sample_incoming sample_base of
     (r, d, b) \<Rightarrow> r = raise OSError \<and> ia_action (cb_transport b) = AA_PENDING"
  by code_simp

text \<open>When it fails with a serialization error, the message is taken for malformed and dead-lettering is tried again
  (the store of the example counts its calls in steps of a hundred).\<close>

lemma serialization_failure_dead_letters_twice:
  "case consume (sample_env AM_AUTO (\<lambda>w. (raise OSError, w))
       (\<lambda>n. (if n < 100 then raise SerializationError else Inr (), n + 100))) sample_incoming sample_base of
     (r, d, b) \<Rightarrow> r = Inr () \<and> 200 \<le> cb_rest b \<and> map_option dl_state d = Some DS_PROCESSING"
  by code_simp

text \<open>A handler that acknowledges and then fails is run again, and its failure is dropped.\<close>

lemma failure_after_ack_swallowed:
  "case consume (sample_env AM_AUTO
       (\<lambda>w. case deliver (sample_env AM_AUTO (\<lambda>w. (Inr (), w)) (\<lambda>n. (Inr (), n))) OpAck w of
          (_, d, b) \<Rightarrow> (raise OSError, (d, b\<lparr>cb_rest := cb_rest b + 100\<rparr>)))
       (\<lambda>n. (Inr (), n))) sample_incoming sample_base of
     (r, d, b) \<Rightarrow> r = Inr () \<and> ia_action (cb_transport b) = AA_ACK \<and> cb_dead_letters b = 0 \<and> 200 \<le> cb_rest b"
  by code_simp

end
