(* ===== verification/Datetimes.thy ===== *)
theory Datetimes
  imports Exceptions
begin

text \<open>
  Calendar datetimes of the Python standard library, as far as the envelope and the outbox use
  them: the fields of a \<open>datetime\<close> with the offset of its zone in microseconds, \<open>astimezone(UTC)\<close>, addition
  of a \<open>timedelta\<close>, \<open>isoformat\<close>, and \<open>fromisoformat\<close> on the format that \<open>isoformat\<close> writes; the other formats of
  ISO 8601 that it reads are a parameter. The theory \<open>Prelude\<close> has the coarser \<open>datetime\<close>, an instant in microseconds.
\<close>

record civil =
  cv_year :: int
  cv_month :: int
  cv_day :: int
  cv_hour :: int
  cv_minute :: int
  cv_second :: int
  cv_micro :: int
  cv_offset :: "int option"

definition leap_year :: "int \<Rightarrow> bool" where
  "leap_year y \<longleftrightarrow> y mod 4 = 0 \<and> (y mod 100 \<noteq> 0 \<or> y mod 400 = 0)"

definition days_in_month :: "int \<Rightarrow> int \<Rightarrow> int" where
  "days_in_month y m =
     (if m = 2 then if leap_year y then 29 else 28 else if m \<in> {4, 6, 9, 11} then 30 else 31)"

definition micros_per_day :: int where
  "micros_per_day = 86400000000"

definition civil_ok :: "civil \<Rightarrow> bool" where
  "civil_ok d \<longleftrightarrow>
     1 \<le> cv_year d \<and> cv_year d \<le> 9999 \<and> 1 \<le> cv_month d \<and> cv_month d \<le> 12
     \<and> 1 \<le> cv_day d \<and> cv_day d \<le> days_in_month (cv_year d) (cv_month d)
     \<and> 0 \<le> cv_hour d \<and> cv_hour d < 24 \<and> 0 \<le> cv_minute d \<and> cv_minute d < 60
     \<and> 0 \<le> cv_second d \<and> cv_second d < 60 \<and> 0 \<le> cv_micro d \<and> cv_micro d < 1000000
     \<and> (case cv_offset d of None \<Rightarrow> True | Some z \<Rightarrow> \<bar>z\<bar> < micros_per_day)"

subsection \<open>Days and microseconds since the first of January of the year 1\<close>

definition days_before_year :: "int \<Rightarrow> int" where
  "days_before_year y = (y - 1) * 365 + (y - 1) div 4 - (y - 1) div 100 + (y - 1) div 400"

definition days_before_month :: "int \<Rightarrow> int \<Rightarrow> int" where
  "days_before_month y m = sum_list (map (days_in_month y) [1..m - 1])"

definition day_number :: "int \<Rightarrow> int \<Rightarrow> int \<Rightarrow> int" where
  "day_number y m d = days_before_year y + days_before_month y m + d - 1"

fun month_of_day :: "int \<Rightarrow> int list \<Rightarrow> int \<Rightarrow> int \<times> int" where
  "month_of_day y [] n = (13, n + 1)"
| "month_of_day y (m # ms) n =
     (if n < days_in_month y m then (m, n + 1) else month_of_day y ms (n - days_in_month y m))"

definition date_of_day :: "int \<Rightarrow> int \<times> int \<times> int" where
  "date_of_day n =
     (let n400 = n div 146097; r400 = n mod 146097;
          n100 = r400 div 36524; r100 = r400 mod 36524;
          n4 = r100 div 1461; r4 = r100 mod 1461;
          n1 = r4 div 365; r1 = r4 mod 365;
          y = n400 * 400 + n100 * 100 + n4 * 4 + n1 + 1
      in if n1 = 4 \<or> n100 = 4 then (y - 1, 12, 31)
         else case month_of_day y [1..12] r1 of (m, d) \<Rightarrow> (y, m, d))"

definition max_day :: int where
  "max_day = 3652058"

definition civil_micros :: "civil \<Rightarrow> int" where
  "civil_micros d =
     day_number (cv_year d) (cv_month d) (cv_day d) * micros_per_day
     + ((cv_hour d * 60 + cv_minute d) * 60 + cv_second d) * 1000000 + cv_micro d"

definition civil_of_micros :: "int \<Rightarrow> int option \<Rightarrow> civil" where
  "civil_of_micros t z =
     (let (y, m, d) = date_of_day (t div micros_per_day); u = t mod micros_per_day
      in \<lparr>cv_year = y, cv_month = m, cv_day = d, cv_hour = u div 3600000000, cv_minute = u div 60000000 mod 60,
          cv_second = u div 1000000 mod 60, cv_micro = u mod 1000000, cv_offset = z\<rparr>)"

text \<open>\<open>datetime + timedelta\<close> works on the local fields and keeps the zone.\<close>

definition add_micros :: "int \<Rightarrow> civil \<Rightarrow> civil result" where
  "add_micros n d =
     (let t = civil_micros d + n
      in if t < 0 \<or> (max_day + 1) * micros_per_day \<le> t then raise OverflowError
         else Inr (civil_of_micros t (cv_offset d)))"

text \<open>\<open>astimezone(UTC)\<close> of an aware datetime; one in UTC is returned as it is.\<close>

definition as_utc :: "int \<Rightarrow> civil \<Rightarrow> civil result" where
  "as_utc z d =
     (if z = 0 then Inr (d\<lparr>cv_offset := Some 0\<rparr>)
      else case add_micros (- z) d of Inl e \<Rightarrow> Inl e | Inr u \<Rightarrow> Inr (u\<lparr>cv_offset := Some 0\<rparr>))"

definition is_utc :: "civil \<Rightarrow> bool" where
  "is_utc d \<longleftrightarrow> cv_offset d = Some 0"

subsection \<open>Digits\<close>

definition digit :: "int \<Rightarrow> char" where
  "digit n = char_of (48 + nat (n mod 10))"

definition digit_value :: "char \<Rightarrow> int option" where
  "digit_value c = (let n = of_char c :: nat in if 48 \<le> n \<and> n < 58 then Some (int n - 48) else None)"

fun padded :: "nat \<Rightarrow> int \<Rightarrow> string" where
  "padded 0 n = []"
| "padded (Suc w) n = padded w (n div 10) @ [digit n]"

fun read_digits :: "int \<Rightarrow> string \<Rightarrow> int option" where
  "read_digits acc [] = Some acc"
| "read_digits acc (c # s) =
     (case digit_value c of None \<Rightarrow> None | Some n \<Rightarrow> read_digits (acc * 10 + n) s)"

lemma length_padded [simp]: "length (padded w n) = w"
  by (induction w arbitrary: n) simp_all

lemma digit_value_digit [simp]: "digit_value (digit n) = Some (n mod 10)"
proof -
  have "0 \<le> n mod 10" "n mod 10 < 10" by simp_all
  then have "of_char (digit n) = 48 + nat (n mod 10)" by (simp add: digit_def nat_less_iff)
  with \<open>0 \<le> n mod 10\<close> \<open>n mod 10 < 10\<close> show ?thesis by (simp add: digit_value_def Let_def)
qed

lemma read_digits_append:
  "read_digits acc (s @ t) = (case read_digits acc s of None \<Rightarrow> None | Some n \<Rightarrow> read_digits n t)"
  by (induction s arbitrary: acc) (simp_all split: option.split)

lemma read_padded: "read_digits acc (padded w n) = Some (acc * 10 ^ w + n mod 10 ^ w)"
proof (induction w arbitrary: n)
  case (Suc w)
  have "n mod (10 * 10 ^ w) = 10 * (n div 10 mod 10 ^ w) + n mod 10" by (simp add: zmod_zmult2_eq)
  with Suc show ?case by (simp add: read_digits_append algebra_simps)
qed simp

lemma read_padded_small: "0 \<le> n \<Longrightarrow> n < 10 ^ w \<Longrightarrow> read_digits 0 (padded w n) = Some n"
  by (simp add: read_padded)

lemma digit_not: "c \<notin> set (padded w n)" if "digit_value c = None"
proof (induction w arbitrary: n)
  case (Suc w)
  moreover have "c \<noteq> digit n" using that by auto
  ultimately show ?case by simp
qed simp

subsection \<open>ISO 8601\<close>

definition offset_text :: "int option \<Rightarrow> string" where
  "offset_text z =
     (case z of
        None \<Rightarrow> []
      | Some o' \<Rightarrow>
          (let a = \<bar>o'\<bar>; us = a mod 1000000; ss = a div 1000000 mod 60
           in (if o' < 0 then ''-'' else ''+'') @ padded 2 (a div 3600000000) @ '':'' @ padded 2 (a div 60000000 mod 60)
              @ (if ss \<noteq> 0 \<or> us \<noteq> 0 then '':'' @ padded 2 ss else [])
              @ (if us \<noteq> 0 then ''.'' @ padded 6 us else [])))"

definition isoformat :: "civil \<Rightarrow> string" where
  "isoformat d =
     padded 4 (cv_year d) @ ''-'' @ padded 2 (cv_month d) @ ''-'' @ padded 2 (cv_day d) @ ''T''
     @ padded 2 (cv_hour d) @ '':'' @ padded 2 (cv_minute d) @ '':'' @ padded 2 (cv_second d)
     @ (if cv_micro d = 0 then [] else ''.'' @ padded 6 (cv_micro d)) @ offset_text (cv_offset d)"

definition field :: "nat \<Rightarrow> nat \<Rightarrow> string \<Rightarrow> int option" where
  "field i w s = read_digits 0 (take w (drop i s))"

definition read_micros :: "string \<Rightarrow> int option \<times> string" where
  "read_micros s =
     (if take 1 s = ''.'' \<and> 7 \<le> length s then (field 1 6 s, drop 7 s) else (Some 0, s))"

definition read_offset :: "string \<Rightarrow> int option option" where
  "read_offset s =
     (if s = [] then Some None
      else if length s = 6 \<and> take 1 s \<in> {''+'', ''-''} \<and> take 1 (drop 3 s) = '':''
      then case (field 1 2 s, field 4 2 s) of
          (Some h, Some m) \<Rightarrow>
            if h < 24 \<and> m < 60 then Some (Some ((if take 1 s = ''-'' then - 1 else 1) * ((h * 60 + m) * 60000000))) else None
        | _ \<Rightarrow> None
      else None)"

text \<open>The format that \<open>isoformat\<close> writes, with an offset in whole minutes.\<close>

definition iso_profile :: "string \<Rightarrow> civil option" where
  "iso_profile s =
     (if length s < 19 \<or> take 1 (drop 4 s) \<noteq> ''-'' \<or> take 1 (drop 7 s) \<noteq> ''-''
         \<or> take 1 (drop 13 s) \<noteq> '':'' \<or> take 1 (drop 16 s) \<noteq> '':'' then None
      else case (field 0 4 s, field 5 2 s, field 8 2 s, field 11 2 s, field 14 2 s, field 17 2 s, read_micros (drop 19 s)) of
          (Some y, Some mo, Some da, Some h, Some mi, Some se, Some us, rest) \<Rightarrow>
            (case read_offset rest of
               None \<Rightarrow> None
             | Some z \<Rightarrow>
                 (let d = \<lparr>cv_year = y, cv_month = mo, cv_day = da, cv_hour = h, cv_minute = mi, cv_second = se,
                           cv_micro = us, cv_offset = z\<rparr>
                  in if civil_ok d then Some d else None))
        | _ \<Rightarrow> None)"

type_synonym iso_formats = "string \<Rightarrow> civil option"

definition fromisoformat :: "iso_formats \<Rightarrow> string \<Rightarrow> civil result" where
  "fromisoformat other s =
     (case iso_profile s of
        Some d \<Rightarrow> Inr d
      | None \<Rightarrow> (case other s of Some d \<Rightarrow> Inr d | None \<Rightarrow> raise ValueError))"

lemma civil_parts:
  assumes "civil_ok d"
  shows "field 0 4 (padded 4 (cv_year d) @ t) = Some (cv_year d)"
    and "field 0 2 (padded 2 (cv_month d) @ t) = Some (cv_month d)"
    and "field 0 2 (padded 2 (cv_day d) @ t) = Some (cv_day d)"
    and "field 0 2 (padded 2 (cv_hour d) @ t) = Some (cv_hour d)"
    and "field 0 2 (padded 2 (cv_minute d) @ t) = Some (cv_minute d)"
    and "field 0 2 (padded 2 (cv_second d) @ t) = Some (cv_second d)"
    and "field 0 6 (padded 6 (cv_micro d) @ t) = Some (cv_micro d)"
proof -
  have "days_in_month (cv_year d) (cv_month d) \<le> 31" by (simp add: days_in_month_def)
  with assms have "cv_day d < 100" "0 \<le> cv_day d" by (simp_all add: civil_ok_def)
  with assms show "field 0 4 (padded 4 (cv_year d) @ t) = Some (cv_year d)"
    "field 0 2 (padded 2 (cv_month d) @ t) = Some (cv_month d)"
    "field 0 2 (padded 2 (cv_day d) @ t) = Some (cv_day d)"
    "field 0 2 (padded 2 (cv_hour d) @ t) = Some (cv_hour d)"
    "field 0 2 (padded 2 (cv_minute d) @ t) = Some (cv_minute d)"
    "field 0 2 (padded 2 (cv_second d) @ t) = Some (cv_second d)"
    "field 0 6 (padded 6 (cv_micro d) @ t) = Some (cv_micro d)"
    by (simp_all add: field_def read_padded civil_ok_def)
qed

lemma field_skip: "length p \<le> i \<Longrightarrow> field i w (p @ s) = field (i - length p) w s"
  by (simp add: field_def)

lemma field_Cons: "0 < i \<Longrightarrow> field i w (c # s) = field (i - 1) w s"
  by (cases i) (simp_all add: field_def)

lemma iso_roundtrip:
  assumes "civil_ok d" and "cv_offset d = Some 0"
  shows "iso_profile (isoformat d) = Some d"
proof -
  have off: "offset_text (Some 0) = ''+00:00''" by code_simp
  have "read_offset ''+00:00'' = Some (Some 0)" by code_simp
  then have rest: "read_micros (drop 19 (isoformat d)) = (Some (cv_micro d), ''+00:00'')"
    using civil_parts(7) [OF assms(1)] assms(2)
    by (simp add: read_micros_def isoformat_def off field_Cons drop_Cons')
  have "\<lparr>cv_year = cv_year d, cv_month = cv_month d, cv_day = cv_day d, cv_hour = cv_hour d, cv_minute = cv_minute d,
      cv_second = cv_second d, cv_micro = cv_micro d, cv_offset = Some 0\<rparr> = d"
    using assms(2) by (cases d) simp
  moreover from assms have "civil_ok \<lparr>cv_year = cv_year d, cv_month = cv_month d, cv_day = cv_day d, cv_hour = cv_hour d,
      cv_minute = cv_minute d, cv_second = cv_second d, cv_micro = cv_micro d, cv_offset = Some 0\<rparr>"
    by (simp add: civil_ok_def)
  ultimately show ?thesis
    using assms rest \<open>read_offset ''+00:00'' = Some (Some 0)\<close> civil_parts [OF assms(1)]
    unfolding iso_profile_def
    by (simp add: isoformat_def off field_Cons field_skip drop_Cons' Let_def)
qed

text \<open>The text of a datetime in UTC, and its suffix in the form that the wire has.\<close>

function utc_to_z :: "string \<Rightarrow> string" where
  "utc_to_z s =
     (if s = [] then []
      else if take 6 s = ''+00:00'' then ''Z'' @ utc_to_z (drop 6 s)
      else hd s # utc_to_z (tl s))"
  by pat_completeness auto
termination by (relation "measure length") (auto simp: neq_Nil_conv)

declare utc_to_z.simps [simp del]

lemma utc_to_z_plain:
  assumes "CHR ''+'' \<notin> set s"
  shows "utc_to_z (s @ ''+00:00'') = s @ ''Z''"
  using assms
proof (induction s)
  case Nil
  show ?case by (simp add: utc_to_z.simps)
next
  case (Cons c s)
  then show ?case by (subst utc_to_z.simps) auto
qed

lemma isoformat_no_plus:
  obtains s where "isoformat (d\<lparr>cv_offset := Some 0\<rparr>) = s @ ''+00:00''" and "CHR ''+'' \<notin> set s" and "s \<noteq> []"
proof -
  have "digit_value (CHR ''+'') = None" by code_simp
  note digit_not [OF this, simp]
  have "offset_text (Some 0) = ''+00:00''" by code_simp
  then show thesis by (auto simp: isoformat_def split: if_splits intro!: that)
qed

subsection \<open>Calendar arithmetic is exact\<close>

lemma days_in_month_bounds: "28 \<le> days_in_month y m \<and> days_in_month y m \<le> 31"
  by (simp add: days_in_month_def)

lemma month_of_day_found:
  assumes "month_of_day y ms n = (m, d)" and "0 \<le> n" and "n < sum_list (map (days_in_month y) ms)"
  shows "m \<in> set ms \<and> 1 \<le> d \<and> d \<le> days_in_month y m
    \<and> sum_list (map (days_in_month y) (takeWhile (\<lambda>k. k \<noteq> m) ms)) + d - 1 \<le> n"
  using assms
proof (induction ms arbitrary: n)
  case (Cons k ms)
  show ?case
  proof (cases "n < days_in_month y k")
    case True
    with Cons.prems show ?thesis by auto
  next
    case False
    with Cons.prems Cons.IH [of "n - days_in_month y k"] days_in_month_bounds [of y k] show ?thesis by auto
  qed
qed simp

lemma months: "[1..12] = [1, 2, 3, 4, 5, 6, 7, 8, 9, 10, 11, 12 :: int]"
  by (simp add: upto_rec1)

lemma month_of_day_exact:
  assumes "month_of_day y [1..12] n = (m, d)" and "0 \<le> n" and "n < 365"
  shows "1 \<le> m \<and> m \<le> 12 \<and> 1 \<le> d \<and> d \<le> days_in_month y m \<and> days_before_month y m + d - 1 = n"
  using assms unfolding months days_before_month_def
  by (auto simp: days_in_month_def upto_rec1 split: if_splits)

lemma year_split:
  fixes y :: int
  assumes "y = n400 * 400 + n100 * 100 + n4 * 4 + n1 + 1" and "0 \<le> n100" "n100 \<le> 3" "0 \<le> n4" "n4 \<le> 24" "0 \<le> n1" "n1 \<le> 3"
  shows "days_before_year y = n400 * 146097 + n100 * 36524 + n4 * 1461 + n1 * 365"
proof -
  have y: "y - 1 = 4 * (100 * n400 + 25 * n100 + n4) + n1" "y - 1 = 100 * (4 * n400 + n100) + (4 * n4 + n1)"
    "y - 1 = 400 * n400 + (100 * n100 + 4 * n4 + n1)"
    using assms(1) by simp_all
  have "(y - 1) div 4 = 100 * n400 + 25 * n100 + n4" using y(1) assms by (simp add: div_pos_pos_trivial)
  moreover have "(y - 1) div 100 = 4 * n400 + n100" using y(2) assms by (simp add: div_pos_pos_trivial)
  moreover have "(y - 1) div 400 = n400" using y(3) assms by (simp add: div_pos_pos_trivial)
  ultimately show ?thesis using assms(1) by (simp add: days_before_year_def)
qed

lemma last_of_leap_year: "leap_year y \<Longrightarrow> days_before_month y 12 = 335"
  by (simp add: days_before_month_def days_in_month_def upto_rec1)

lemma mod_unique:
  fixes y :: int
  shows "y = b * k + r \<Longrightarrow> 0 \<le> r \<Longrightarrow> r < b \<Longrightarrow> y mod b = r"
  by simp

lemma date_of_day_exact:
  assumes n: "0 \<le> n" "n \<le> max_day" and run: "date_of_day n = (y, m, d)"
  shows "1 \<le> y \<and> y \<le> 9999 \<and> 1 \<le> m \<and> m \<le> 12 \<and> 1 \<le> d \<and> d \<le> days_in_month y m \<and> day_number y m d = n"
proof -
  define n400 r400 where "n400 = n div 146097" and "r400 = n mod 146097"
  define n100 r100 where "n100 = r400 div 36524" and "r100 = r400 mod 36524"
  define n4 r4 where "n4 = r100 div 1461" and "r4 = r100 mod 1461"
  define n1 r1 where "n1 = r4 div 365" and "r1 = r4 mod 365"
  define z where "z = n400 * 400 + n100 * 100 + n4 * 4 + n1 + 1"
  have sum: "n = n400 * 146097 + r400" "r400 = n100 * 36524 + r100" "r100 = n4 * 1461 + r4" "r4 = n1 * 365 + r1"
    by (simp_all add: n400_def r400_def n100_def r100_def n4_def r4_def n1_def r1_def)
  have bounds: "0 \<le> r400" "r400 < 146097" "0 \<le> r100" "r100 < 36524" "0 \<le> r4" "r4 < 1461" "0 \<le> r1" "r1 < 365" "0 \<le> n400"
    using n by (simp_all add: r400_def r100_def r4_def r1_def n400_def pos_imp_zdiv_nonneg_iff)
  have parts: "0 \<le> n100" "n100 \<le> 4" "0 \<le> n4" "n4 \<le> 24" "0 \<le> n1" "n1 \<le> 4"
    using sum bounds by linarith+
  have top: "n \<le> 3652058" using n by (simp add: max_day_def)
  have date: "(if n1 = 4 \<or> n100 = 4 then (z - 1, 12, 31) else case month_of_day z [1..12] r1 of (m, d) \<Rightarrow> (z, m, d)) = (y, m, d)"
    using run by (simp only: date_of_day_def Let_def n400_def r400_def n100_def r100_def n4_def r4_def n1_def r1_def z_def)
  consider (century) "n100 = 4" | (leap) "n100 \<le> 3" "n1 = 4" | (plain) "n100 \<le> 3" "n1 \<le> 3" using parts by linarith
  then show ?thesis
  proof cases
    case century
    then have zero: "n4 = 0" "n1 = 0" "r1 = 0" using sum bounds parts by linarith+
    with century date have y: "y = n400 * 400 + 3 * 100 + 24 * 4 + 3 + 1" "m = 12" "d = 31" by (auto simp: z_def)
    then have "y = 400 * (n400 + 1)" by simp
    then have "leap_year y" by (simp add: leap_year_def)
    moreover have "days_before_year y = n400 * 146097 + 3 * 36524 + 24 * 1461 + 3 * 365" by (rule year_split [OF y(1)]) simp_all
    moreover have "n400 \<le> 23" using sum century zero bounds top by linarith
    ultimately show ?thesis
      using y sum zero century bounds by (simp add: day_number_def last_of_leap_year days_in_month_def)
  next
    case leap
    then have zero: "n4 \<le> 23" "r1 = 0" using sum bounds parts by linarith+
    from leap date have y: "y = n400 * 400 + n100 * 100 + n4 * 4 + 3 + 1" "m = 12" "d = 31" by (auto simp: z_def)
    have "y = 4 * (n400 * 100 + n100 * 25 + n4 + 1)" "y = 100 * (n400 * 4 + n100) + (4 * n4 + 4)" using y(1) by simp_all
    then have "y mod 4 = 0" "y mod 100 = 4 * n4 + 4"
      using mod_unique [of y 100 "n400 * 4 + n100" "4 * n4 + 4"] zero parts by (simp, simp)
    then have "leap_year y" using parts by (simp add: leap_year_def)
    moreover have "days_before_year y = n400 * 146097 + n100 * 36524 + n4 * 1461 + 3 * 365"
      by (rule year_split [OF y(1)]) (use parts leap in simp_all)
    moreover have "n400 \<le> 24" "1 \<le> y" "y \<le> 9999" using sum leap zero bounds parts top y(1) by linarith+
    ultimately show ?thesis
      using y sum zero leap bounds by (simp add: day_number_def last_of_leap_year days_in_month_def)
  next
    case plain
    with date have y: "y = z" "month_of_day z [1..12] r1 = (m, d)" by (auto split: prod.splits)
    have "days_before_year z = n400 * 146097 + n100 * 36524 + n4 * 1461 + n1 * 365"
      by (rule year_split [OF z_def]) (use parts plain in simp_all)
    moreover have "1 \<le> z" "z \<le> 9999" using sum plain bounds parts top unfolding z_def by linarith+
    ultimately show ?thesis
      using y sum month_of_day_exact [OF y(2)] bounds by (simp add: day_number_def)
  qed
qed

lemma clock_split:
  fixes u :: int
  shows "u = ((u div 3600000000 * 60 + u div 60000000 mod 60) * 60 + u div 1000000 mod 60) * 1000000 + u mod 1000000"
proof -
  have "u div (1000000 * 60) = u div 1000000 div 60" "u div (60000000 * 60) = u div 60000000 div 60"
    by (rule zdiv_zmult2_eq; simp)+
  then have "u div 60000000 = u div 1000000 div 60" "u div 3600000000 = u div 60000000 div 60" by simp_all
  then have hours: "u div 3600000000 * 60 + u div 60000000 mod 60 = u div 60000000"
    and minutes: "u div 60000000 * 60 + u div 1000000 mod 60 = u div 1000000"
    by (metis div_mult_mod_eq)+
  show ?thesis unfolding hours minutes by (rule div_mult_mod_eq [symmetric])
qed

lemma civil_of_micros_exact:
  assumes "0 \<le> t" and "t < (max_day + 1) * micros_per_day" and "case z of None \<Rightarrow> True | Some o' \<Rightarrow> \<bar>o'\<bar> < micros_per_day"
  shows "civil_ok (civil_of_micros t z) \<and> civil_micros (civil_of_micros t z) = t \<and> cv_offset (civil_of_micros t z) = z"
proof -
  obtain y m d where date: "date_of_day (t div micros_per_day) = (y, m, d)" by (metis prod_cases3)
  have "0 \<le> t div micros_per_day" "t div micros_per_day \<le> max_day"
    using assms by (simp_all add: micros_per_day_def max_day_def)
  note day = date_of_day_exact [OF this date]
  define u h mi se us where "u = t mod micros_per_day" and "h = u div 3600000000" and "mi = u div 60000000 mod 60"
    and "se = u div 1000000 mod 60" and "us = u mod 1000000"
  have "0 \<le> u" "u < 86400000000" by (simp_all add: u_def micros_per_day_def)
  then have "0 \<le> h" "h < 24" by (simp_all add: h_def)
  moreover have "0 \<le> mi" "mi < 60" "0 \<le> se" "se < 60" "0 \<le> us" "us < 1000000" by (simp_all add: mi_def se_def us_def)
  moreover have "u = ((h * 60 + mi) * 60 + se) * 1000000 + us"
    unfolding h_def mi_def se_def us_def by (rule clock_split)
  then have "t = t div micros_per_day * micros_per_day + (((h * 60 + mi) * 60 + se) * 1000000 + us)"
    unfolding u_def by (metis div_mult_mod_eq)
  moreover have "civil_of_micros t z = \<lparr>cv_year = y, cv_month = m, cv_day = d, cv_hour = h, cv_minute = mi,
      cv_second = se, cv_micro = us, cv_offset = z\<rparr>"
    by (simp add: civil_of_micros_def date Let_def u_def h_def mi_def se_def us_def)
  ultimately show ?thesis
    using day assms(3) by (simp add: civil_ok_def civil_micros_def)
qed

text \<open>The microsecond of a datetime on the time line of UTC.\<close>

definition instant_of :: "civil \<Rightarrow> int" where
  "instant_of d = civil_micros d - (case cv_offset d of None \<Rightarrow> 0 | Some z \<Rightarrow> z)"

lemma add_micros_exact:
  assumes "add_micros n d = Inr u" and "civil_ok d"
  shows "civil_ok u \<and> civil_micros u = civil_micros d + n \<and> cv_offset u = cv_offset d \<and> instant_of u = instant_of d + n"
  using assms civil_of_micros_exact [of "civil_micros d + n" "cv_offset d"]
  by (auto simp: add_micros_def Let_def instant_of_def civil_ok_def split: if_splits)

lemma as_utc_exact:
  assumes "as_utc z d = Inr u" and "cv_offset d = Some z" and "civil_ok d"
  shows "civil_ok u \<and> cv_offset u = Some 0 \<and> instant_of u = instant_of d"
proof (cases "z = 0")
  case True
  with assms show ?thesis by (auto simp: as_utc_def civil_ok_def instant_of_def civil_micros_def micros_per_day_def)
next
  case False
  with assms(1) obtain v where v: "add_micros (- z) d = Inr v" and u: "u = v\<lparr>cv_offset := Some 0\<rparr>"
    by (auto simp: as_utc_def split: sum.splits)
  from add_micros_exact [OF v assms(3)] u assms(2) show ?thesis
    by (simp add: civil_ok_def instant_of_def civil_micros_def micros_per_day_def)
qed

end
