(* ===== verification/Payloads.thy ===== *)
theory Payloads
  imports Datetimes Floats
begin

text \<open>
  \<open>broka/message.py\<close>: conversion of Python values to the JSON data model of the envelopes. Python objects live
  in a heap, so shared and cyclic structures are values of the model; what the code asks an object by
  \<open>isinstance\<close> and \<open>getattr\<close> is a field of the heap's record. The recursion goes down at most \<open>max_depth\<close> levels,
  which is what the structural recursion below runs on.
\<close>

type_synonym address = nat

datatype pyvalue =
    PV_None | PV_Str string | PV_Bool bool | PV_Int int | PV_Float pyfloat
  | PV_Datetime civil | PV_Text string | PV_Bytes | PV_Ref address

text \<open>\<open>PV_Text\<close> is a date, time, UUID, decimal or path, written as its text.\<close>

record pyobject =
  po_enum :: "pyvalue option"
  po_fields :: "(string \<times> pyvalue) list option"
  po_model_dump :: "pyvalue result option"
  po_mapping :: "(pyvalue \<times> pyvalue) list option"
  po_sequence :: "pyvalue list option"
  po_attrs :: "(string \<times> pyvalue) list option"
  po_asdict :: "pyvalue result option"
  po_to_dict :: "pyvalue result option"
  po_vars :: "(string \<times> pyvalue) list option"

type_synonym heap = "address \<Rightarrow> pyobject"

definition opaque :: pyobject where
  "opaque = \<lparr>po_enum = None, po_fields = None, po_model_dump = None, po_mapping = None, po_sequence = None,
     po_attrs = None, po_asdict = None, po_to_dict = None, po_vars = None\<rparr>"

datatype json =
    JNull | JStr string | JBool bool | JInt int | JFloat rat
  | JArr "json list" | JObj "(string \<times> json) list"

definition bindr :: "'a result \<Rightarrow> ('a \<Rightarrow> 'b result) \<Rightarrow> 'b result" where
  "bindr r f = (case r of Inl e \<Rightarrow> Inl e | Inr x \<Rightarrow> f x)"

lemma bindr_simps [simp]: "bindr (Inr x) f = f x" "bindr (Inl e) f = Inl e"
  by (simp_all add: bindr_def)

lemma bindr_eq_Inr: "bindr r f = Inr y \<longleftrightarrow> (\<exists>x. r = Inr x \<and> f x = Inr y)"
  by (cases r) simp_all

fun map_result :: "('a \<Rightarrow> 'b result) \<Rightarrow> 'a list \<Rightarrow> 'b list result" where
  "map_result f [] = Inr []"
| "map_result f (x # xs) =
     (case f x of
        Inl e \<Rightarrow> Inl e
      | Inr y \<Rightarrow> (case map_result f xs of Inl e \<Rightarrow> Inl e | Inr ys \<Rightarrow> Inr (y # ys)))"

lemma map_result_Inr: "map_result f xs = Inr ys \<longleftrightarrow> list_all2 (\<lambda>x y. f x = Inr y) xs ys"
proof (induction xs arbitrary: ys)
  case (Cons x xs)
  show ?case by (cases ys) (auto simp flip: Cons.IH split: sum.splits)
qed auto

lemma map_result_Inl: "map_result f xs = Inl e \<Longrightarrow> \<exists>x \<in> set xs. f x = Inl e"
  by (induction xs) (auto split: sum.splits)

subsection \<open>to_json_value\<close>

definition datetime_text :: "civil \<Rightarrow> string result" where
  "datetime_text d =
     (case cv_offset d of
        None \<Rightarrow> Inr (isoformat d)
      | Some z \<Rightarrow> (case as_utc z d of Inl e \<Rightarrow> Inl e | Inr u \<Rightarrow> Inr (utc_to_z (isoformat u))))"

definition json_item :: "(pyvalue \<Rightarrow> json result) \<Rightarrow> pyvalue \<times> pyvalue \<Rightarrow> (string \<times> json) result" where
  "json_item conv x =
     (case fst x of
        PV_Str k \<Rightarrow> (case conv (snd x) of Inl e \<Rightarrow> Inl e | Inr j \<Rightarrow> Inr (k, j))
      | _ \<Rightarrow> raise MessageValidationError)"

definition json_map :: "(pyvalue \<Rightarrow> json result) \<Rightarrow> (pyvalue \<times> pyvalue) list \<Rightarrow> json result" where
  "json_map conv items = (case map_result (json_item conv) items of Inl e \<Rightarrow> Inl e | Inr kvs \<Rightarrow> Inr (JObj kvs))"

definition json_seq :: "(pyvalue \<Rightarrow> json result) \<Rightarrow> pyvalue list \<Rightarrow> json result" where
  "json_seq conv xs = (case map_result conv xs of Inl e \<Rightarrow> Inl e | Inr js \<Rightarrow> Inr (JArr js))"

definition record_items :: "(string \<times> pyvalue) list \<Rightarrow> (pyvalue \<times> pyvalue) list" where
  "record_items fs = map (\<lambda>(k, x). (PV_Str k, x)) fs"

text \<open>The tests for mappings and sequences; \<open>seen\<close> holds the identities of the containers that are open.\<close>

definition json_container :: "heap \<Rightarrow> (address list \<Rightarrow> pyvalue \<Rightarrow> json result) \<Rightarrow> address list \<Rightarrow> pyvalue \<Rightarrow> json result" where
  "json_container h conv seen v =
     (case v of
        PV_Ref a \<Rightarrow>
          (case po_mapping (h a) of
             Some items \<Rightarrow>
               if a \<in> set seen then raise MessageValidationError else json_map (conv (a # seen)) items
           | None \<Rightarrow>
               (case po_sequence (h a) of
                  Some xs \<Rightarrow>
                    if a \<in> set seen then raise MessageValidationError else json_seq (conv (a # seen)) xs
                | None \<Rightarrow> raise MessageValidationError))
      | _ \<Rightarrow> raise MessageValidationError)"

definition wrap_validation :: "'a result \<Rightarrow> 'a result" where
  "wrap_validation r =
     (case r of Inl e \<Rightarrow> if is_exception e then raise MessageValidationError else Inl e | Inr x \<Rightarrow> Inr x)"

definition json_object :: "heap \<Rightarrow> (address list \<Rightarrow> pyvalue \<Rightarrow> json result) \<Rightarrow> address list \<Rightarrow> address \<Rightarrow> json result" where
  "json_object h conv seen a =
     (case po_enum (h a) of
        Some x \<Rightarrow> conv seen x
      | None \<Rightarrow>
          (case po_fields (h a) of
             Some fs \<Rightarrow> json_map (conv seen) (record_items fs)
           | None \<Rightarrow>
               (case po_model_dump (h a) of
                  Some dumped \<Rightarrow>
                    (case wrap_validation dumped of Inl e \<Rightarrow> Inl e | Inr x \<Rightarrow> json_container h conv seen x)
                | None \<Rightarrow> json_container h conv seen (PV_Ref a))))"

primrec json_of :: "heap \<Rightarrow> nat \<Rightarrow> address list \<Rightarrow> pyvalue \<Rightarrow> json result" where
  "json_of h 0 seen v = raise MessageValidationError"
| "json_of h (Suc n) seen v =
     (case v of
        PV_None \<Rightarrow> Inr JNull
      | PV_Str s \<Rightarrow> Inr (JStr s)
      | PV_Bool b \<Rightarrow> Inr (JBool b)
      | PV_Int i \<Rightarrow> Inr (JInt i)
      | PV_Float x \<Rightarrow> (case x of Fin r \<Rightarrow> Inr (JFloat r) | _ \<Rightarrow> raise MessageValidationError)
      | PV_Datetime d \<Rightarrow> (case datetime_text d of Inl e \<Rightarrow> Inl e | Inr s \<Rightarrow> Inr (JStr s))
      | PV_Text s \<Rightarrow> Inr (JStr s)
      | PV_Bytes \<Rightarrow> raise MessageValidationError
      | PV_Ref a \<Rightarrow> json_object h (json_of h n) seen a)"

definition to_json_value :: "heap \<Rightarrow> int \<Rightarrow> pyvalue \<Rightarrow> json result" where
  "to_json_value h max_depth v =
     (if max_depth < 1 then raise ValueError else json_of h (Suc (nat max_depth)) [] v)"

definition default_max_depth :: int where
  "default_max_depth = 64"

subsection \<open>message_to_payload\<close>

datatype raw_payload = Raw_value pyvalue | Raw_dict "(string \<times> pyvalue) list"

definition public_name :: "string \<Rightarrow> bool" where
  "public_name k \<longleftrightarrow> take 1 k \<noteq> ''_''"

definition raw_of_message :: "heap \<Rightarrow> pyvalue \<Rightarrow> raw_payload result" where
  "raw_of_message h v =
     (case v of
        PV_Ref a \<Rightarrow>
          (let ob = h a in
           if po_mapping ob \<noteq> None then Inr (Raw_value v)
           else case po_fields ob of Some fs \<Rightarrow> Inr (Raw_dict fs)
           | None \<Rightarrow> (case po_model_dump ob of
               Some dumped \<Rightarrow> (case wrap_validation dumped of Inl e \<Rightarrow> Inl e | Inr x \<Rightarrow> Inr (Raw_value x))
           | None \<Rightarrow> (case po_attrs ob of Some fs \<Rightarrow> Inr (Raw_dict fs)
           | None \<Rightarrow> (case po_asdict ob of Some r \<Rightarrow> (case r of Inl e \<Rightarrow> Inl e | Inr x \<Rightarrow> Inr (Raw_value x))
           | None \<Rightarrow> (case po_to_dict ob of Some r \<Rightarrow> (case r of Inl e \<Rightarrow> Inl e | Inr x \<Rightarrow> Inr (Raw_value x))
           | None \<Rightarrow> (case po_vars ob of Some fs \<Rightarrow> Inr (Raw_dict (filter (public_name \<circ> fst) fs))
           | None \<Rightarrow> raise MessageValidationError))))))
      | _ \<Rightarrow> raise MessageValidationError)"

definition raw_to_json :: "heap \<Rightarrow> raw_payload \<Rightarrow> json result" where
  "raw_to_json h raw =
     (case raw of
        Raw_value v \<Rightarrow> to_json_value h default_max_depth v
      | Raw_dict fs \<Rightarrow> json_map (json_of h (nat default_max_depth) []) (record_items fs))"

definition message_to_payload :: "heap \<Rightarrow> pyvalue \<Rightarrow> (string \<times> json) list result" where
  "message_to_payload h v =
     (case raw_of_message h v of
        Inl e \<Rightarrow> Inl e
      | Inr raw \<Rightarrow>
          (case raw_to_json h raw of
             Inl e \<Rightarrow> Inl e
           | Inr j \<Rightarrow> (case j of JObj kvs \<Rightarrow> Inr kvs | _ \<Rightarrow> raise MessageValidationError)))"

subsection \<open>Every payload is converted or refused\<close>

fun kind_ok :: "(json \<Rightarrow> bool) \<Rightarrow> json \<Rightarrow> bool" where
  "kind_ok p (JArr js) = list_all p js"
| "kind_ok p (JObj kvs) = (distinct (map fst kvs) \<and> list_all (p \<circ> snd) kvs)"
| "kind_ok p _ = True"

text \<open>JSON values of at most \<open>n\<close> levels whose objects have no key twice.\<close>

primrec json_within :: "nat \<Rightarrow> json \<Rightarrow> bool" where
  "json_within 0 j = False"
| "json_within (Suc n) j = kind_ok (json_within n) j"

text \<open>What Python guarantees of mappings and of the fields of a class.\<close>

definition heap_ok :: "heap \<Rightarrow> bool" where
  "heap_ok h \<longleftrightarrow>
     (\<forall>a. (\<forall>items. po_mapping (h a) = Some items \<longrightarrow> distinct (map fst items))
        \<and> (\<forall>fs. po_fields (h a) = Some fs \<longrightarrow> distinct (map fst fs))
        \<and> (\<forall>fs. po_attrs (h a) = Some fs \<longrightarrow> distinct (map fst fs))
        \<and> (\<forall>fs. po_vars (h a) = Some fs \<longrightarrow> distinct (map fst fs)))"

lemma json_map_within:
  assumes run: "json_map conv items = Inr j" and keys: "distinct (map fst items)"
    and conv: "\<And>v j. conv v = Inr j \<Longrightarrow> p j"
  shows "kind_ok p j"
proof -
  from run obtain kvs where j: "j = JObj kvs" and items: "list_all2 (\<lambda>x y. json_item conv x = Inr y) items kvs"
    by (auto simp: json_map_def map_result_Inr split: sum.splits)
  from items have "list_all2 (\<lambda>x y. fst x = PV_Str (fst y) \<and> p (snd y)) items kvs"
    by (rule list_all2_mono) (auto simp: json_item_def split: pyvalue.splits sum.splits dest: conv)
  then have "map fst items = map (PV_Str \<circ> fst) kvs \<and> list_all (p \<circ> snd) kvs"
    by (induction rule: list_all2_induct) simp_all
  with keys j show ?thesis by (metis distinct_map kind_ok.simps(2) map_map)
qed

lemma json_seq_within:
  "json_seq conv xs = Inr j \<Longrightarrow> (\<And>v j. conv v = Inr j \<Longrightarrow> p j) \<Longrightarrow> kind_ok p j"
proof -
  assume run: "json_seq conv xs = Inr j" and conv: "\<And>v j. conv v = Inr j \<Longrightarrow> p j"
  then obtain js where j: "j = JArr js" and "list_all2 (\<lambda>x y. conv x = Inr y) xs js"
    by (auto simp: json_seq_def map_result_Inr split: sum.splits)
  from this(2) have "list_all p js" by (induction rule: list_all2_induct) (auto dest: conv)
  with j show ?thesis by simp
qed

lemma record_items_distinct: "distinct (map fst fs) \<Longrightarrow> distinct (map fst (record_items fs))"
  by (induction fs) (force simp: record_items_def)+

lemma json_container_within:
  assumes "json_container h conv seen v = Inr j" and "heap_ok h" and "\<And>s v j. conv s v = Inr j \<Longrightarrow> p j"
  shows "kind_ok p j"
  using assms(1,2) unfolding json_container_def heap_ok_def
  by (auto split: pyvalue.splits option.splits if_splits intro: json_map_within json_seq_within assms(3))

lemma kind_ok_mono: "kind_ok p j \<Longrightarrow> (\<And>x. p x \<Longrightarrow> q x) \<Longrightarrow> kind_ok q j"
  by (cases j) (auto simp: list_all_iff)

lemma json_within_Suc: "json_within n j \<Longrightarrow> json_within (Suc n) j"
  by (induction n arbitrary: j) (auto intro: kind_ok_mono)

lemma json_of_within:
  assumes "heap_ok h"
  shows "json_of h n seen v = Inr j \<Longrightarrow> json_within n j"
proof (induction n arbitrary: seen v j)
  case (Suc n)
  show ?case
  proof (cases "\<exists>a. v = PV_Ref a")
    case True
    then obtain a where run: "json_object h (json_of h n) seen a = Inr j" using Suc.prems by auto
    have fields: "po_fields (h a) = Some fs \<Longrightarrow> distinct (map fst (record_items fs))" for fs
      using assms by (auto simp: heap_ok_def intro: record_items_distinct)
    show ?thesis
    proof (cases "po_enum (h a)")
      case (Some x)
      with run Suc.IH [of seen x j] json_within_Suc [of n j] show ?thesis by (simp add: json_object_def)
    next
      case None
      with run have "(\<exists>fs. po_fields (h a) = Some fs \<and> json_map (json_of h n seen) (record_items fs) = Inr j)
          \<or> (\<exists>x. json_container h (json_of h n) seen x = Inr j)"
        by (auto simp: json_object_def split: option.splits sum.splits)
      then show ?thesis
        using fields Suc.IH json_map_within [of "json_of h n seen" _ j "json_within n"]
          json_container_within [OF _ assms, of "json_of h n" seen _ j "json_within n"]
        by auto
    qed
  next
    case False
    with Suc.prems show ?thesis by (auto split: pyvalue.splits pyfloat.splits sum.splits)
  qed
qed simp

text \<open>The errors: a validation error, an overflow in the conversion of a datetime to UTC, or an exit that a model's own conversion raised.\<close>

definition conversion_error :: "pyexc \<Rightarrow> bool" where
  "conversion_error e \<longleftrightarrow> e \<in> {PyExc MessageValidationError False, PyExc OverflowError False} \<or> \<not> is_exception e"

lemma conversion_error_intros [intro]:
  "conversion_error (PyExc MessageValidationError False)" "conversion_error (PyExc OverflowError False)"
  "\<not> is_exception e \<Longrightarrow> conversion_error e"
  by (simp_all add: conversion_error_def)

lemma json_map_error:
  "json_map conv items = Inl e \<Longrightarrow> (\<And>v e. conv v = Inl e \<Longrightarrow> conversion_error e) \<Longrightarrow> conversion_error e"
  by (auto simp: json_map_def json_item_def split: sum.splits pyvalue.splits dest!: map_result_Inl)

lemma json_seq_error:
  "json_seq conv xs = Inl e \<Longrightarrow> (\<And>v e. conv v = Inl e \<Longrightarrow> conversion_error e) \<Longrightarrow> conversion_error e"
  by (auto simp: json_seq_def split: sum.splits dest!: map_result_Inl)

lemma json_container_error:
  "json_container h conv seen v = Inl e \<Longrightarrow> (\<And>s v e. conv s v = Inl e \<Longrightarrow> conversion_error e) \<Longrightarrow> conversion_error e"
  by (auto simp: json_container_def split: pyvalue.splits option.splits if_splits elim: json_map_error json_seq_error)

lemma add_micros_error: "add_micros n d = Inl e \<Longrightarrow> e = PyExc OverflowError False"
  by (auto simp: add_micros_def Let_def split: if_splits)

lemma as_utc_error: "as_utc z d = Inl e \<Longrightarrow> e = PyExc OverflowError False"
  by (auto simp: as_utc_def split: if_splits sum.splits dest: add_micros_error)

lemma wrap_validation_error: "wrap_validation r = Inl e \<Longrightarrow> conversion_error e"
  by (auto simp: wrap_validation_def split: sum.splits if_splits)

lemma json_of_error: "json_of h n seen v = Inl e \<Longrightarrow> conversion_error e"
proof (induction n arbitrary: seen v e)
  case (Suc n)
  show ?case
  proof (cases "\<exists>a. v = PV_Ref a")
    case True
    then obtain a where "json_object h (json_of h n) seen a = Inl e" using Suc.prems by auto
    then show ?thesis
      using Suc.IH json_map_error [of "json_of h n seen"] json_container_error [of h "json_of h n"]
      by (auto simp: json_object_def split: option.splits sum.splits dest: wrap_validation_error)
  next
    case False
    with Suc.prems show ?thesis
      by (auto simp: datetime_text_def split: pyvalue.splits pyfloat.splits sum.splits option.splits dest: as_utc_error)
  qed
qed auto

subsection \<open>Values that stand for JSON\<close>

text \<open>A value of the heap that holds a JSON value in plain dictionaries and lists, none of them open already.\<close>

definition plain_container :: "pyobject \<Rightarrow> bool" where
  "plain_container ob \<longleftrightarrow> po_enum ob = None \<and> po_fields ob = None \<and> po_model_dump ob = None"

primrec holds :: "heap \<Rightarrow> nat \<Rightarrow> address list \<Rightarrow> pyvalue \<Rightarrow> json \<Rightarrow> bool" where
  "holds h 0 seen v j = False"
| "holds h (Suc n) seen v j =
     (case j of
        JNull \<Rightarrow> v = PV_None
      | JStr s \<Rightarrow> v = PV_Str s
      | JBool b \<Rightarrow> v = PV_Bool b
      | JInt i \<Rightarrow> v = PV_Int i
      | JFloat r \<Rightarrow> v = PV_Float (Fin r)
      | JArr js \<Rightarrow>
          (case v of
             PV_Ref a \<Rightarrow> a \<notin> set seen \<and> plain_container (h a) \<and> po_mapping (h a) = None
               \<and> (case po_sequence (h a) of None \<Rightarrow> False | Some xs \<Rightarrow> list_all2 (holds h n (a # seen)) xs js)
           | _ \<Rightarrow> False)
      | JObj kvs \<Rightarrow>
          (case v of
             PV_Ref a \<Rightarrow> a \<notin> set seen \<and> plain_container (h a)
               \<and> (case po_mapping (h a) of None \<Rightarrow> False
                  | Some items \<Rightarrow>
                      list_all2 (\<lambda>x y. fst x = PV_Str (fst y) \<and> holds h n (a # seen) (snd x) (snd y)) items kvs)
           | _ \<Rightarrow> False))"

lemma holds_json_of: "holds h n seen v j \<Longrightarrow> json_of h n seen v = Inr j"
proof (induction n arbitrary: seen v j)
  case (Suc n)
  show ?case
  proof (cases j)
    case (JArr js)
    with Suc.prems obtain a xs where v: "v = PV_Ref a" and a: "a \<notin> set seen" "plain_container (h a)" "po_mapping (h a) = None"
      "po_sequence (h a) = Some xs" and items: "list_all2 (holds h n (a # seen)) xs js"
      by (auto split: pyvalue.splits option.splits)
    from items have "map_result (json_of h n (a # seen)) xs = Inr js"
      unfolding map_result_Inr by (rule list_all2_mono) (rule Suc.IH)
    with v a JArr show ?thesis
      by (simp add: json_object_def json_container_def plain_container_def json_seq_def)
  next
    case (JObj kvs)
    with Suc.prems obtain a items where v: "v = PV_Ref a" and a: "a \<notin> set seen" "plain_container (h a)" "po_mapping (h a) = Some items"
      and items: "list_all2 (\<lambda>x y. fst x = PV_Str (fst y) \<and> holds h n (a # seen) (snd x) (snd y)) items kvs"
      by (auto split: pyvalue.splits option.splits)
    from items have "map_result (json_item (json_of h n (a # seen))) items = Inr kvs"
      unfolding map_result_Inr by (rule list_all2_mono) (auto simp: json_item_def dest: Suc.IH)
    with v a JObj show ?thesis
      by (simp add: json_object_def json_container_def plain_container_def json_map_def)
  qed (use Suc.prems in \<open>simp_all\<close>)
qed simp

text \<open>What holds JSON data of few levels does so with fewer open containers.\<close>

lemma holds_within:
  "holds h n seen v j \<Longrightarrow> set seen' \<subseteq> set seen \<Longrightarrow> json_within m j \<Longrightarrow> holds h m seen' v j"
proof (induction n arbitrary: seen v j m seen')
  case (Suc n)
  then obtain k where m: "m = Suc k" by (cases m) auto
  have inner: "holds h k (a # seen') x y" if "holds h n (a # seen) x y" "json_within k y" for a x y
    using Suc.IH [OF that(1) _ that(2), of "a # seen'"] Suc.prems(2) by auto
  show ?case
  proof (cases j)
    case (JArr js)
    with Suc.prems obtain a xs where v: "v = PV_Ref a" and a: "a \<notin> set seen'" "plain_container (h a)" "po_mapping (h a) = None"
      "po_sequence (h a) = Some xs" and items: "list_all2 (holds h n (a # seen)) xs js"
      by (auto split: pyvalue.splits option.splits)
    have "list_all (json_within k) js" using Suc.prems(3) JArr m by simp
    with items have "list_all2 (holds h k (a # seen')) xs js"
      by (induction rule: list_all2_induct) (auto intro: inner)
    with v a JArr m show ?thesis by simp
  next
    case (JObj kvs)
    with Suc.prems obtain a items where v: "v = PV_Ref a" and a: "a \<notin> set seen'" "plain_container (h a)" "po_mapping (h a) = Some items"
      and items: "list_all2 (\<lambda>x y. fst x = PV_Str (fst y) \<and> holds h n (a # seen) (snd x) (snd y)) items kvs"
      by (auto split: pyvalue.splits option.splits)
    have "list_all (json_within k \<circ> snd) kvs" using Suc.prems(3) JObj m by simp
    with items have "list_all2 (\<lambda>x y. fst x = PV_Str (fst y) \<and> holds h k (a # seen') (snd x) (snd y)) items kvs"
      by (induction rule: list_all2_induct) (auto intro: inner)
    with v a JObj m show ?thesis by simp
  qed (use Suc.prems(1) m in \<open>simp_all\<close>)
qed simp

subsection \<open>Properties\<close>

text \<open>
  C28: conversion to JSON is total and safe. Every value of a heap, shared and cyclic ones included, is either
  converted to JSON data with at most \<open>max_depth + 1\<close> levels and no key twice, or refused with a \<open>MessageValidationError\<close>
  (or an \<open>OverflowError\<close> of a datetime's conversion to UTC, or an exit raised by a model); and a value that already is
  JSON data within the depth is converted to that data.
\<close>

theorem to_json_value_total:
  assumes "heap_ok h" and "1 \<le> max_depth"
  shows "(case to_json_value h max_depth v of
            Inr j \<Rightarrow> json_within (Suc (nat max_depth)) j
          | Inl e \<Rightarrow> e \<in> {PyExc MessageValidationError False, PyExc OverflowError False} \<or> \<not> is_exception e)
     \<and> (holds h (Suc (nat max_depth)) [] v j \<longrightarrow> to_json_value h max_depth v = Inr j)"
proof -
  have run: "to_json_value h max_depth v = json_of h (Suc (nat max_depth)) [] v"
    using assms(2) by (simp add: to_json_value_def)
  show ?thesis
    unfolding run using json_of_within [OF assms(1)] json_of_error holds_json_of
    by (fastforce simp: conversion_error_def simp del: json_of.simps holds.simps json_within.simps split: sum.split)
qed

definition sample_mapping :: "(string \<times> pyvalue) list \<Rightarrow> pyobject" where
  "sample_mapping items = opaque\<lparr>po_mapping := Some (record_items items)\<rparr>"

text \<open>Address 0 has the list at address 1 twice, which is no cycle; the mapping at address 2 and the dataclass at 3 hold themselves.\<close>

definition sample_heap :: heap where
  "sample_heap a =
     (if a = 0 then sample_mapping [(''a'', PV_Ref 1), (''b'', PV_Ref 1)]
      else if a = 1 then opaque\<lparr>po_sequence := Some [PV_Int 1]\<rparr>
      else if a = 2 then sample_mapping [(''self'', PV_Ref 2)]
      else if a = 3 then opaque\<lparr>po_fields := Some [(''self'', PV_Ref 3)]\<rparr>
      else opaque)"

lemma sample_heap_ok: "heap_ok sample_heap"
  by (simp add: heap_ok_def sample_heap_def sample_mapping_def opaque_def record_items_def)

theorem to_json_value_total_witness:
  "to_json_value sample_heap 64 (PV_Ref 0) = Inr (JObj [(''a'', JArr [JInt 1]), (''b'', JArr [JInt 1])])"
proof -
  have "holds sample_heap (Suc (nat 64)) [] (PV_Ref 0) (JObj [(''a'', JArr [JInt 1]), (''b'', JArr [JInt 1])])"
    by code_simp
  with to_json_value_total [OF sample_heap_ok, of 64 "PV_Ref 0"] show ?thesis by simp
qed

lemma cyclic_values_refused:
  "to_json_value sample_heap 64 (PV_Ref 2) = raise MessageValidationError"
  "to_json_value sample_heap 64 (PV_Ref 3) = raise MessageValidationError"
  by code_simp+

text \<open>The first hour of the calendar in a zone east of Greenwich has no UTC time.\<close>

lemma early_datetime_overflows:
  "to_json_value sample_heap 64 (PV_Datetime \<lparr>cv_year = 1, cv_month = 1, cv_day = 1, cv_hour = 0, cv_minute = 30, cv_second = 0,
      cv_micro = 0, cv_offset = Some 3600000000\<rparr>) = raise OverflowError"
  by code_simp

end
