(* ===== verification/Envelopes.thy ===== *)
theory Envelopes
  imports Payloads
begin

text \<open>
  \<open>broka/envelope.py\<close>: the immutable wire envelope, its validation, its wire mapping and the way back.
  Payload and trace of an envelope are JSON objects; freezing and thawing only change which Python class holds
  them. The arguments of the constructor are the same fields before conversion, so one record type
  has both. Field types that Python annotates are those of the record. \<open>other\<close> reads the ISO 8601 formats that
  \<open>isoformat\<close> does not write.
\<close>

record ('p, 'h) envelope_data =
  en_id :: string
  en_type :: string
  en_version :: int
  en_timestamp :: civil
  en_payload :: 'p
  en_envelope_version :: int
  en_source :: "string option"
  en_correlation_id :: "string option"
  en_causation_id :: "string option"
  en_trace :: 'p
  en_content_type :: string
  en_serializer :: string
  en_headers :: 'h
  en_partition_key :: "string option"
  en_ordering_key :: "string option"
  en_expires_at :: "civil option"
  en_reply_to :: "string option"

type_synonym json_object = "(string \<times> json) list"
type_synonym raw_headers = "(pyvalue \<times> pyvalue) list"
type_synonym envelope = "(json_object, (string, string) dict) envelope_data"

definition current_envelope_version :: int where
  "current_envelope_version = 1"

definition blank :: "string \<Rightarrow> bool" where
  "blank s \<longleftrightarrow> strip s = []"

definition blank_option :: "string option \<Rightarrow> bool" where
  "blank_option s = (case s of None \<Rightarrow> False | Some t \<Rightarrow> blank t)"

definition normalize_datetime :: "civil \<Rightarrow> civil result" where
  "normalize_datetime d = (case cv_offset d of None \<Rightarrow> raise MessageValidationError | Some z \<Rightarrow> as_utc z d)"

definition normalize_optional :: "civil option \<Rightarrow> civil option result" where
  "normalize_optional d =
     (case d of None \<Rightarrow> Inr None
      | Some t \<Rightarrow> (case normalize_datetime t of Inl e \<Rightarrow> Inl e | Inr u \<Rightarrow> Inr (Some u)))"

definition header_pair :: "pyvalue \<times> pyvalue \<Rightarrow> (string \<times> string) result" where
  "header_pair x =
     (case fst x of
        PV_Str k \<Rightarrow>
          if k = [] then raise MessageValidationError
          else (case snd x of PV_Str v \<Rightarrow> Inr (k, v) | _ \<Rightarrow> raise MessageValidationError)
      | _ \<Rightarrow> raise MessageValidationError)"

definition normalize_envelope_headers :: "raw_headers \<Rightarrow> (string, string) dict result" where
  "normalize_envelope_headers hs = map_result header_pair hs"

definition object_of :: "json result \<Rightarrow> json_object result" where
  "object_of r = (case r of Inl e \<Rightarrow> Inl e | Inr j \<Rightarrow> (case j of JObj kvs \<Rightarrow> Inr kvs | _ \<Rightarrow> raise MessageValidationError))"

definition refit :: "('p, 'h) envelope_data \<Rightarrow> 'q \<Rightarrow> 'q \<Rightarrow> 'g \<Rightarrow> ('q, 'g) envelope_data" where
  "refit d payload trace hs =
     \<lparr>en_id = en_id d, en_type = en_type d, en_version = en_version d, en_timestamp = en_timestamp d,
      en_payload = payload, en_envelope_version = en_envelope_version d, en_source = en_source d,
      en_correlation_id = en_correlation_id d, en_causation_id = en_causation_id d, en_trace = trace,
      en_content_type = en_content_type d, en_serializer = en_serializer d, en_headers = hs,
      en_partition_key = en_partition_key d, en_ordering_key = en_ordering_key d,
      en_expires_at = en_expires_at d, en_reply_to = en_reply_to d\<rparr>"

text \<open>\<open>__post_init__\<close>; \<open>conv\<close> is \<open>to_json_value\<close> on what the payload and the trace are given as.\<close>

definition post_init :: "('p \<Rightarrow> json result) \<Rightarrow> ('p, raw_headers) envelope_data \<Rightarrow> envelope result" where
  "post_init conv d =
     (if blank (en_id d) \<or> blank (en_type d) \<or> en_version d < 1 \<or> en_envelope_version d < 1
         \<or> en_envelope_version d \<noteq> current_envelope_version \<or> blank (en_content_type d) \<or> blank (en_serializer d)
      then raise MessageValidationError
      else case normalize_datetime (en_timestamp d) of Inl e \<Rightarrow> Inl e
      | Inr ts \<Rightarrow> (case normalize_optional (en_expires_at d) of Inl e \<Rightarrow> Inl e
      | Inr ex \<Rightarrow> (case object_of (conv (en_payload d)) of Inl e \<Rightarrow> Inl e
      | Inr payload \<Rightarrow> (case object_of (conv (en_trace d)) of Inl e \<Rightarrow> Inl e
      | Inr trace \<Rightarrow> (case normalize_envelope_headers (en_headers d) of Inl e \<Rightarrow> Inl e
      | Inr hs \<Rightarrow>
          if list_ex blank_option [en_source d, en_correlation_id d, en_causation_id d, en_partition_key d,
               en_ordering_key d, en_reply_to d]
          then raise MessageValidationError
          else Inr ((refit d payload trace hs)\<lparr>en_timestamp := ts, en_expires_at := ex\<rparr>))))))"

definition new_envelope :: "heap \<Rightarrow> (raw_payload, raw_headers) envelope_data \<Rightarrow> envelope result" where
  "new_envelope h = post_init (raw_to_json h)"

subsection \<open>Time to live\<close>

text \<open>\<open>create\<close>: \<open>ttl\<close> is a number of seconds; the model's \<open>now\<close> and \<open>fresh_id\<close> are the clock and the UUID generator.\<close>

definition expiry :: "civil \<Rightarrow> pyfloat option \<Rightarrow> civil option \<Rightarrow> civil option result" where
  "expiry created_at ttl expires_at =
     (case ttl of
        None \<Rightarrow> Inr expires_at
      | Some t \<Rightarrow>
          if expires_at \<noteq> None then raise MessageValidationError
          else (case t of
             Fin s \<Rightarrow>
               if s \<le> 0 then raise MessageValidationError
               else (case add_micros (micros_of_seconds s) created_at of Inl e \<Rightarrow> Inl e | Inr d \<Rightarrow> Inr (Some d))
           | _ \<Rightarrow> raise MessageValidationError))"

text \<open>The fields given to \<open>create\<close>: an absent id or an empty one is generated, an absent timestamp is the current time.\<close>

definition create_envelope ::
  "('p \<Rightarrow> json result) \<Rightarrow> string \<Rightarrow> civil \<Rightarrow> ('p, raw_headers) envelope_data \<Rightarrow> string option \<Rightarrow> civil option \<Rightarrow> pyfloat option
   \<Rightarrow> envelope result"
where
  "create_envelope conv fresh_id now d mid timestamp ttl =
     (let created_at = (case timestamp of None \<Rightarrow> now | Some t \<Rightarrow> t) in
      case expiry created_at ttl (en_expires_at d) of
        Inl e \<Rightarrow> Inl e
      | Inr ex \<Rightarrow>
          post_init conv
            (d\<lparr>en_id := (case mid of None \<Rightarrow> fresh_id | Some i \<Rightarrow> if i = [] then fresh_id else i),
               en_timestamp := created_at, en_expires_at := ex, en_envelope_version := current_envelope_version\<rparr>))"

text \<open>\<open>is_expired\<close>.\<close>

definition utc_micros_of :: "civil \<Rightarrow> int" where
  "utc_micros_of d = civil_micros d"

definition is_expired :: "envelope \<Rightarrow> civil \<Rightarrow> bool result" where
  "is_expired e moment =
     (case en_expires_at e of
        None \<Rightarrow> Inr False
      | Some t \<Rightarrow> (case normalize_datetime moment of Inl x \<Rightarrow> Inl x | Inr n \<Rightarrow> Inr (utc_micros_of t \<le> utc_micros_of n)))"

subsection \<open>The wire mapping\<close>

text \<open>The datetimes of an envelope are in UTC, so \<open>astimezone\<close> returns them unchanged.\<close>

definition datetime_to_wire :: "civil \<Rightarrow> string" where
  "datetime_to_wire d = utc_to_z (isoformat d)"

definition wire_option :: "string option \<Rightarrow> json" where
  "wire_option s = (case s of None \<Rightarrow> JNull | Some t \<Rightarrow> JStr t)"

definition to_dict :: "envelope \<Rightarrow> json_object" where
  "to_dict e =
     [(''envelope_version'', JInt (en_envelope_version e)), (''id'', JStr (en_id e)), (''type'', JStr (en_type e)),
      (''version'', JInt (en_version e)), (''timestamp'', JStr (datetime_to_wire (en_timestamp e))),
      (''source'', wire_option (en_source e)), (''correlation_id'', wire_option (en_correlation_id e)),
      (''causation_id'', wire_option (en_causation_id e)), (''trace'', JObj (en_trace e)),
      (''content_type'', JStr (en_content_type e)), (''serializer'', JStr (en_serializer e)),
      (''headers'', JObj (map (\<lambda>(k, v). (k, JStr v)) (en_headers e))),
      (''partition_key'', wire_option (en_partition_key e)), (''ordering_key'', wire_option (en_ordering_key e)),
      (''expires_at'', case en_expires_at e of None \<Rightarrow> JNull | Some t \<Rightarrow> JStr (datetime_to_wire t)),
      (''reply_to'', wire_option (en_reply_to e)), (''payload'', JObj (en_payload e))]"

definition parse_datetime :: "iso_formats \<Rightarrow> pyvalue \<Rightarrow> civil result" where
  "parse_datetime other v =
     (case v of
        PV_Datetime d \<Rightarrow> normalize_datetime d
      | PV_Str s \<Rightarrow>
          (let candidate = (if s \<noteq> [] \<and> last s = CHR ''Z'' then butlast s @ ''+00:00'' else s) in
           case fromisoformat other candidate of
             Inl e \<Rightarrow> raise MessageValidationError
           | Inr d \<Rightarrow> normalize_datetime d)
      | _ \<Rightarrow> raise MessageValidationError)"

definition parse_optional_datetime :: "iso_formats \<Rightarrow> pyvalue option \<Rightarrow> civil option result" where
  "parse_optional_datetime other v =
     (case v of
        None \<Rightarrow> Inr None
      | Some x \<Rightarrow>
          if x = PV_None then Inr None
          else (case parse_datetime other x of Inl e \<Rightarrow> Inl e | Inr d \<Rightarrow> Inr (Some d)))"

definition field_value :: "(pyvalue \<times> pyvalue) list \<Rightarrow> string \<Rightarrow> pyvalue option" where
  "field_value items k = map_of items (PV_Str k)"

definition optional_string :: "(pyvalue \<times> pyvalue) list \<Rightarrow> string \<Rightarrow> string option result" where
  "optional_string items k =
     (case field_value items k of
        None \<Rightarrow> Inr None
      | Some v \<Rightarrow> (case v of PV_None \<Rightarrow> Inr None | PV_Str s \<Rightarrow> Inr (Some s) | _ \<Rightarrow> raise MessageValidationError))"

definition string_field :: "(pyvalue \<times> pyvalue) list \<Rightarrow> string \<Rightarrow> string \<Rightarrow> string result" where
  "string_field items k fallback =
     (case field_value items k of
        None \<Rightarrow> Inr fallback
      | Some v \<Rightarrow> (case v of PV_Str s \<Rightarrow> Inr s | _ \<Rightarrow> raise MessageValidationError))"

definition mapping_items :: "heap \<Rightarrow> pyvalue \<Rightarrow> (pyvalue \<times> pyvalue) list option" where
  "mapping_items h v = (case v of PV_Ref a \<Rightarrow> po_mapping (h a) | _ \<Rightarrow> None)"

text \<open>A mapping that may be absent: the value itself and its items.\<close>

definition mapping_field :: "heap \<Rightarrow> (pyvalue \<times> pyvalue) list \<Rightarrow> string \<Rightarrow> (raw_payload \<times> raw_headers) result" where
  "mapping_field h items k =
     (case field_value items k of
        None \<Rightarrow> Inr (Raw_dict [], [])
      | Some x \<Rightarrow> (case mapping_items h x of None \<Rightarrow> raise MessageValidationError | Some its \<Rightarrow> Inr (Raw_value x, its)))"

definition from_items :: "heap \<Rightarrow> iso_formats \<Rightarrow> (pyvalue \<times> pyvalue) list \<Rightarrow> envelope result" where
  "from_items h other items =
     (case (field_value items ''id'', field_value items ''type'', field_value items ''version'',
            field_value items ''timestamp'', field_value items ''payload'') of
        (Some (PV_Str i), Some (PV_Str t), Some (PV_Int n), Some ts, Some payload) \<Rightarrow>
          if mapping_items h payload = None then raise MessageValidationError
          else case (case field_value items ''envelope_version'' of None \<Rightarrow> PV_Int current_envelope_version | Some x \<Rightarrow> x) of
            PV_Int fmt \<Rightarrow>
              bindr (mapping_field h items ''trace'') (\<lambda>(trace, _).
              bindr (mapping_field h items ''headers'') (\<lambda>(_, hs).
              bindr (parse_datetime other ts) (\<lambda>stamp.
              bindr (optional_string items ''source'') (\<lambda>source.
              bindr (optional_string items ''correlation_id'') (\<lambda>correlation.
              bindr (optional_string items ''causation_id'') (\<lambda>causation.
              bindr (string_field items ''content_type'' ''application/json'') (\<lambda>content.
              bindr (string_field items ''serializer'' ''json'') (\<lambda>serializer.
              bindr (optional_string items ''partition_key'') (\<lambda>partition.
              bindr (optional_string items ''ordering_key'') (\<lambda>ordering.
              bindr (parse_optional_datetime other (field_value items ''expires_at'')) (\<lambda>expires.
              bindr (optional_string items ''reply_to'') (\<lambda>reply.
                new_envelope h
                  \<lparr>en_id = i, en_type = t, en_version = n, en_timestamp = stamp, en_payload = Raw_value payload,
                   en_envelope_version = fmt, en_source = source, en_correlation_id = correlation,
                   en_causation_id = causation, en_trace = trace, en_content_type = content, en_serializer = serializer,
                   en_headers = hs, en_partition_key = partition, en_ordering_key = ordering, en_expires_at = expires,
                   en_reply_to = reply\<rparr>))))))))))))
          | _ \<Rightarrow> raise MessageValidationError
      | _ \<Rightarrow> raise MessageValidationError)"

definition from_dict :: "heap \<Rightarrow> iso_formats \<Rightarrow> pyvalue \<Rightarrow> envelope result" where
  "from_dict h other value =
     (case mapping_items h value of None \<Rightarrow> raise MessageValidationError | Some items \<Rightarrow> from_items h other items)"

subsection \<open>Bytes\<close>

text \<open>
  The JSON text codec: \<open>dumps\<close> writes a JSON value with its keys in the order they have, or raises; \<open>loads\<close> decodes bytes, with
  the hooks that reject a repeated key and a non-finite constant, to a value in a heap or raises. With \<open>sort_keys\<close> the
  keys of every object are written in the order of their characters.
\<close>

primrec sort_json :: "json \<Rightarrow> json" where
  "sort_json JNull = JNull"
| "sort_json (JStr s) = JStr s"
| "sort_json (JBool b) = JBool b"
| "sort_json (JInt i) = JInt i"
| "sort_json (JFloat r) = JFloat r"
| "sort_json (JArr js) = JArr (map sort_json js)"
| "sort_json (JObj kvs) = JObj (sort_key fst (map (map_prod id sort_json) kvs))"

definition to_bytes :: "(json \<Rightarrow> string result) \<Rightarrow> envelope \<Rightarrow> string result" where
  "to_bytes dumps e =
     (case dumps (sort_json (JObj (to_dict e))) of
        Inl x \<Rightarrow> if isinstance x TypeError \<or> isinstance x ValueError then raise SerializationError else Inl x
      | Inr bytes \<Rightarrow> Inr bytes)"

definition default_max_bytes :: int where
  "default_max_bytes = 16 * 1024 * 1024"

definition from_bytes :: "(string \<Rightarrow> (heap \<times> pyvalue) result) \<Rightarrow> iso_formats \<Rightarrow> int \<Rightarrow> string \<Rightarrow> envelope result" where
  "from_bytes loads other max_size raw =
     (if max_size < 1 then raise ValueError
      else if max_size < int (length raw) then raise SerializationError
      else case loads raw of
        Inl x \<Rightarrow> if isinstance x ValueError then raise SerializationError else Inl x
      | Inr (h, decoded) \<Rightarrow>
          if mapping_items h decoded = None then raise SerializationError
          else (case from_dict h other decoded of
                  Inl x \<Rightarrow> if isinstance x MessageValidationError then raise SerializationError else Inl x
                | Inr e \<Rightarrow> Inr e))"

text \<open>\<open>with_headers\<close>: \<open>replace\<close> validates all the fields again; frozen JSON data converts to itself.\<close>

definition with_headers :: "envelope \<Rightarrow> (string, string) dict \<Rightarrow> bool \<Rightarrow> envelope result" where
  "with_headers e hs replace_existing =
     post_init (\<lambda>kvs. Inr (JObj kvs))
       (refit e (en_payload e) (en_trace e)
          (map (\<lambda>(k, v). (PV_Str k, PV_Str v))
             (fold (\<lambda>(k, v). dict_set k v) hs (if replace_existing then [] else en_headers e))))"

subsection \<open>Well-formed envelopes\<close>

definition utc_ok :: "civil \<Rightarrow> bool" where
  "utc_ok d \<longleftrightarrow> civil_ok d \<and> is_utc d"

definition envelope_ok :: "envelope \<Rightarrow> bool" where
  "envelope_ok e \<longleftrightarrow>
     \<not> blank (en_id e) \<and> \<not> blank (en_type e) \<and> \<not> blank (en_content_type e) \<and> \<not> blank (en_serializer e)
     \<and> 1 \<le> en_version e \<and> en_envelope_version e = current_envelope_version
     \<and> utc_ok (en_timestamp e) \<and> (case en_expires_at e of None \<Rightarrow> True | Some d \<Rightarrow> utc_ok d)
     \<and> json_within 65 (JObj (en_payload e)) \<and> json_within 65 (JObj (en_trace e))
     \<and> dict_ok (en_headers e) \<and> (\<forall>(k, v) \<in> set (en_headers e). k \<noteq> [])
     \<and> \<not> list_ex blank_option [en_source e, en_correlation_id e, en_causation_id e, en_partition_key e,
            en_ordering_key e, en_reply_to e]"

lemma envelope_ok_iff:
  "envelope_ok e \<longleftrightarrow>
     \<not> blank (en_id e) \<and> \<not> blank (en_type e) \<and> \<not> blank (en_content_type e) \<and> \<not> blank (en_serializer e)
     \<and> 1 \<le> en_version e \<and> en_envelope_version e = current_envelope_version
     \<and> utc_ok (en_timestamp e) \<and> (\<forall>d. en_expires_at e = Some d \<longrightarrow> utc_ok d)
     \<and> json_within 65 (JObj (en_payload e)) \<and> json_within 65 (JObj (en_trace e))
     \<and> dict_ok (en_headers e) \<and> (\<forall>(k, v) \<in> set (en_headers e). k \<noteq> [])
     \<and> \<not> list_ex blank_option [en_source e, en_correlation_id e, en_causation_id e, en_partition_key e,
            en_ordering_key e, en_reply_to e]"
  by (simp add: envelope_ok_def split: option.split)

lemma normalize_datetime_ok:
  assumes "normalize_datetime d = Inr u" and "civil_ok d"
  shows "utc_ok u \<and> instant_of u = instant_of d"
  using assms as_utc_exact by (auto simp: normalize_datetime_def utc_ok_def is_utc_def split: option.splits)

lemma normalize_optional_ok:
  assumes "normalize_optional d = Inr u" and "\<And>t. d = Some t \<Longrightarrow> civil_ok t"
  shows "(\<forall>t. u = Some t \<longrightarrow> utc_ok t) \<and> map_option instant_of u = map_option instant_of d"
  using assms by (auto simp: normalize_optional_def split: option.splits sum.splits dest: normalize_datetime_ok)

lemma header_pairs:
  assumes "normalize_envelope_headers hs = Inr items" and "distinct (map fst hs)"
  shows "dict_ok items \<and> (\<forall>(k, v) \<in> set items. k \<noteq> [])"
proof -
  from assms(1) have "list_all2 (\<lambda>x y. header_pair x = Inr y) hs items"
    by (simp add: normalize_envelope_headers_def map_result_Inr)
  then have "list_all2 (\<lambda>x y. fst x = PV_Str (fst y) \<and> fst y \<noteq> []) hs items"
    by (rule list_all2_mono) (auto simp: header_pair_def split: pyvalue.splits if_splits)
  then have "map fst hs = map (PV_Str \<circ> fst) items \<and> (\<forall>(k, v) \<in> set items. k \<noteq> [])"
    by (induction rule: list_all2_induct) auto
  with assms(2) show ?thesis unfolding dict_ok_def by (metis distinct_map map_map)
qed

lemma object_of_Inr: "object_of r = Inr kvs \<longleftrightarrow> r = Inr (JObj kvs)"
  by (auto simp: object_of_def split: sum.splits json.splits)

lemma post_init_ok:
  assumes run: "post_init conv d = Inr e" and time: "civil_ok (en_timestamp d)" "\<And>t. en_expires_at d = Some t \<Longrightarrow> civil_ok t"
    and conv: "\<And>p j. p \<in> {en_payload d, en_trace d} \<Longrightarrow> conv p = Inr j \<Longrightarrow> json_within 65 j"
    and keys: "distinct (map fst (en_headers d))"
  shows "envelope_ok e \<and> instant_of (en_timestamp e) = instant_of (en_timestamp d)
    \<and> map_option instant_of (en_expires_at e) = map_option instant_of (en_expires_at d)"
proof -
  from run obtain ts ex payload trace hs where parts: "normalize_datetime (en_timestamp d) = Inr ts"
    "normalize_optional (en_expires_at d) = Inr ex" "conv (en_payload d) = Inr (JObj payload)" "conv (en_trace d) = Inr (JObj trace)"
    "normalize_envelope_headers (en_headers d) = Inr hs"
    and e: "e = (refit d payload trace hs)\<lparr>en_timestamp := ts, en_expires_at := ex\<rparr>"
    and guards: "\<not> blank (en_id d)" "\<not> blank (en_type d)" "1 \<le> en_version d" "en_envelope_version d = current_envelope_version"
      "\<not> blank (en_content_type d)" "\<not> blank (en_serializer d)"
      "\<not> list_ex blank_option [en_source d, en_correlation_id d, en_causation_id d, en_partition_key d,
         en_ordering_key d, en_reply_to d]"
    unfolding post_init_def by (auto simp: object_of_Inr split: if_splits sum.splits)
  note normalize_datetime_ok [OF parts(1) time(1)] normalize_optional_ok [OF parts(2) time(2)]
    header_pairs [OF parts(5) keys] conv [OF _ parts(3)] conv [OF _ parts(4)]
  then show ?thesis
    using guards unfolding envelope_ok_iff e by (simp add: refit_def del: json_within.simps)
qed

lemma normalize_utc: "utc_ok d \<Longrightarrow> normalize_datetime d = Inr d"
  by (cases d) (simp add: utc_ok_def is_utc_def normalize_datetime_def as_utc_def)

lemma refit_self: "refit (refit e p t hs) (en_payload e) (en_trace e) (en_headers e) = e"
  by (cases e) (simp add: refit_def)

definition raw_header_items :: "(string, string) dict \<Rightarrow> raw_headers" where
  "raw_header_items hs = map (\<lambda>(k, v). (PV_Str k, PV_Str v)) hs"

lemma raw_header_items_normal:
  "\<forall>(k, v) \<in> set hs. k \<noteq> [] \<Longrightarrow> normalize_envelope_headers (raw_header_items hs) = Inr hs"
  by (induction hs) (auto simp: normalize_envelope_headers_def raw_header_items_def header_pair_def)

text \<open>A well-formed envelope passes its own validation unchanged.\<close>

lemma post_init_fixed:
  assumes ok: "envelope_ok e" and conv: "conv p = Inr (JObj (en_payload e))" "conv t = Inr (JObj (en_trace e))"
  shows "post_init conv (refit e p t (raw_header_items (en_headers e))) = Inr e"
proof -
  let ?d = "refit e p t (raw_header_items (en_headers e))"
  have "normalize_datetime (en_timestamp e) = Inr (en_timestamp e)" "normalize_optional (en_expires_at e) = Inr (en_expires_at e)"
    using ok by (auto simp: envelope_ok_iff normalize_optional_def normalize_utc split: option.split)
  moreover have "normalize_envelope_headers (raw_header_items (en_headers e)) = Inr (en_headers e)"
    using ok by (intro raw_header_items_normal) (simp add: envelope_ok_iff)
  moreover have "refit ?d (en_payload e) (en_trace e) (en_headers e)\<lparr>en_timestamp := en_timestamp e, en_expires_at := en_expires_at e\<rparr> = e"
    by (cases e) (simp add: refit_def)
  ultimately show ?thesis
    using ok conv unfolding post_init_def envelope_ok_iff by (simp add: refit_def object_of_def current_envelope_version_def)
qed

lemma raw_to_json_within:
  assumes "heap_ok h" and "raw_to_json h raw = Inr j" and "\<And>fs. raw = Raw_dict fs \<Longrightarrow> distinct (map fst fs)"
  shows "json_within 65 j"
proof (cases raw)
  case (Raw_value v)
  with assms(1,2) json_of_within [of h 65 "[]" v j] show ?thesis
    by (simp add: raw_to_json_def to_json_value_def default_max_depth_def del: json_of.simps json_within.simps)
next
  case (Raw_dict fs)
  with assms(2) have run: "json_map (json_of h 64 []) (record_items fs) = Inr j"
    by (simp add: raw_to_json_def default_max_depth_def)
  have "distinct (map fst (record_items fs))" using assms(3) Raw_dict by (intro record_items_distinct) simp
  from json_map_within [OF run this] json_of_within [OF assms(1), of 64 "[]"] have "kind_ok (json_within 64) j" by blast
  then have "json_within (Suc 64) j" by (simp only: json_within.simps)
  then show ?thesis by simp
qed

subsection \<open>Reading the wire mapping back\<close>

lemma parse_wire_datetime:
  assumes "utc_ok d"
  shows "parse_datetime other (PV_Str (datetime_to_wire d)) = Inr d"
proof -
  have d: "d\<lparr>cv_offset := Some 0\<rparr> = d" using assms by (cases d) (simp add: utc_ok_def is_utc_def)
  obtain s where s: "isoformat (d\<lparr>cv_offset := Some 0\<rparr>) = s @ ''+00:00''" "CHR ''+'' \<notin> set s"
    by (rule isoformat_no_plus)
  then have "datetime_to_wire d = s @ ''Z''" by (simp add: datetime_to_wire_def d utc_to_z_plain)
  moreover have "fromisoformat other (s @ ''+00:00'') = Inr d"
    using s iso_roundtrip [of d] assms by (simp add: fromisoformat_def d utc_ok_def is_utc_def)
  ultimately show ?thesis using normalize_utc [OF assms] by (simp add: parse_datetime_def)
qed

lemma parse_wire_optional:
  assumes "\<forall>t. d = Some t \<longrightarrow> utc_ok t"
    and "x = (case d of None \<Rightarrow> PV_None | Some t \<Rightarrow> PV_Str (datetime_to_wire t))"
  shows "parse_optional_datetime other (Some x) = Inr d"
  using assms parse_wire_datetime by (auto simp: parse_optional_datetime_def split: option.splits)

text \<open>The value of a field of a mapping that holds a JSON object.\<close>

lemma field_holds:
  assumes "list_all2 (\<lambda>x y. fst x = PV_Str (fst y) \<and> holds h n s (snd x) (snd y)) items kvs" and "map_of kvs k = Some j"
  shows "\<exists>x. field_value items k = Some x \<and> holds h n s x j"
  using assms unfolding field_value_def by (induction rule: list_all2_induct) (auto split: if_splits)

lemma holds_option: "holds h n s x (wire_option o') \<Longrightarrow> x = (case o' of None \<Rightarrow> PV_None | Some t \<Rightarrow> PV_Str t)"
  by (cases n) (simp_all add: wire_option_def split: option.splits)

lemma holds_scalar:
  "holds h n s x (JStr t) \<Longrightarrow> x = PV_Str t" "holds h n s x (JInt i) \<Longrightarrow> x = PV_Int i" "holds h n s x JNull \<Longrightarrow> x = PV_None"
  by (cases n; simp)+

lemma optional_string_wire:
  "field_value items k = Some x \<Longrightarrow> holds h n s x (wire_option o') \<Longrightarrow> optional_string items k = Inr o'"
  by (auto simp: optional_string_def dest!: holds_option split: option.splits)

lemma holds_object:
  assumes "holds h n s x (JObj kvs)"
  obtains its where "mapping_items h x = Some its" and "length its = length kvs"
    and "\<exists>a m. list_all2 (\<lambda>x y. fst x = PV_Str (fst y) \<and> holds h m (a # s) (snd x) (snd y)) its kvs"
  using assms by (cases n) (auto simp: mapping_items_def split: pyvalue.splits option.splits dest: list_all2_lengthD)

lemma holds_mapping: "holds h n s x (JObj kvs) \<Longrightarrow> \<exists>its. mapping_items h x = Some its"
  by (rule holds_object) auto

lemma holds_headers:
  assumes "holds h n s x (JObj (map (\<lambda>(k, v). (k, JStr v)) hs))"
  shows "mapping_items h x = Some (raw_header_items hs)"
proof -
  obtain its a m where its: "mapping_items h x = Some its"
    and "list_all2 (\<lambda>x y. fst x = PV_Str (fst y) \<and> holds h m (a # s) (snd x) (snd y)) its (map (\<lambda>(k, v). (k, JStr v)) hs)"
    using holds_object [OF assms] by blast
  then have "list_all2 (\<lambda>x y. x = (PV_Str (fst y), PV_Str (snd y))) its hs"
    unfolding list_all2_map2 by (elim list_all2_mono) (auto dest: holds_scalar)
  then have "its = raw_header_items hs" unfolding raw_header_items_def
    by (induction rule: list_all2_induct) auto
  with its show ?thesis by simp
qed

lemma holds_payload:
  assumes "holds h n s x (JObj kvs)" and "json_within 65 (JObj kvs)"
  shows "raw_to_json h (Raw_value x) = Inr (JObj kvs)"
proof -
  have "holds h 65 [] x (JObj kvs)" by (rule holds_within [OF assms(1) _ assms(2)]) simp
  from holds_json_of [OF this] show ?thesis
    by (simp add: raw_to_json_def to_json_value_def default_max_depth_def del: json_of.simps)
qed

lemma from_items_to_dict:
  assumes ok: "envelope_ok e" and same: "map_of kvs = map_of (to_dict e)"
    and items: "list_all2 (\<lambda>x y. fst x = PV_Str (fst y) \<and> holds h n s (snd x) (snd y)) items kvs"
  shows "from_items h other items = Inr e"
proof -
  note get = field_holds [OF items, unfolded same]
  have scalars: "field_value items ''id'' = Some (PV_Str (en_id e))" "field_value items ''type'' = Some (PV_Str (en_type e))"
    "field_value items ''version'' = Some (PV_Int (en_version e))"
    "field_value items ''timestamp'' = Some (PV_Str (datetime_to_wire (en_timestamp e)))"
    "field_value items ''envelope_version'' = Some (PV_Int (en_envelope_version e))"
    "field_value items ''content_type'' = Some (PV_Str (en_content_type e))"
    "field_value items ''serializer'' = Some (PV_Str (en_serializer e))"
    using get [of "''id''" "JStr (en_id e)"] get [of "''type''" "JStr (en_type e)"] get [of "''version''" "JInt (en_version e)"]
      get [of "''timestamp''" "JStr (datetime_to_wire (en_timestamp e))"] get [of "''envelope_version''" "JInt (en_envelope_version e)"]
      get [of "''content_type''" "JStr (en_content_type e)"] get [of "''serializer''" "JStr (en_serializer e)"]
    by (auto simp: to_dict_def dest: holds_scalar)
  have options: "optional_string items ''source'' = Inr (en_source e)"
    "optional_string items ''correlation_id'' = Inr (en_correlation_id e)" "optional_string items ''causation_id'' = Inr (en_causation_id e)"
    "optional_string items ''partition_key'' = Inr (en_partition_key e)" "optional_string items ''ordering_key'' = Inr (en_ordering_key e)"
    "optional_string items ''reply_to'' = Inr (en_reply_to e)"
    using get [of "''source''" "wire_option (en_source e)"] get [of "''correlation_id''" "wire_option (en_correlation_id e)"]
      get [of "''causation_id''" "wire_option (en_causation_id e)"] get [of "''partition_key''" "wire_option (en_partition_key e)"]
      get [of "''ordering_key''" "wire_option (en_ordering_key e)"] get [of "''reply_to''" "wire_option (en_reply_to e)"]
    by (auto simp: to_dict_def dest: optional_string_wire)
  obtain payload trace hs expires where containers: "field_value items ''payload'' = Some payload" "holds h n s payload (JObj (en_payload e))"
    "field_value items ''trace'' = Some trace" "holds h n s trace (JObj (en_trace e))"
    "field_value items ''headers'' = Some hs" "holds h n s hs (JObj (map (\<lambda>(k, v). (k, JStr v)) (en_headers e)))"
    "field_value items ''expires_at'' = Some expires"
    "holds h n s expires (case en_expires_at e of None \<Rightarrow> JNull | Some t \<Rightarrow> JStr (datetime_to_wire t))"
    using get [of "''payload''"] get [of "''trace''"] get [of "''headers''"] get [of "''expires_at''"] by (auto simp: to_dict_def)
  have trace: "mapping_field h items ''trace'' = Inr (Raw_value trace, the (mapping_items h trace))"
    and payload: "mapping_items h payload \<noteq> None"
    using holds_mapping [OF containers(4)] holds_mapping [OF containers(2)] containers(3) by (auto simp: mapping_field_def)
  have headers: "mapping_field h items ''headers'' = Inr (Raw_value hs, raw_header_items (en_headers e))"
    using containers(5) holds_headers [OF containers(6)] by (simp add: mapping_field_def)
  have "expires = (case en_expires_at e of None \<Rightarrow> PV_None | Some t \<Rightarrow> PV_Str (datetime_to_wire t))"
    using containers(8) by (auto split: option.splits dest: holds_scalar)
  then have expiry: "parse_optional_datetime other (field_value items ''expires_at'') = Inr (en_expires_at e)"
    using ok containers(7) by (simp add: parse_wire_optional envelope_ok_iff)
  have stamp: "parse_datetime other (PV_Str (datetime_to_wire (en_timestamp e))) = Inr (en_timestamp e)"
    using ok by (intro parse_wire_datetime) (simp add: envelope_ok_iff)
  have "new_envelope h (refit e (Raw_value payload) (Raw_value trace) (raw_header_items (en_headers e))) = Inr e"
    unfolding new_envelope_def using ok containers holds_payload
    by (intro post_init_fixed) (auto simp: envelope_ok_iff simp del: json_within.simps)
  then show ?thesis
    using scalars options trace payload headers expiry stamp containers
    by (simp add: from_items_def string_field_def refit_def)
qed

lemma from_dict_holds:
  assumes "envelope_ok e" and "holds h n [] v (JObj kvs)" and "map_of kvs = map_of (to_dict e)"
  shows "from_dict h other v = Inr e" and "mapping_items h v \<noteq> None"
proof -
  obtain items a m where items: "mapping_items h v = Some items"
    and "list_all2 (\<lambda>x y. fst x = PV_Str (fst y) \<and> holds h m [a] (snd x) (snd y)) items kvs"
    using holds_object [OF assms(2)] by blast
  from from_items_to_dict [OF assms(1,3) this(2)] items
  show "from_dict h other v = Inr e" "mapping_items h v \<noteq> None" by (simp_all add: from_dict_def)
qed

text \<open>
  Sorting the keys. Python compares dictionaries without their order, so an envelope and the one with its keys sorted
  are equal to the program.
\<close>

definition sorted_object :: "json_object \<Rightarrow> json_object" where
  "sorted_object kvs = sort_key fst (map (map_prod id sort_json) kvs)"

definition sorted_envelope :: "envelope \<Rightarrow> envelope" where
  "sorted_envelope e =
     e\<lparr>en_payload := sorted_object (en_payload e), en_trace := sorted_object (en_trace e), en_headers := sort_key fst (en_headers e)\<rparr>"

lemma distinct_keys_sort: "distinct (map fst (sort_key fst xs)) \<longleftrightarrow> distinct (map fst xs)"
  by (simp add: distinct_map)

lemma map_of_sort_key: "distinct (map fst xs) \<Longrightarrow> map_of (sort_key fst xs) = map_of xs"
proof
  fix k
  assume "distinct (map fst xs)"
  then have "map_of (sort_key fst xs) k = Some v \<longleftrightarrow> map_of xs k = Some v" for v
    using distinct_keys_sort [of xs] by simp
  then show "map_of (sort_key fst xs) k = map_of xs k" by (metis option.exhaust)
qed

lemma insort_key_map: "insort_key f (g x) (map g xs) = map g (insort_key (f \<circ> g) x xs)"
  by (induction xs) simp_all

lemma sort_key_map: "sort_key f (map g xs) = map g (sort_key (f \<circ> g) xs)"
  by (induction xs) (simp_all add: insort_key_map comp_def del: insort_key.simps)

lemma sort_json_within: "json_within n j \<Longrightarrow> json_within n (sort_json j)"
proof (induction n arbitrary: j)
  case (Suc n)
  show ?case
  proof (cases j)
    case (JObj kvs)
    with Suc.prems have "distinct (map fst kvs)" "list_all (json_within n \<circ> snd) kvs" by simp_all
    then show ?thesis using JObj Suc.IH by (auto simp: list_all_iff distinct_keys_sort comp_def)
  qed (use Suc in \<open>auto simp: list_all_iff\<close>)
qed simp

lemma sort_json_idem: "sort_json (sort_json j) = sort_json j"
proof (induction j)
  case (JObj kvs)
  have "map (map_prod id sort_json) (map (map_prod id sort_json) kvs) = map (map_prod id sort_json) kvs"
    using JObj.IH by (fastforce simp: prod_set_simps)
  moreover have "fst \<circ> map_prod id sort_json = (fst :: string \<times> json \<Rightarrow> string)" by auto
  ultimately have "map (map_prod id sort_json) (sort_key fst (map (map_prod id sort_json) kvs))
      = sort_key fst (map (map_prod id sort_json) kvs)"
    using sort_key_map [of fst "map_prod id sort_json" "map (map_prod id sort_json) kvs"] by (simp only:)
  then show ?case by (simp add: sort_key_id_if_sorted)
qed simp_all

lemma sorted_object_idem: "sorted_object (sorted_object kvs) = sorted_object kvs"
  using sort_json_idem [of "JObj kvs"] by (simp add: sorted_object_def)

lemma sorted_envelope_idem: "sorted_envelope (sorted_envelope e) = sorted_envelope e"
  by (simp add: sorted_envelope_def sorted_object_idem sort_key_id_if_sorted)

lemma sorted_envelope_ok: "envelope_ok e \<Longrightarrow> envelope_ok (sorted_envelope e)"
proof -
  assume ok: "envelope_ok e"
  have sorted: "json_within 65 (JObj (sorted_object kvs))" if "json_within 65 (JObj kvs)" for kvs
    using sort_json_within [OF that] by (simp only: sort_json.simps sorted_object_def)
  show ?thesis
    using ok sorted unfolding envelope_ok_iff sorted_envelope_def dict_ok_def
    by (simp add: distinct_keys_sort del: json_within.simps)
qed

lemma sorted_headers: "sort_json (JObj (map (\<lambda>(k, v). (k, JStr v)) hs)) = JObj (map (\<lambda>(k, v). (k, JStr v)) (sort_key fst hs))"
proof -
  have "map (map_prod id sort_json) (map (\<lambda>(k, v). (k, JStr v)) hs) = map (\<lambda>(k, v). (k, JStr v)) hs"
    by (induction hs) auto
  moreover have "fst \<circ> (\<lambda>(k, v). (k, JStr v)) = (fst :: string \<times> string \<Rightarrow> string)" by auto
  ultimately show ?thesis by (simp only: sort_json.simps sort_key_map)
qed

lemma sorted_to_dict:
  "sort_json (JObj (to_dict e)) = JObj (sort_key fst (to_dict (sorted_envelope e)))"
  "map_of (sort_key fst (to_dict e)) = map_of (to_dict e)"
proof -
  have "map (map_prod id sort_json) (to_dict e) = to_dict (sorted_envelope e)"
    using sorted_headers [of "en_headers e"]
    by (simp add: to_dict_def sorted_envelope_def sorted_object_def wire_option_def split: option.split)
  then show "sort_json (JObj (to_dict e)) = JObj (sort_key fst (to_dict (sorted_envelope e)))" by simp
  show "map_of (sort_key fst (to_dict e)) = map_of (to_dict e)"
    by (rule map_of_sort_key) (simp add: to_dict_def)
qed

text \<open>What the standard library guarantees of the datetimes it makes.\<close>

definition datetimes_ok :: "heap \<Rightarrow> iso_formats \<Rightarrow> bool" where
  "datetimes_ok h other \<longleftrightarrow>
     (\<forall>a items k d. po_mapping (h a) = Some items \<longrightarrow> (k, PV_Datetime d) \<in> set items \<longrightarrow> civil_ok d)
     \<and> (\<forall>s d. other s = Some d \<longrightarrow> civil_ok d)"

lemma iso_profile_ok: "iso_profile s = Some d \<Longrightarrow> civil_ok d"
  by (auto simp: iso_profile_def Let_def split: if_splits option.splits prod.splits)

lemma parse_datetime_ok:
  assumes "parse_datetime other v = Inr u" and "\<And>s d. other s = Some d \<Longrightarrow> civil_ok d" and "\<And>d. v = PV_Datetime d \<Longrightarrow> civil_ok d"
  shows "utc_ok u"
  using assms
  by (auto simp: parse_datetime_def fromisoformat_def Let_def split: pyvalue.splits option.splits sum.splits if_splits
      dest: normalize_datetime_ok iso_profile_ok)

lemma field_value_in: "field_value items k = Some v \<Longrightarrow> (PV_Str k, v) \<in> set items"
  by (simp add: field_value_def map_of_SomeD)

lemma from_items_ok:
  assumes run: "from_items h other items = Inr e" and h: "heap_ok h" and a: "po_mapping (h a) = Some items" and times: "datetimes_ok h other"
  shows "envelope_ok e"
proof -
  from run obtain d ts payload tr trs hr hs where new: "new_envelope h d = Inr e"
    and ts: "field_value items ''timestamp'' = Some ts" "parse_datetime other ts = Inr (en_timestamp d)"
    and ex: "parse_optional_datetime other (field_value items ''expires_at'') = Inr (en_expires_at d)"
    and payload: "en_payload d = Raw_value payload"
    and trace: "mapping_field h items ''trace'' = Inr (tr, trs)" "en_trace d = tr"
    and hs: "mapping_field h items ''headers'' = Inr (hr, hs)" "en_headers d = hs"
    unfolding from_items_def by (auto simp: bindr_eq_Inr split: option.splits pyvalue.splits if_splits prod.splits)
  have other: "other s = Some d \<Longrightarrow> civil_ok d" for s d using times by (auto simp: datetimes_ok_def)
  have inside: "field_value items k = Some (PV_Datetime d) \<Longrightarrow> civil_ok d" for k d
    using times a field_value_in unfolding datetimes_ok_def by blast
  have t: "utc_ok (en_timestamp d)" by (rule parse_datetime_ok [OF ts(2) other]) (use inside ts(1) in auto)
  have x: "utc_ok t" if some: "en_expires_at d = Some t" for t
  proof -
    from ex some obtain v where v: "field_value items ''expires_at'' = Some v" "parse_datetime other v = Inr t"
      by (auto simp: parse_optional_datetime_def split: option.splits if_splits sum.splits)
    show ?thesis by (rule parse_datetime_ok [OF v(2) other]) (use inside v(1) in auto)
  qed
  have "distinct (map fst hs)"
    using hs(1) h unfolding mapping_field_def mapping_items_def heap_ok_def
    by (auto split: option.splits pyvalue.splits)
  moreover have "tr = Raw_dict [] \<or> (\<exists>v. tr = Raw_value v)"
    using trace(1) by (auto simp: mapping_field_def split: option.splits)
  moreover have "en_payload d = Raw_dict fs \<Longrightarrow> fs = []" "en_trace d = Raw_dict fs \<Longrightarrow> fs = []" for fs
    using payload trace calculation(2) by auto
  ultimately show ?thesis
    using post_init_ok [OF new [unfolded new_envelope_def]] t x hs(2) raw_to_json_within [OF h]
    by (fastforce simp: utc_ok_def)
qed

subsection \<open>Properties\<close>


text \<open>
  C30: whatever the decoder accepts is a well-formed envelope: identifiers, type, serializer and the optional names are not blank,
  the versions are valid, timestamps are in UTC and denote a date of the calendar, payload and trace are JSON objects within the depth, no header is
  repeated or nameless. Writing it and reading it back gives the same envelope again.
\<close>

theorem decoded_envelope_ok:
  assumes "from_dict h other v = Inr e" and "heap_ok h" and "datetimes_ok h other"
  shows "envelope_ok e \<and> (holds h' n [] v' (JObj (to_dict e)) \<longrightarrow> from_dict h' other' v' = Inr e)"
proof -
  from assms(1) obtain a items where "po_mapping (h a) = Some items" "from_items h other items = Inr e"
    by (auto simp: from_dict_def mapping_items_def split: option.splits pyvalue.splits)
  from from_items_ok [OF this(2) assms(2) this(1) assms(3)] have ok: "envelope_ok e" .
  then show ?thesis using from_dict_holds(1) [OF ok] by blast
qed


subsection \<open>Examples\<close>

definition noon :: "int option \<Rightarrow> civil" where
  "noon z = \<lparr>cv_year = 2024, cv_month = 2, cv_day = 29, cv_hour = 12, cv_minute = 0, cv_second = 0, cv_micro = 500000, cv_offset = z\<rparr>"

definition sample_data :: "'p \<Rightarrow> 'p \<Rightarrow> 'h \<Rightarrow> civil \<Rightarrow> ('p, 'h) envelope_data" where
  "sample_data payload trace hs t =
     \<lparr>en_id = ''m1'', en_type = ''orders.created'', en_version = 2, en_timestamp = t, en_payload = payload,
      en_envelope_version = 1, en_source = None, en_correlation_id = Some ''c7'', en_causation_id = None, en_trace = trace,
      en_content_type = ''application/json'', en_serializer = ''json'', en_headers = hs, en_partition_key = None,
      en_ordering_key = None, en_expires_at = None, en_reply_to = None\<rparr>"

definition sample_envelope :: envelope where
  "sample_envelope = sample_data [(''total'', JInt 7)] [] [(''tenant'', ''eu'')] (noon (Some 0))"

definition scalar_value :: "address \<Rightarrow> json \<Rightarrow> pyvalue" where
  "scalar_value a j =
     (case j of JNull \<Rightarrow> PV_None | JStr s \<Rightarrow> PV_Str s | JBool b \<Rightarrow> PV_Bool b | JInt i \<Rightarrow> PV_Int i | JFloat r \<Rightarrow> PV_Float (Fin r)
      | _ \<Rightarrow> PV_Ref a)"

text \<open>The wire mapping of the sample at address 0, its trace, headers and payload at 1, 2 and 3.\<close>

definition wire_heap :: heap where
  "wire_heap a =
     (if a = 0 then sample_mapping (map (\<lambda>(k, j). (k, scalar_value (if k = ''trace'' then 1 else if k = ''headers'' then 2 else 3) j))
        (to_dict sample_envelope))
      else if a = 1 then sample_mapping []
      else if a = 2 then sample_mapping [(''tenant'', PV_Str ''eu'')]
      else if a = 3 then sample_mapping [(''total'', PV_Int 7)]
      else opaque)"

lemma sample_envelope_ok: "envelope_ok sample_envelope"
  by code_simp

lemma wire_heap_holds: "holds wire_heap 3 [] (PV_Ref 0) (JObj (to_dict sample_envelope))"
  by code_simp

text \<open>The decoded bytes of the sample, its keys in order.\<close>

definition sorted_heap :: heap where
  "sorted_heap a =
     (if a = 0 then sample_mapping (map (\<lambda>(k, j). (k, scalar_value (if k = ''trace'' then 1 else if k = ''headers'' then 2 else 3) j))
        (sort_key fst (to_dict sample_envelope)))
      else wire_heap a)"

lemma sorted_heap_holds: "holds sorted_heap 3 [] (PV_Ref 0) (sort_json (JObj (to_dict sample_envelope)))"
  by code_simp


theorem decoded_envelope_ok_witness:
  "envelope_ok sample_envelope"
proof -
  have h: "heap_ok wire_heap"
    by (simp add: heap_ok_def wire_heap_def sample_mapping_def opaque_def record_items_def to_dict_def)
  have times: "datetimes_ok wire_heap (\<lambda>_. None)"
    by (simp add: datetimes_ok_def wire_heap_def sample_mapping_def opaque_def record_items_def to_dict_def
        scalar_value_def sample_envelope_def sample_data_def wire_option_def)
  have "from_dict wire_heap (\<lambda>_. None) (PV_Ref 0) = Inr sample_envelope" by code_simp
  from decoded_envelope_ok [OF this h times, of wire_heap 3 "PV_Ref 0" "\<lambda>_. None"] show ?thesis by simp
qed

text \<open>An envelope made at half past midnight two hours east of Greenwich, to live for ninety seconds.\<close>

definition made_at :: civil where
  "made_at = \<lparr>cv_year = 2024, cv_month = 3, cv_day = 1, cv_hour = 0, cv_minute = 30, cv_second = 0, cv_micro = 0,
     cv_offset = Some 7200000000\<rparr>"

definition asked_at :: "int \<Rightarrow> civil" where
  "asked_at s = \<lparr>cv_year = 2024, cv_month = 2, cv_day = 29, cv_hour = 22, cv_minute = 31, cv_second = s, cv_micro = 0, cv_offset = Some 0\<rparr>"

definition made_envelope :: "envelope result" where
  "made_envelope = create_envelope (\<lambda>p. Inr (JObj p)) ''m2'' made_at (sample_data [] [] [] made_at) None (Some made_at) (Some (Fin 90))"

lemma is_ok_made: "is_ok made_envelope"
  by code_simp

lemma is_ok_asked:
  "case made_envelope of Inl x \<Rightarrow> False | Inr e \<Rightarrow> is_ok (is_expired e (asked_at 30)) \<and> is_ok (is_expired e (asked_at 29))"
  by code_simp


text \<open>
  A timestamp whose UTC time is before the year 1 is an \<open>OverflowError\<close>, which \<open>from_bytes\<close> does not turn into a
  \<open>SerializationError\<close>.
\<close>

definition early_heap :: heap where
  "early_heap a =
     (if a = 0 then sample_mapping [(''id'', PV_Str ''m1''), (''type'', PV_Str ''t''), (''version'', PV_Int 1),
        (''timestamp'', PV_Str ''0001-01-01T00:30:00+01:00''), (''payload'', PV_Ref 1)]
      else sample_mapping [])"

lemma early_timestamp_escapes:
  "from_bytes (\<lambda>_. Inr (early_heap, PV_Ref 0)) (\<lambda>_. None) 100 ''{}'' = raise OverflowError"
  by code_simp

end
