(* ===== verification/EventTypes.thy ===== *)
theory EventTypes
  imports Envelopes
begin

text \<open>
  \<open>broka/event.py\<close> and the metadata helpers of \<open>broka/message.py\<close>: event classes, their registry by name and schema
  version, explicit upcasters and the reconstruction of a typed event from a payload. Classes are identities
  into a store of what the code reads from and writes to them; the constructor of a class (\<open>model_validate\<close>,
  \<open>from_dict\<close> or keyword arguments) is a function of the payload that returns the object or raises.
\<close>

type_synonym class_id = nat

record 'o event_class =
  ec_name :: "pyvalue option"
  ec_version :: "pyvalue option"
  ec_metadata :: "(string \<times> int \<times> class_id) option"
  ec_writable :: bool
  ec_construct :: "json_object \<Rightarrow> 'o result"

type_synonym 'o classes = "class_id \<Rightarrow> 'o event_class"
type_synonym event_key = "string \<times> int"

record upcaster =
  uc_target :: int
  uc_transform :: "json_object \<Rightarrow> pyvalue result"

record event_registry =
  er_events :: "(event_key, class_id) dict"
  er_upcasters :: "(event_key, upcaster) dict"

definition new_event_registry :: event_registry where
  "new_event_registry = \<lparr>er_events = [], er_upcasters = []\<rparr>"

definition is_alnum :: "char \<Rightarrow> bool" where
  "is_alnum c \<longleftrightarrow> (CHR ''A'' \<le> c \<and> c \<le> CHR ''Z'') \<or> (CHR ''a'' \<le> c \<and> c \<le> CHR ''z'') \<or> (CHR ''0'' \<le> c \<and> c \<le> CHR ''9'')"

definition event_name_ok :: "string \<Rightarrow> bool" where
  "event_name_ok s \<longleftrightarrow>
     (case s of [] \<Rightarrow> False | c # cs \<Rightarrow> is_alnum c \<and> list_all (\<lambda>x. is_alnum x \<or> x \<in> set ''_.:-'') cs)"

definition validate_event_identity :: "string \<Rightarrow> int \<Rightarrow> unit result" where
  "validate_event_identity name version =
     (if event_name_ok name \<and> 1 \<le> version then Inr () else raise EventRegistrationError)"

definition new_event_key :: "string \<Rightarrow> int \<Rightarrow> event_key result" where
  "new_event_key name version = bindr (validate_event_identity name version) (\<lambda>_. Inr (name, version))"

subsection \<open>Metadata of a class\<close>

definition is_message :: "'o event_class \<Rightarrow> bool" where
  "is_message c =
     (case (ec_name c, ec_version c) of
        (Some (PV_Str n), Some (PV_Int v)) \<Rightarrow> n \<noteq> [] \<and> 0 < v
      | _ \<Rightarrow> False)"

definition message_name :: "'o event_class \<Rightarrow> string result" where
  "message_name c =
     (case ec_name c of
        Some (PV_Str n) \<Rightarrow> if n = [] then raise MessageValidationError else Inr n
      | _ \<Rightarrow> raise MessageValidationError)"

definition message_version :: "'o event_class \<Rightarrow> int result" where
  "message_version c =
     (case ec_version c of
        Some (PV_Int v) \<Rightarrow> if v < 1 then raise MessageValidationError else Inr v
      | _ \<Rightarrow> raise MessageValidationError)"

definition get_event_metadata :: "'o classes \<Rightarrow> class_id \<Rightarrow> event_key result" where
  "get_event_metadata cs c =
     (case ec_metadata (cs c) of
        Some (n, v, owner) \<Rightarrow>
          if owner = c then Inr (n, v)
          else (case (ec_name (cs c), ec_version (cs c)) of
                  (Some (PV_Str n), Some (PV_Int v)) \<Rightarrow> new_event_key n v
                | _ \<Rightarrow> raise MessageValidationError)
      | None \<Rightarrow>
          (case (ec_name (cs c), ec_version (cs c)) of
             (Some (PV_Str n), Some (PV_Int v)) \<Rightarrow> new_event_key n v
           | _ \<Rightarrow> raise MessageValidationError))"

definition present :: "pyvalue option \<Rightarrow> bool" where
  "present v \<longleftrightarrow> v \<noteq> None \<and> v \<noteq> Some PV_None"

definition attach_metadata :: "class_id \<Rightarrow> string \<Rightarrow> int \<Rightarrow> 'o classes \<Rightarrow> unit result \<times> 'o classes" where
  "attach_metadata c name version cs =
     (case validate_event_identity name version of
        Inl e \<Rightarrow> (Inl e, cs)
      | Inr _ \<Rightarrow>
          if (present (ec_name (cs c)) \<or> present (ec_version (cs c)))
             \<and> (ec_name (cs c) \<noteq> Some (PV_Str name) \<or> ec_version (cs c) \<noteq> Some (PV_Int version))
          then (raise EventRegistrationError, cs)
          else if ec_writable (cs c)
          then (Inr (), cs(c := (cs c)\<lparr>ec_name := Some (PV_Str name), ec_version := Some (PV_Int version),
                                     ec_metadata := Some (name, version, c)\<rparr>))
          else (raise EventRegistrationError, cs))"

subsection \<open>The registry\<close>

text \<open>Registration works on the registry and the classes.\<close>

type_synonym 'o event_world = "event_registry \<times> 'o classes"

definition enter_event :: "event_key \<Rightarrow> class_id \<Rightarrow> bool \<Rightarrow> 'o event_world \<Rightarrow> unit result \<times> 'o event_world" where
  "enter_event k c replace w =
     (case dict_get (er_events (fst w)) k of
        Some old \<Rightarrow>
          if old \<noteq> c \<and> \<not> replace then (raise DuplicateRegistrationError, w)
          else (Inr (), ((fst w)\<lparr>er_events := dict_set k c (er_events (fst w))\<rparr>, snd w))
      | None \<Rightarrow> (Inr (), ((fst w)\<lparr>er_events := dict_set k c (er_events (fst w))\<rparr>, snd w)))"

definition register_event ::
  "class_id \<Rightarrow> string option \<Rightarrow> int option \<Rightarrow> bool \<Rightarrow> 'o event_world \<Rightarrow> unit result \<times> 'o event_world"
where
  "register_event c name version replace w =
     (case (name, version) of
        (None, None) \<Rightarrow>
          (case get_event_metadata (snd w) c of
             Inl e \<Rightarrow> (Inl e, w)
           | Inr (n, v) \<Rightarrow> (case new_event_key n v of Inl e \<Rightarrow> (Inl e, w) | Inr k \<Rightarrow> enter_event k c replace w))
      | (Some n, Some v) \<Rightarrow>
          (case attach_metadata c n v (snd w) of
             (Inl e, cs) \<Rightarrow> (Inl e, (fst w, cs))
           | (Inr _, cs) \<Rightarrow>
               (case new_event_key n v of Inl e \<Rightarrow> (Inl e, (fst w, cs)) | Inr k \<Rightarrow> enter_event k c replace (fst w, cs)))
      | _ \<Rightarrow> (raise EventRegistrationError, w))"

definition unregister_event :: "string \<Rightarrow> int \<Rightarrow> event_registry \<Rightarrow> class_id option result \<times> event_registry" where
  "unregister_event name version r =
     (case new_event_key name version of
        Inl e \<Rightarrow> (Inl e, r)
      | Inr k \<Rightarrow> (Inr (dict_get (er_events r) k), r\<lparr>er_events := dict_del k (er_events r)\<rparr>))"

definition resolve_event :: "event_registry \<Rightarrow> string \<Rightarrow> int \<Rightarrow> class_id result" where
  "resolve_event r name version =
     bindr (new_event_key name version)
       (\<lambda>k. case dict_get (er_events r) k of None \<Rightarrow> raise UnknownEventError | Some c \<Rightarrow> Inr c)"

definition get_event :: "event_registry \<Rightarrow> string \<Rightarrow> int \<Rightarrow> class_id option result" where
  "get_event r name version = bindr (new_event_key name version) (\<lambda>k. Inr (dict_get (er_events r) k))"

definition event_versions :: "event_registry \<Rightarrow> string \<Rightarrow> int list" where
  "event_versions r name = sort (map snd (filter (\<lambda>k. fst k = name) (dict_keys (er_events r))))"

definition latest_version :: "event_registry \<Rightarrow> string \<Rightarrow> int result" where
  "latest_version r name =
     (let vs = event_versions r name in if vs = [] then raise UnknownEventError else Inr (last vs))"

definition knows_event :: "event_registry \<Rightarrow> string \<Rightarrow> int \<Rightarrow> bool" where
  "knows_event r name version =
     (case new_event_key name version of Inl e \<Rightarrow> False | Inr k \<Rightarrow> dict_has (er_events r) k)"

definition register_upcaster ::
  "string \<Rightarrow> int \<Rightarrow> int \<Rightarrow> (json_object \<Rightarrow> pyvalue result) \<Rightarrow> bool \<Rightarrow> event_registry \<Rightarrow> unit result \<times> event_registry"
where
  "register_upcaster name from_version to_version transform replace r =
     (case validate_event_identity name from_version of
        Inl e \<Rightarrow> (Inl e, r)
      | Inr _ \<Rightarrow>
          if to_version < 1 \<or> to_version \<le> from_version then (raise EventRegistrationError, r)
          else if dict_has (er_upcasters r) (name, from_version) \<and> \<not> replace then (raise DuplicateRegistrationError, r)
          else (Inr (), r\<lparr>er_upcasters := dict_set (name, from_version) \<lparr>uc_target = to_version, uc_transform = transform\<rparr>
                          (er_upcasters r)\<rparr>))"

subsection \<open>Reconstruction\<close>

text \<open>One upcaster on the payload; every exception but a validation error is wrapped in one.\<close>

definition upcast_once :: "heap \<Rightarrow> upcaster \<Rightarrow> json_object \<Rightarrow> json_object result" where
  "upcast_once h u p = object_of (wrap_validation (bindr (uc_transform u p) (to_json_value h default_max_depth)))"

partial_function (option) upcast_loop ::
  "heap \<Rightarrow> event_registry \<Rightarrow> string \<Rightarrow> int \<Rightarrow> int \<Rightarrow> json_object \<Rightarrow> json_object result option"
where
  "upcast_loop h r name destination current p =
     (if destination \<le> current then Some (Inr p)
      else case dict_get (er_upcasters r) (name, current) of
        None \<Rightarrow> Some (raise EventRegistrationError)
      | Some u \<Rightarrow>
          if destination < uc_target u then Some (raise EventRegistrationError)
          else (case upcast_once h u p of
                  Inl e \<Rightarrow> Some (Inl e)
                | Inr q \<Rightarrow> upcast_loop h r name destination (uc_target u) q))"

definition construct_event :: "'o classes \<Rightarrow> class_id \<Rightarrow> json_object \<Rightarrow> 'o result" where
  "construct_event cs c p =
     (case ec_construct (cs c) p of
        Inr x \<Rightarrow> Inr x
      | Inl e \<Rightarrow>
          if is_exception e
          then (case get_event_metadata cs c of Inl e' \<Rightarrow> Inl e' | Inr _ \<Rightarrow> raise MessageValidationError)
          else Inl e)"

text \<open>\<open>normalized\<close> is \<open>to_json_value\<close> of the payload.\<close>

definition reconstruct ::
  "heap \<Rightarrow> 'o event_world \<Rightarrow> string \<Rightarrow> int \<Rightarrow> json result \<Rightarrow> int option \<Rightarrow> 'o result option"
where
  "reconstruct h w name version normalized target =
     (case validate_event_identity name version of
        Inl e \<Rightarrow> Some (Inl e)
      | Inr _ \<Rightarrow>
          (let destination = (case target of None \<Rightarrow> version | Some t \<Rightarrow> t) in
           if destination < version then Some (raise EventRegistrationError)
           else case object_of normalized of
             Inl e \<Rightarrow> Some (Inl e)
           | Inr p \<Rightarrow>
               (case upcast_loop h (fst w) name destination version p of
                  None \<Rightarrow> None
                | Some (Inl e) \<Rightarrow> Some (Inl e)
                | Some (Inr q) \<Rightarrow>
                    Some (bindr (resolve_event (fst w) name destination) (\<lambda>c. construct_event (snd w) c q)))))"

text \<open>\<open>Envelope.to_message\<close>: the payload of an envelope is JSON data already.\<close>

definition to_message :: "heap \<Rightarrow> 'o event_world \<Rightarrow> envelope \<Rightarrow> int option \<Rightarrow> 'o result option" where
  "to_message h w e target = reconstruct h w (en_type e) (en_version e) (Inr (JObj (en_payload e))) target"

text \<open>\<open>payload_for\<close> and \<open>Envelope.from_message\<close>, for a value \<open>v\<close> of the class \<open>c\<close>.\<close>

definition payload_for :: "heap \<Rightarrow> (class_id \<Rightarrow> class_id \<Rightarrow> bool) \<Rightarrow> 'o event_world \<Rightarrow> class_id \<Rightarrow> pyvalue \<Rightarrow> json_object result" where
  "payload_for h subclass w c v =
     bindr (get_event_metadata (snd w) c) (\<lambda>(n, ver).
     bindr (resolve_event (fst w) n ver) (\<lambda>registered.
       if subclass c registered then message_to_payload h v else raise MessageValidationError))"

definition from_message ::
  "heap \<Rightarrow> 'o classes \<Rightarrow> class_id \<Rightarrow> pyvalue \<Rightarrow> string \<Rightarrow> civil \<Rightarrow> (json_object, raw_headers) envelope_data \<Rightarrow> string option
   \<Rightarrow> civil option \<Rightarrow> pyfloat option \<Rightarrow> envelope result"
where
  "from_message h cs c v fresh_id now d mid timestamp ttl =
     bindr (get_event_metadata cs c) (\<lambda>(n, ver).
     bindr (message_to_payload h v) (\<lambda>p.
       create_envelope (\<lambda>kvs. Inr (JObj kvs)) fresh_id now (d\<lparr>en_type := n, en_version := ver, en_payload := p\<rparr>) mid timestamp ttl))"

definition declare_event ::
  "class_id \<Rightarrow> string \<Rightarrow> int \<Rightarrow> bool \<Rightarrow> 'o event_world \<Rightarrow> unit result \<times> 'o event_world"
where
  "declare_event c name version enter w =
     (case attach_metadata c name version (snd w) of
        (Inl e, cs) \<Rightarrow> (Inl e, (fst w, cs))
      | (Inr _, cs) \<Rightarrow> if enter then register_event c None None False (fst w, cs) else (Inr (), (fst w, cs)))"

subsection \<open>Reachable registries\<close>

inductive registry_reachable :: "'o classes \<Rightarrow> 'o event_world \<Rightarrow> bool" for cs where
  created: "registry_reachable cs (new_event_registry, cs)"
| registered: "registry_reachable cs w \<Longrightarrow> registry_reachable cs (snd (register_event c n v replace w))"
| declared: "registry_reachable cs w \<Longrightarrow> registry_reachable cs (snd (declare_event c n v enter w))"
| unregistered: "registry_reachable cs w \<Longrightarrow> registry_reachable cs (snd (unregister_event n v (fst w)), snd w)"
| upcaster_added: "registry_reachable cs w \<Longrightarrow> registry_reachable cs (snd (register_upcaster n v t f replace (fst w)), snd w)"

text \<open>A class whose metadata is set has the same name and version as attributes.\<close>

definition class_ok :: "'o classes \<Rightarrow> class_id \<Rightarrow> bool" where
  "class_ok cs c \<longleftrightarrow>
     (\<forall>n v owner. ec_metadata (cs c) = Some (n, v, owner) \<longrightarrow>
        owner = c \<and> ec_name (cs c) = Some (PV_Str n) \<and> ec_version (cs c) = Some (PV_Int v) \<and> event_name_ok n \<and> 1 \<le> v)"

definition forward_only :: "event_registry \<Rightarrow> bool" where
  "forward_only r \<longleftrightarrow> (\<forall>n v u. dict_get (er_upcasters r) (n, v) = Some u \<longrightarrow> v < uc_target u)"

definition world_ok :: "'o event_world \<Rightarrow> bool" where
  "world_ok w \<longleftrightarrow>
     forward_only (fst w) \<and> (\<forall>c. class_ok (snd w) c)
     \<and> (\<forall>k c. dict_get (er_events (fst w)) k = Some c \<longrightarrow> get_event_metadata (snd w) c = Inr k)"

lemma validate_identity_Inr: "validate_event_identity n v = Inr u \<longleftrightarrow> event_name_ok n \<and> 1 \<le> v"
  by (auto simp: validate_event_identity_def)

lemma new_event_key_Inr: "new_event_key n v = Inr k \<longleftrightarrow> k = (n, v) \<and> event_name_ok n \<and> 1 \<le> v"
  by (auto simp: new_event_key_def bindr_eq_Inr validate_identity_Inr)

lemma new_event_key_ok: "event_name_ok n \<Longrightarrow> 1 \<le> v \<Longrightarrow> new_event_key n v = Inr (n, v)"
  by (simp add: new_event_key_Inr)

lemma metadata_of_attributes:
  assumes "class_ok cs c"
  shows "get_event_metadata cs c =
    (case (ec_name (cs c), ec_version (cs c)) of (Some (PV_Str n), Some (PV_Int v)) \<Rightarrow> new_event_key n v
     | _ \<Rightarrow> raise MessageValidationError)"
proof (cases "ec_metadata (cs c)")
  case (Some m)
  obtain n v owner where "m = (n, v, owner)" by (rule prod_cases3)
  with Some assms show ?thesis by (auto simp: class_ok_def get_event_metadata_def new_event_key_ok)
qed (simp add: get_event_metadata_def)

lemma metadata_cong:
  assumes "cs' d = cs d"
  shows "get_event_metadata cs' d = get_event_metadata cs d"
  unfolding get_event_metadata_def assms by (rule refl)

lemma attach_keeps:
  assumes run: "attach_metadata c n v cs = (r, cs')" and ok: "\<forall>c. class_ok cs c"
  shows "(\<forall>c. class_ok cs' c) \<and> (r = Inr () \<longrightarrow> get_event_metadata cs' c = Inr (n, v))
    \<and> (\<forall>d k. get_event_metadata cs d = Inr k \<longrightarrow> get_event_metadata cs' d = Inr k)"
proof (cases "cs' = cs \<and> r \<noteq> Inr ()")
  case False
  with run have valid: "event_name_ok n" "1 \<le> v" and r: "r = Inr ()"
    and cs': "cs' = cs(c := (cs c)\<lparr>ec_name := Some (PV_Str n), ec_version := Some (PV_Int v), ec_metadata := Some (n, v, c)\<rparr>)"
    and free: "\<not> ((present (ec_name (cs c)) \<or> present (ec_version (cs c)))
             \<and> (ec_name (cs c) \<noteq> Some (PV_Str n) \<or> ec_version (cs c) \<noteq> Some (PV_Int v)))"
    by (auto simp: attach_metadata_def validate_identity_Inr split: sum.splits if_splits)
  have ok': "class_ok cs' d" for d using ok valid by (simp add: class_ok_def cs')
  have here: "get_event_metadata cs' c = Inr (n, v)"
    using valid by (simp add: metadata_of_attributes [OF ok'] new_event_key_Inr) (simp add: cs' new_event_key_Inr valid)
  have "get_event_metadata cs' d = Inr k" if old: "get_event_metadata cs d = Inr k" for d k
  proof (cases "d = c")
    case True
    have "ec_name (cs c) = Some (PV_Str (fst k))" "ec_version (cs c) = Some (PV_Int (snd k))"
      using old True metadata_of_attributes [of cs c] ok by (auto simp: new_event_key_Inr split: option.splits pyvalue.splits)
    with free have "k = (n, v)" by (cases k) (auto simp: present_def)
    with here True show ?thesis by simp
  next
    case False
    with old show ?thesis using metadata_cong [of cs' d cs] by (simp add: cs')
  qed
  with ok' here show ?thesis by blast
qed (use ok in auto)

lemma enter_keeps:
  assumes "enter_event k c replace w = (r, w')" and "world_ok w" and "get_event_metadata (snd w) c = Inr k"
  shows "world_ok w'"
  using assms by (auto simp: enter_event_def world_ok_def forward_only_def split: option.splits if_splits)

lemma world_ok_attach:
  assumes "attach_metadata c n v (snd w) = (r, cs')" and "world_ok w"
  shows "world_ok (fst w, cs') \<and> (r = Inr () \<longrightarrow> get_event_metadata cs' c = Inr (n, v))"
  using attach_keeps [OF assms(1)] assms(2) by (simp add: world_ok_def)

lemma register_keeps:
  assumes "world_ok w"
  shows "world_ok (snd (register_event c n v replace w))"
proof -
  obtain r w' where run: "register_event c n v replace w = (r, w')" by (rule prod.exhaust)
  show ?thesis
  proof (cases "n = None \<and> v = None")
    case True
    then consider "w' = w" | k where "get_event_metadata (snd w) c = Inr k" "enter_event k c replace w = (r, w')"
      using run by (auto simp: register_event_def new_event_key_Inr split: sum.splits prod.splits)
    then show ?thesis using assms enter_keeps [of _ c replace w r w'] run by cases auto
  next
    case False
    show ?thesis
    proof (cases "\<exists>x y. n = Some x \<and> v = Some y")
      case True
      then obtain x y where nv: "n = Some x" "v = Some y" by blast
      obtain q cs' where a: "attach_metadata c x y (snd w) = (q, cs')" by (rule prod.exhaust)
      from world_ok_attach [OF a assms] have ok: "world_ok (fst w, cs')" and meta: "q = Inr () \<Longrightarrow> get_event_metadata cs' c = Inr (x, y)"
        by simp_all
      from run nv a consider "w' = (fst w, cs')" | "q = Inr ()" "enter_event (x, y) c replace (fst w, cs') = (r, w')"
        by (auto simp: register_event_def new_event_key_Inr split: sum.splits)
      then show ?thesis using ok meta enter_keeps [of "(x, y)" c replace "(fst w, cs')" r w'] run by cases auto
    next
      case neither: False
      with False run have "w' = w" by (auto simp: register_event_def split: option.splits)
      with assms run show ?thesis by simp
    qed
  qed
qed

lemma reachable_ok:
  assumes "registry_reachable cs w" and "\<And>c. ec_metadata (cs c) = None"
  shows "world_ok w"
  using assms(1)
proof (induction rule: registry_reachable.induct)
  case created
  show ?case using assms(2) by (simp add: world_ok_def new_event_registry_def forward_only_def class_ok_def)
next
  case (registered w c n v replace)
  from register_keeps [OF registered.IH] show ?case .
next
  case (declared w c n v enter)
  obtain q cs' where a: "attach_metadata c n v (snd w) = (q, cs')" by (rule prod.exhaust)
  from world_ok_attach [OF a declared.IH] a register_keeps [of "(fst w, cs')"] show ?case
    by (auto simp: declare_event_def split: sum.split)
next
  case (unregistered w n v)
  then show ?case
    by (auto simp: unregister_event_def world_ok_def forward_only_def split: sum.split)
next
  case (upcaster_added w n v t f replace)
  then show ?case
    by (auto simp: register_upcaster_def world_ok_def forward_only_def split: sum.split)
qed

subsection \<open>Upcasting\<close>

inductive upcasts :: "heap \<Rightarrow> event_registry \<Rightarrow> string \<Rightarrow> int \<times> json_object \<Rightarrow> int \<times> json_object \<Rightarrow> bool"
  for h r name
where
  upcasts_refl: "upcasts h r name s s"
| upcasts_step:
    "dict_get (er_upcasters r) (name, v) = Some u \<Longrightarrow> upcast_once h u p = Inr q
     \<Longrightarrow> upcasts h r name (uc_target u, q) s \<Longrightarrow> upcasts h r name (v, p) s"

inductive_cases upcasts_elim: "upcasts h r name (v, p) s"

lemma upcasts_forward: "upcasts h r name s t \<Longrightarrow> forward_only r \<Longrightarrow> fst s \<le> fst t"
  by (induction rule: upcasts.induct) (fastforce simp: forward_only_def)+

definition upcast_error :: "pyexc \<Rightarrow> bool" where
  "upcast_error e \<longleftrightarrow> exc_cls e \<in> {EventRegistrationError, MessageValidationError} \<or> \<not> is_exception e"

lemma upcast_once_error: "upcast_once h u p = Inl e \<Longrightarrow> upcast_error e"
  by (auto simp: upcast_once_def object_of_def wrap_validation_def upcast_error_def split: sum.splits if_splits json.splits)

lemma upcast_loop_path:
  "upcasts h r name s s' \<Longrightarrow> forward_only r \<Longrightarrow> upcast_loop h r name (fst s') (fst s) (snd s) = Some (Inr (snd s'))"
proof (induction rule: upcasts.induct)
  case (upcasts_refl s)
  then show ?case by (subst upcast_loop.simps) simp
next
  case (upcasts_step v u p q s)
  then have "v < uc_target u" "uc_target u \<le> fst s" using upcasts_forward by (fastforce simp: forward_only_def)+
  with upcasts_step show ?case by (subst upcast_loop.simps) simp
qed

lemma upcast_loop_total:
  assumes "forward_only r"
  shows "\<exists>out. upcast_loop h r name t v p = Some out
    \<and> (case out of Inr q \<Rightarrow> v \<le> t \<longrightarrow> upcasts h r name (v, p) (t, q) | Inl e \<Rightarrow> upcast_error e)"
proof (induction "nat (t - v)" arbitrary: v p rule: less_induct)
  case less
  note unfolded = upcast_loop.simps [of h r name t v p]
  consider (reached) "t \<le> v" | (none) "v < t" "dict_get (er_upcasters r) (name, v) = None"
    | (past) u where "v < t" "dict_get (er_upcasters r) (name, v) = Some u" "t < uc_target u"
    | (step) u where "v < t" "dict_get (er_upcasters r) (name, v) = Some u" "uc_target u \<le> t"
    by (meson not_le option.exhaust)
  then show ?case
  proof cases
    case reached
    then show ?thesis using unfolded upcasts_refl [of h r name "(v, p)"] by auto
  next
    case none
    then show ?thesis using unfolded by (simp add: upcast_error_def)
  next
    case past
    then show ?thesis using unfolded by (simp add: upcast_error_def)
  next
    case step
    from assms step have up: "v < uc_target u" by (auto simp: forward_only_def)
    show ?thesis
    proof (cases "upcast_once h u p")
      case (Inl e)
      with step unfolded upcast_once_error [OF Inl] show ?thesis by simp
    next
      case (Inr q')
      from step up have "nat (t - uc_target u) < nat (t - v)" by simp
      from less.hyps [OF this, of q'] obtain out where out: "upcast_loop h r name t (uc_target u) q' = Some out"
        and spec: "case out of Inr q \<Rightarrow> uc_target u \<le> t \<longrightarrow> upcasts h r name (uc_target u, q') (t, q) | Inl e \<Rightarrow> upcast_error e"
        by blast
      have "upcast_loop h r name t v p = Some out" using step Inr out unfolded by simp
      moreover have "case out of Inr q \<Rightarrow> v \<le> t \<longrightarrow> upcasts h r name (v, p) (t, q) | Inl e \<Rightarrow> upcast_error e"
        using spec step(3) upcasts_step [OF step(2) Inr] by (cases out) simp_all
      ultimately show ?thesis by blast
    qed
  qed
qed

subsection \<open>Properties\<close>

text \<open>
  C32: reconstruction always ends, and upcasts exactly. In a registry built by its own operations upcasters only lead to
  later versions, so \<open>reconstruct\<close> returns or raises; it returns an object if and only if the identity is valid, the target is not
  an earlier version, the payload is an object, registered upcasters lead step by step from the wire version to exactly the target,
  and the class registered there constructs that object from the payload they computed.
\<close>

theorem reconstruct_exact:
  assumes "registry_reachable cs w" and "\<And>c. ec_metadata (cs c) = None"
    and "t = (case target of None \<Rightarrow> version | Some x \<Rightarrow> x)"
  shows "\<exists>out. reconstruct h w name version normalized target = Some out
    \<and> (\<forall>x. out = Inr x \<longleftrightarrow>
         event_name_ok name \<and> 1 \<le> version \<and> version \<le> t
         \<and> (\<exists>p q c. normalized = Inr (JObj p) \<and> upcasts h (fst w) name (version, p) (t, q)
              \<and> dict_get (er_events (fst w)) (name, t) = Some c \<and> ec_construct (snd w c) q = Inr x))"
proof -
  have fwd: "forward_only (fst w)" using reachable_ok [OF assms(1,2)] by (simp add: world_ok_def)
  have construct: "construct_event (snd w) c q = Inr x \<longleftrightarrow> ec_construct (snd w c) q = Inr x" for c q x
    by (auto simp: construct_event_def split: sum.split)
  have resolve: "bindr (resolve_event (fst w) name t) f = Inr x
      \<longleftrightarrow> (\<exists>c. event_name_ok name \<and> 1 \<le> t \<and> dict_get (er_events (fst w)) (name, t) = Some c \<and> f c = Inr x)" for f x
    by (auto simp: resolve_event_def bindr_eq_Inr new_event_key_Inr split: option.splits)
  show ?thesis
  proof (cases "event_name_ok name \<and> 1 \<le> version \<and> version \<le> t \<and> (\<exists>p. normalized = Inr (JObj p))")
    case False
    then show ?thesis
      by (auto simp: reconstruct_def assms(3) Let_def validate_event_identity_def object_of_def split: sum.splits json.splits option.splits)
  next
    case True
    then obtain p where p: "normalized = Inr (JObj p)" by blast
    obtain out where loop: "upcast_loop h (fst w) name t version p = Some out"
      and spec: "case out of Inr q \<Rightarrow> version \<le> t \<longrightarrow> upcasts h (fst w) name (version, p) (t, q) | Inl e \<Rightarrow> upcast_error e"
      using upcast_loop_total [OF fwd] by blast
    have path: "out = Inr q" if "upcasts h (fst w) name (version, p) (t, q)" for q
      using upcast_loop_path [OF that fwd] loop by simp
    have rec: "reconstruct h w name version normalized target
        = Some (case out of Inl e \<Rightarrow> Inl e | Inr q \<Rightarrow> bindr (resolve_event (fst w) name t) (\<lambda>c. construct_event (snd w) c q))"
      using True loop p by (cases out) (simp_all add: reconstruct_def assms(3) [symmetric] validate_event_identity_def object_of_def)
    let ?paths = "\<lambda>x. \<exists>q c. upcasts h (fst w) name (version, p) (t, q)
        \<and> dict_get (er_events (fst w)) (name, t) = Some c \<and> ec_construct (snd w c) q = Inr x"
    have main: "(case out of Inl e \<Rightarrow> Inl e | Inr q \<Rightarrow> bindr (resolve_event (fst w) name t) (\<lambda>c. construct_event (snd w) c q)) = Inr x
        \<longleftrightarrow> ?paths x" for x
    proof (cases out)
      case (Inl e)
      with path have "\<not> ?paths x" by blast
      with Inl show ?thesis by simp
    next
      case (Inr q)
      with spec True have "upcasts h (fst w) name (version, p) (t, q)" by simp
      moreover have "q' = q" if "upcasts h (fst w) name (version, p) (t, q')" for q' using path [OF that] Inr by simp
      moreover have "event_name_ok name" "1 \<le> t" using True by simp_all
      ultimately have "?paths x \<longleftrightarrow> (\<exists>c. dict_get (er_events (fst w)) (name, t) = Some c \<and> ec_construct (snd w c) q = Inr x)"
        by blast
      with Inr \<open>event_name_ok name\<close> \<open>1 \<le> t\<close> show ?thesis by (simp add: resolve construct)
    qed
    have "event_name_ok name \<and> 1 \<le> version \<and> version \<le> t
         \<and> (\<exists>p q c. normalized = Inr (JObj p) \<and> upcasts h (fst w) name (version, p) (t, q)
              \<and> dict_get (er_events (fst w)) (name, t) = Some c \<and> ec_construct (snd w c) q = Inr x) \<longleftrightarrow> ?paths x" for x
      using True unfolding p by simp
    with main show ?thesis unfolding rec by simp
  qed
qed

definition order_classes :: "json_object classes" where
  "order_classes c = \<lparr>ec_name = None, ec_version = None, ec_metadata = None, ec_writable = True, ec_construct = Inr\<rparr>"

definition order_heap :: heap where
  "order_heap a = (if a = 0 then sample_mapping [(''total'', PV_Int 0)] else opaque)"

text \<open>The third version of an event is the class 7, and an upcaster leads from the first to it.\<close>

definition order_registry :: "json_object event_world" where
  "order_registry =
     (let w = snd (register_event 7 (Some ''order'') (Some 3) False (new_event_registry, order_classes))
      in (snd (register_upcaster ''order'' 1 3 (\<lambda>_. Inr (PV_Ref 0)) False (fst w)), snd w))"

lemma order_registry_reachable: "registry_reachable order_classes order_registry"
  unfolding order_registry_def Let_def by (intro registry_reachable.intros)

lemma order_classes_fresh: "ec_metadata (order_classes c) = None"
  by (simp add: order_classes_def)

theorem reconstruct_exact_witness:
  "reconstruct order_heap order_registry ''order'' 1 (Inr (JObj [])) (Some 3) = Some (Inr [(''total'', JInt 0)])"
proof -
  have "dict_get (er_upcasters (fst order_registry)) (''order'', 1) = Some \<lparr>uc_target = 3, uc_transform = (\<lambda>_. Inr (PV_Ref 0))\<rparr>"
    by (simp add: order_registry_def Let_def register_upcaster_def register_event_def new_event_registry_def
        validate_event_identity_def event_name_ok_def is_alnum_def dict_has_def attach_metadata_def new_event_key_def
        enter_event_def order_classes_def present_def)
  moreover have "upcast_once order_heap \<lparr>uc_target = 3, uc_transform = (\<lambda>_. Inr (PV_Ref 0))\<rparr> [] = Inr [(''total'', JInt 0)]"
    by code_simp
  ultimately have path: "upcasts order_heap (fst order_registry) ''order'' (1, []) (3, [(''total'', JInt 0)])"
    by (rule upcasts_step) (simp add: upcasts_refl)
  have events: "dict_get (er_events (fst order_registry)) (''order'', 3) = Some 7" by code_simp
  have built: "ec_construct (snd order_registry 7) [(''total'', JInt 0)] = Inr [(''total'', JInt 0)]" by code_simp
  have name: "event_name_ok ''order''" by code_simp
  obtain out where run: "reconstruct order_heap order_registry ''order'' 1 (Inr (JObj [])) (Some 3) = Some out"
    and exact: "\<And>x. out = Inr x \<longleftrightarrow> event_name_ok ''order'' \<and> 1 \<le> (1::int) \<and> 1 \<le> (3::int)
         \<and> (\<exists>p q c. Inr (JObj []) = (Inr (JObj p) :: json result) \<and> upcasts order_heap (fst order_registry) ''order'' (1, p) (3, q)
              \<and> dict_get (er_events (fst order_registry)) (''order'', 3) = Some c \<and> ec_construct (snd order_registry c) q = Inr x)"
    using reconstruct_exact [OF order_registry_reachable order_classes_fresh, of 3 1 "Some 3" order_heap "''order''" "Inr (JObj [])"]
    by auto
  have "out = Inr [(''total'', JInt 0)]" unfolding exact
    by (intro conjI exI [of _ "[]"] exI [of _ "[(''total'', JInt 0)]"] exI [of _ 7]) (simp_all add: name path events built)
  with run show ?thesis by simp
qed

text \<open>
  C33: what is published as an event class comes back as that class. When a class was registered, through any history of
  registrations, under a name and version, an envelope made from an instance carries exactly that name and version and the payload of the
  instance, and \<open>to_message\<close> gives that payload to the constructor of this class and of no other.
\<close>

theorem event_identity_roundtrip:
  assumes "registry_reachable cs w" and "\<And>c. ec_metadata (cs c) = None"
    and "resolve_event (fst w) n v = Inr c"
    and "from_message h (snd w) c value fresh_id now d mid timestamp ttl = Inr e"
  shows "en_type e = n \<and> en_version e = v \<and> message_to_payload h value = Inr (en_payload e)
    \<and> to_message h w e None = Some (construct_event (snd w) c (en_payload e))"
proof -
  from assms(3) have key: "event_name_ok n" "1 \<le> v" "dict_get (er_events (fst w)) (n, v) = Some c"
    by (auto simp: resolve_event_def bindr_eq_Inr new_event_key_Inr split: option.splits)
  with reachable_ok [OF assms(1,2)] have "get_event_metadata (snd w) c = Inr (n, v)" by (simp add: world_ok_def)
  with assms(4) obtain p where p: "message_to_payload h value = Inr p"
    and run: "create_envelope (\<lambda>kvs. Inr (JObj kvs)) fresh_id now (d\<lparr>en_type := n, en_version := v, en_payload := p\<rparr>) mid timestamp ttl = Inr e"
    by (auto simp: from_message_def bindr_eq_Inr)
  from run have e: "en_type e = n" "en_version e = v" "en_payload e = p"
    by (auto simp: create_envelope_def post_init_def refit_def object_of_Inr Let_def split: sum.splits if_splits)
  have "upcast_loop h (fst w) n v v p = Some (Inr p)" by (subst upcast_loop.simps) simp
  then have "to_message h w e None = Some (construct_event (snd w) c p)"
    using e key assms(3) by (simp add: to_message_def reconstruct_def validate_event_identity_def object_of_def)
  with e p show ?thesis by simp
qed

theorem event_identity_roundtrip_witness:
  "(case from_message order_heap (snd order_registry) 7 (PV_Ref 0) ''m1'' made_at (sample_data [] [] [] made_at) None None None of
      Inl x \<Rightarrow> False
    | Inr e \<Rightarrow> to_message order_heap order_registry e None = Some (Inr [(''total'', JInt 0)]))"
proof -
  let ?made = "from_message order_heap (snd order_registry) 7 (PV_Ref 0) ''m1'' made_at (sample_data [] [] [] made_at) None None None"
  have "is_ok ?made" by code_simp
  then obtain e where e: "?made = Inr e" unfolding is_ok_iff by blast
  have c: "resolve_event (fst order_registry) ''order'' 3 = Inr 7" by code_simp
  have "message_to_payload order_heap (PV_Ref 0) = Inr [(''total'', JInt 0)]" by code_simp
  with event_identity_roundtrip [OF order_registry_reachable order_classes_fresh c e]
  have "to_message order_heap order_registry e None = Some (construct_event (snd order_registry) 7 [(''total'', JInt 0)])" by simp
  moreover have "construct_event (snd order_registry) 7 [(''total'', JInt 0)] = Inr [(''total'', JInt 0)]" by code_simp
  ultimately show ?thesis unfolding e by simp
qed

end
