(* ===== verification/Configuration.thy ===== *)
theory Configuration
  imports Payloads
begin

text \<open>
  \<open>broka/config.py\<close>: configuration data, its secrets, its layers and the environment. Values are what \<open>_freeze\<close>,
  \<open>redact\<close> and \<open>deep_merge\<close> distinguish; the keys of mappings are strings, so \<open>str(key)\<close> is the key. The text of a value that is
  not a string (\<open>str\<close>), the URL parser of the standard library and the JSON parser are parameters. Case folding is that of
  the characters 0 to 255.
\<close>

datatype config_value =
    C_None | C_Bool bool | C_Int int | C_Float pyfloat | C_Str string | C_Secret string
  | C_List "config_value list" | C_Tuple "config_value list"
  | C_Set "config_value list" | C_Frozenset "config_value list"
  | C_Map "(string \<times> config_value) list" | C_Object nat

type_synonym config_map = "(string, config_value) dict"

subsection \<open>Keys\<close>

definition fold_char :: "char \<Rightarrow> string" where
  "fold_char c =
     (let n = of_char c :: nat in
      if n = 223 then ''ss''
      else if 65 \<le> n \<and> n \<le> 90 \<or> 192 \<le> n \<and> n \<le> 222 \<and> n \<noteq> 215 then [char_of (n + 32)] else [c])"

definition casefold :: "string \<Rightarrow> string" where
  "casefold s = concat (map fold_char s)"

text \<open>\<open>str.lower\<close> leaves the sharp s.\<close>

definition lower_text :: "string \<Rightarrow> string" where
  "lower_text s = concat (map (\<lambda>c. if of_char c = (223 :: nat) then [c] else fold_char c) s)"

text \<open>\<open>re.split\<close> by a class of characters: the pieces between them, empty ones included.\<close>

fun split_by :: "(char \<Rightarrow> bool) \<Rightarrow> string \<Rightarrow> string list" where
  "split_by p [] = [[]]"
| "split_by p (c # cs) =
     (if p c then [] # split_by p cs
      else case split_by p cs of [] \<Rightarrow> [[c]] | w # ws \<Rightarrow> (c # w) # ws)"

definition secret_key_parts :: "string list" where
  "secret_key_parts =
     [''authorization'', ''credential'', ''credentials'', ''password'', ''passwd'', ''private_key'', ''secret'',
      ''secret_key'', ''token'', ''api_key'', ''access_key'']"

definition is_secret_key :: "string \<Rightarrow> bool" where
  "is_secret_key key =
     (let k = map (\<lambda>c. if c = CHR ''-'' then CHR ''_'' else c) (casefold key) in
      k \<in> set secret_key_parts
      \<or> list_ex (\<lambda>part. part \<noteq> [] \<and> part \<in> set secret_key_parts) (split_by (\<lambda>c. c \<in> set ''._'') k))"

definition secret_field :: "string option \<Rightarrow> config_value \<Rightarrow> bool" where
  "secret_field key v \<longleftrightarrow> (case key of None \<Rightarrow> False | Some k \<Rightarrow> is_secret_key k \<and> v \<noteq> C_None)"

subsection \<open>Freezing, revealing, redacting\<close>

definition text_of :: "(config_value \<Rightarrow> string) \<Rightarrow> config_value \<Rightarrow> string" where
  "text_of str v = (case v of C_Str s \<Rightarrow> s | _ \<Rightarrow> str v)"

text \<open>What stands under a secret key becomes a secret, unless it is \<open>None\<close>.\<close>

definition sealed :: "(config_value \<Rightarrow> string) \<Rightarrow> string option \<Rightarrow> config_value \<Rightarrow> config_value \<Rightarrow> config_value" where
  "sealed str key v w = (if secret_field key v then C_Secret (text_of str v) else w)"

fun freeze :: "(config_value \<Rightarrow> string) \<Rightarrow> string option \<Rightarrow> config_value \<Rightarrow> config_value" where
  "freeze str key (C_Secret s) = C_Secret s"
| "freeze str key (C_Map kvs) =
     sealed str key (C_Map kvs) (C_Map (map (\<lambda>kv. (fst kv, freeze str (Some (fst kv)) (snd kv))) kvs))"
| "freeze str key (C_List xs) = sealed str key (C_List xs) (C_Tuple (map (freeze str None) xs))"
| "freeze str key (C_Tuple xs) = sealed str key (C_Tuple xs) (C_Tuple (map (freeze str None) xs))"
| "freeze str key (C_Set xs) = sealed str key (C_Set xs) (C_Frozenset (map (freeze str None) xs))"
| "freeze str key (C_Frozenset xs) = sealed str key (C_Frozenset xs) (C_Frozenset (map (freeze str None) xs))"
| "freeze str key v = sealed str key v v"

fun reveal_secret :: "config_value \<Rightarrow> config_value" where
  "reveal_secret (C_Secret s) = C_Str s"
| "reveal_secret (C_Map kvs) = C_Map (map (\<lambda>kv. (fst kv, reveal_secret (snd kv))) kvs)"
| "reveal_secret (C_Tuple xs) = C_List (map reveal_secret xs)"
| "reveal_secret (C_Frozenset xs) = C_List (map reveal_secret xs)"
| "reveal_secret v = v"

text \<open>\<open>_redact_url\<close>, on what \<open>urlsplit\<close> makes of the text.\<close>

record url_parts =
  up_scheme :: string
  up_hostname :: "string option"
  up_username :: "string option"
  up_port :: "string option result"
  up_path :: string
  up_query :: string
  up_fragment :: string

definition asterisks :: string where
  "asterisks = ''********''"

definition urlunsplit :: "string \<Rightarrow> string \<Rightarrow> url_parts \<Rightarrow> string" where
  "urlunsplit scheme netloc u =
     scheme @ ''://'' @ netloc @ (if up_path u \<noteq> [] \<and> hd (up_path u) \<noteq> CHR ''/'' then ''/'' else []) @ up_path u
     @ (if up_query u = [] then [] else ''?'' @ up_query u) @ (if up_fragment u = [] then [] else ''#'' @ up_fragment u)"

definition credential_url :: "url_parts \<Rightarrow> string option result" where
  "credential_url u =
     (case (up_hostname u, up_username u) of
        (Some host, Some user) \<Rightarrow>
          if up_scheme u = [] then Inr None
          else (let h = (if CHR '':'' \<in> set host \<and> hd host \<noteq> CHR ''['' then ''['' @ host @ '']'' else host) in
                case up_port u of
                  Inl e \<Rightarrow> Inl e
                | Inr port \<Rightarrow>
                    Inr (Some (urlunsplit (up_scheme u) (asterisks @ ''@'' @ h @ (case port of None \<Rightarrow> [] | Some p \<Rightarrow> '':'' @ p)) u)))
      | _ \<Rightarrow> Inr None)"

text \<open>The text before and after the first occurrence of a separator.\<close>

fun split_at :: "string \<Rightarrow> string \<Rightarrow> (string \<times> string) option" where
  "split_at sep [] = (if sep = [] then Some ([], []) else None)"
| "split_at sep (c # cs) =
     (if take (length sep) (c # cs) = sep then Some ([], drop (length sep) (c # cs))
      else case split_at sep cs of None \<Rightarrow> None | Some (a, b) \<Rightarrow> Some (c # a, b))"

definition redact_url :: "(string \<Rightarrow> url_parts result) \<Rightarrow> string \<Rightarrow> string" where
  "redact_url urlsplit s =
     (case bindr (urlsplit s) credential_url of
        Inr None \<Rightarrow> s
      | Inr (Some t) \<Rightarrow> t
      | Inl e \<Rightarrow>
          (case split_at ''://'' s of
             Some (scheme, remainder) \<Rightarrow>
               if CHR ''@'' \<in> set s
               then scheme @ ''://'' @ asterisks @ ''@'' @ rev (takeWhile (\<lambda>c. c \<noteq> CHR ''@'') (rev remainder))
               else s
           | None \<Rightarrow> s))"

text \<open>\<open>redact\<close>; \<open>clean\<close> is \<open>_redact_url\<close>.\<close>

definition covered :: "string option \<Rightarrow> config_value \<Rightarrow> config_value \<Rightarrow> config_value" where
  "covered key v w = (if secret_field key v then C_Str asterisks else w)"

fun redact :: "(string \<Rightarrow> string) \<Rightarrow> string option \<Rightarrow> config_value \<Rightarrow> config_value" where
  "redact clean key (C_Secret s) = C_Str asterisks"
| "redact clean key (C_Map kvs) =
     covered key (C_Map kvs) (C_Map (map (\<lambda>kv. (fst kv, redact clean (Some (fst kv)) (snd kv))) kvs))"
| "redact clean key (C_List xs) = covered key (C_List xs) (C_List (map (redact clean None) xs))"
| "redact clean key (C_Tuple xs) = covered key (C_Tuple xs) (C_List (map (redact clean None) xs))"
| "redact clean key (C_Set xs) = covered key (C_Set xs) (C_List (map (redact clean None) xs))"
| "redact clean key (C_Frozenset xs) = covered key (C_Frozenset xs) (C_List (map (redact clean None) xs))"
| "redact clean key (C_Str s) = covered key (C_Str s) (C_Str (clean s))"
| "redact clean key v = covered key v v"

text \<open>The recursive calls on the items of a \<open>FrozenMapping\<close>.\<close>

definition frozen_mapping :: "(config_value \<Rightarrow> string) \<Rightarrow> config_map \<Rightarrow> config_map" where
  "frozen_mapping str m = map (\<lambda>kv. (fst kv, freeze str (Some (fst kv)) (snd kv))) m"

definition revealed_dict :: "config_map \<Rightarrow> config_map" where
  "revealed_dict m = map (\<lambda>kv. (fst kv, reveal_secret (snd kv))) m"

definition redacted_dict :: "(string \<Rightarrow> string) \<Rightarrow> config_map \<Rightarrow> config_map" where
  "redacted_dict clean m = map (\<lambda>kv. (fst kv, redact clean (Some (fst kv)) (snd kv))) m"

definition as_dict :: "(string \<Rightarrow> string) \<Rightarrow> bool \<Rightarrow> config_map \<Rightarrow> config_map" where
  "as_dict clean reveal_secrets m = (if reveal_secrets then revealed_dict m else redacted_dict clean m)"

subsection \<open>Paths and layers\<close>

fun is_mapping :: "config_value \<Rightarrow> bool" where
  "is_mapping (C_Map m) = True"
| "is_mapping v = False"

fun walk :: "config_value \<Rightarrow> string list \<Rightarrow> config_value option" where
  "walk v [] = Some v"
| "walk v (p # ps) =
     (case v of
        C_Map m \<Rightarrow> (case dict_get m p of None \<Rightarrow> None | Some x \<Rightarrow> walk x ps)
      | _ \<Rightarrow> None)"

definition get_path :: "config_map \<Rightarrow> string list \<Rightarrow> config_value \<Rightarrow> config_value" where
  "get_path m parts otherwise = (case walk (C_Map m) parts of None \<Rightarrow> otherwise | Some v \<Rightarrow> v)"

definition path_parts :: "string \<Rightarrow> string list" where
  "path_parts path = split_by (\<lambda>c. c = CHR ''.'') path"

text \<open>
  The inner loop of \<open>deep_merge\<close>. The nested call starts from an empty dictionary and puts the current mapping there first,
  which copies it.
\<close>

fun merge_value :: "config_value option \<Rightarrow> config_value \<Rightarrow> config_value" where
  "merge_value current (C_Map m) =
     (case current of
        Some (C_Map cur) \<Rightarrow> C_Map (fold (\<lambda>kv r. dict_set (fst kv) (merge_value (dict_get r (fst kv)) (snd kv)) r) m cur)
      | _ \<Rightarrow> C_Map m)"
| "merge_value current v = v"

definition merge_source :: "config_map \<Rightarrow> config_map \<Rightarrow> config_map" where
  "merge_source source result = fold (\<lambda>kv r. dict_set (fst kv) (merge_value (dict_get r (fst kv)) (snd kv)) r) source result"

definition deep_merge :: "config_map list \<Rightarrow> config_map" where
  "deep_merge sources = fold merge_source sources []"

subsection \<open>The environment\<close>

definition parse_environment_value :: "(string \<Rightarrow> config_value option) \<Rightarrow> string \<Rightarrow> config_value" where
  "parse_environment_value json_loads s =
     (if strip s = [] then C_Str [] else case json_loads (strip s) of Some v \<Rightarrow> v | None \<Rightarrow> C_Str s)"

text \<open>\<open>str.split('__')\<close>.\<close>

fun split_dunder :: "string \<Rightarrow> string list" where
  "split_dunder [] = [[]]"
| "split_dunder [c] = [[c]]"
| "split_dunder (c # d # cs) =
     (if c = CHR ''_'' \<and> d = CHR ''_'' then [] # split_dunder cs
      else case split_dunder (d # cs) of [] \<Rightarrow> [[c]] | w # ws \<Rightarrow> (c # w) # ws)"

definition variable_path :: "string \<Rightarrow> string \<Rightarrow> string list" where
  "variable_path prefix name =
     map casefold (filter (\<lambda>p. p \<noteq> []) (split_dunder (drop (length prefix) name)))"

text \<open>The walk of \<open>cursor\<close>: a part that is not a dictionary is replaced by an empty one.\<close>

fun set_path :: "string list \<Rightarrow> config_value \<Rightarrow> config_map \<Rightarrow> config_map" where
  "set_path [] v m = m"
| "set_path [p] v m = dict_set p v m"
| "set_path (p # q # ps) v m =
     dict_set p (C_Map (set_path (q # ps) v (case dict_get m p of Some (C_Map inner) \<Rightarrow> inner | _ \<Rightarrow> []))) m"

definition environment_config ::
  "(string \<Rightarrow> config_value option) \<Rightarrow> (string, string) dict \<Rightarrow> string \<Rightarrow> config_map"
where
  "environment_config json_loads env prefix =
     fold (\<lambda>(name, value) m.
         if take (length prefix) name \<noteq> prefix \<or> name = prefix then m
         else set_path (variable_path prefix name) (parse_environment_value json_loads value) m)
       (sort_key fst env) []"

subsection \<open>Two configurations that look the same\<close>

text \<open>
  Values that differ only in what must not be seen: in secrets, in what stands under secret keys, and in the credentials of URLs.
\<close>

inductive looks_same :: "(string \<Rightarrow> string) \<Rightarrow> string option \<Rightarrow> config_value \<Rightarrow> config_value \<Rightarrow> bool" for clean where
  same: "looks_same clean key v v"
| hidden: "secret_field key v \<Longrightarrow> secret_field key w \<Longrightarrow> looks_same clean key v w"
| secrets: "looks_same clean key (C_Secret s) (C_Secret t)"
| texts: "clean s = clean t \<Longrightarrow> looks_same clean key (C_Str s) (C_Str t)"
| mappings: "list_all2 (\<lambda>x y. fst x = fst y \<and> looks_same clean (Some (fst x)) (snd x) (snd y)) m m'
    \<Longrightarrow> looks_same clean key (C_Map m) (C_Map m')"
| lists: "list_all2 (looks_same clean None) xs ys \<Longrightarrow> looks_same clean key (C_List xs) (C_List ys)"
| tuples: "list_all2 (looks_same clean None) xs ys \<Longrightarrow> looks_same clean key (C_Tuple xs) (C_Tuple ys)"

lemma redact_hidden: "secret_field key v \<Longrightarrow> redact clean key (freeze str key v) = C_Str asterisks"
  by (cases v) (auto simp: sealed_def covered_def secret_field_def split: option.splits)

lemma list_all2_redacted:
  assumes "list_all2 (\<lambda>x y. f x = g y) xs ys"
  shows "map f xs = map g ys"
  using assms by (induction rule: list_all2_induct) simp_all

lemma redact_looks_same:
  "looks_same clean key v w \<Longrightarrow> redact clean key (freeze str key v) = redact clean key (freeze str key w)"
proof (induction rule: looks_same.induct)
  case (hidden key v w)
  then show ?case by (simp add: redact_hidden)
next
  case (texts s t key)
  then show ?case by (auto simp: sealed_def covered_def secret_field_def split: option.split)
next
  case (mappings m m' key)
  have "map (\<lambda>kv. (fst kv, redact clean (Some (fst kv)) (freeze str (Some (fst kv)) (snd kv)))) m
      = map (\<lambda>kv. (fst kv, redact clean (Some (fst kv)) (freeze str (Some (fst kv)) (snd kv)))) m'"
    by (rule list_all2_redacted, rule list_all2_mono [OF mappings]) auto
  then show ?case by (auto simp: sealed_def covered_def secret_field_def comp_def split: option.split)
next
  case (lists xs ys key)
  have "map (\<lambda>x. redact clean None (freeze str None x)) xs = map (\<lambda>x. redact clean None (freeze str None x)) ys"
    by (rule list_all2_redacted, rule list_all2_mono [OF lists]) auto
  then show ?case by (auto simp: sealed_def covered_def secret_field_def comp_def split: option.split)
next
  case (tuples xs ys key)
  have "map (\<lambda>x. redact clean None (freeze str None x)) xs = map (\<lambda>x. redact clean None (freeze str None x)) ys"
    by (rule list_all2_redacted, rule list_all2_mono [OF tuples]) auto
  then show ?case by (auto simp: sealed_def covered_def secret_field_def comp_def split: option.split)
qed simp_all

definition mappings_look_same :: "(string \<Rightarrow> string) \<Rightarrow> config_map \<Rightarrow> config_map \<Rightarrow> bool" where
  "mappings_look_same clean m m' \<longleftrightarrow> list_all2 (\<lambda>x y. fst x = fst y \<and> looks_same clean (Some (fst x)) (snd x) (snd y)) m m'"

lemma redacted_looks_same:
  assumes "mappings_look_same clean m m'"
  shows "redacted_dict clean (frozen_mapping str m) = redacted_dict clean (frozen_mapping str m')"
  unfolding redacted_dict_def frozen_mapping_def map_map
  by (rule list_all2_redacted, rule list_all2_mono [OF assms [unfolded mappings_look_same_def]])
    (auto dest: redact_looks_same)

subsection \<open>Revealing and freezing again\<close>

text \<open>What \<open>_freeze\<close> makes of values without sets and without secrets outside secret keys.\<close>

fun plain :: "string option \<Rightarrow> config_value \<Rightarrow> bool" where
  "plain key (C_Secret s) = (case key of None \<Rightarrow> False | Some k \<Rightarrow> is_secret_key k)"
| "plain key (C_Map m) = (list_all (\<lambda>kv. plain (Some (fst kv)) (snd kv)) m)"
| "plain key (C_List xs) = list_all (plain None) xs"
| "plain key (C_Tuple xs) = list_all (plain None) xs"
| "plain key (C_Set xs) = False"
| "plain key (C_Frozenset xs) = False"
| "plain key v = True"

fun settled :: "string option \<Rightarrow> config_value \<Rightarrow> bool" where
  "settled key (C_Secret s) = (case key of None \<Rightarrow> False | Some k \<Rightarrow> is_secret_key k)"
| "settled key (C_Map m) = (\<not> secret_field key (C_Map m) \<and> list_all (\<lambda>kv. settled (Some (fst kv)) (snd kv)) m)"
| "settled key (C_List xs) = False"
| "settled key (C_Tuple xs) = (\<not> secret_field key (C_Tuple xs) \<and> list_all (settled None) xs)"
| "settled key (C_Set xs) = False"
| "settled key (C_Frozenset xs) = False"
| "settled key v = (\<not> secret_field key v)"

lemma secret_seal: "secret_field key v \<Longrightarrow> settled key (C_Secret s)"
  by (auto simp: secret_field_def split: option.splits)

lemma freeze_settled: "plain key v \<Longrightarrow> settled key (freeze str key v)"
proof (induction str key v rule: freeze.induct)
  case (2 str key m)
  then show ?case by (auto simp: sealed_def secret_field_def list_all_iff split: option.splits)
next
  case (3 str key xs)
  then show ?case by (auto simp: sealed_def secret_field_def list_all_iff split: option.splits)
next
  case (4 str key xs)
  then show ?case by (auto simp: sealed_def secret_field_def list_all_iff split: option.splits)
qed (auto simp: sealed_def secret_field_def split: option.splits)

lemma freeze_reveal: "settled key v \<Longrightarrow> freeze str key (reveal_secret v) = v"
proof (induction key v rule: settled.induct)
  case (1 key s)
  then show ?case by (auto simp: sealed_def secret_field_def text_of_def split: option.splits)
next
  case (2 key m)
  then have "map (\<lambda>kv. (fst kv, freeze str (Some (fst kv)) (reveal_secret (snd kv)))) m = m"
    by (intro map_idI) (auto simp: list_all_iff)
  with 2(2) show ?case by (auto simp: sealed_def secret_field_def comp_def split: option.splits)
next
  case (4 key xs)
  then have "map (\<lambda>x. freeze str None (reveal_secret x)) xs = xs"
    by (intro map_idI) (auto simp: list_all_iff)
  with 4(2) show ?case by (auto simp: sealed_def secret_field_def comp_def split: option.splits)
qed (auto simp: sealed_def)

definition settled_mapping :: "config_map \<Rightarrow> bool" where
  "settled_mapping m \<longleftrightarrow> list_all (\<lambda>kv. settled (Some (fst kv)) (snd kv)) m"

lemma frozen_settled: "list_all (\<lambda>kv. plain (Some (fst kv)) (snd kv)) m \<Longrightarrow> settled_mapping (frozen_mapping str m)"
  by (auto simp: settled_mapping_def frozen_mapping_def list_all_iff intro: freeze_settled)

lemma frozen_revealed: "settled_mapping m \<Longrightarrow> frozen_mapping str (revealed_dict m) = m"
  unfolding settled_mapping_def frozen_mapping_def revealed_dict_def map_map list_all_iff
  by (rule map_idI) (auto simp: freeze_reveal)

subsection \<open>Merging\<close>

fun distinct_keys :: "config_value \<Rightarrow> bool" where
  "distinct_keys (C_Map m) = (distinct (map fst m) \<and> list_all (distinct_keys \<circ> snd) m)"
| "distinct_keys v = True"

lemma merge_value_source: "merge_value (Some (C_Map cur)) (C_Map m) = C_Map (merge_source m cur)"
  by (simp add: merge_source_def)

lemma dict_get_merge:
  "distinct (map fst m) \<Longrightarrow>
   dict_get (merge_source m r) k = (case dict_get m k of None \<Rightarrow> dict_get r k | Some v \<Rightarrow> Some (merge_value (dict_get r k) v))"
  unfolding merge_source_def
proof (induction m arbitrary: r)
  case (Cons kv m)
  have fresh: "dict_get m (fst kv) = None" using Cons.prems by (simp add: map_of_eq_None_iff)
  from Cons show ?case using fresh by (cases "k = fst kv") (auto split: option.splits)
qed simp

lemma fold_dict_set:
  assumes "distinct (map fst c)" and "\<forall>x \<in> set c. Q (snd x)"
    and "\<And>kv r. kv \<in> set m \<Longrightarrow> \<forall>x \<in> set r. Q (snd x) \<Longrightarrow> Q (f kv r)"
  shows "distinct (map fst (fold (\<lambda>kv r. dict_set (fst kv) (f kv r) r) m c))
    \<and> (\<forall>x \<in> set (fold (\<lambda>kv r. dict_set (fst kv) (f kv r) r) m c). Q (snd x))"
  using assms
proof (induction m arbitrary: c)
  case (Cons kv m)
  have "\<forall>x \<in> set (dict_set (fst kv) (f kv c) c). Q (snd x)"
    using Cons.prems(2) Cons.prems(3) [of kv c] set_dict_set_subset [of "fst kv" "f kv c" c] by auto
  with Cons.IH [of "dict_set (fst kv) (f kv c) c"] Cons.prems show ?case by (simp add: distinct_update)
qed simp

lemma merge_value_keys:
  "distinct_keys v \<Longrightarrow> (\<And>c. cur = Some c \<Longrightarrow> distinct_keys c) \<Longrightarrow> distinct_keys (merge_value cur v)"
proof (induction cur v rule: merge_value.induct)
  case (1 cur m)
  show ?case
  proof (cases "\<exists>c. cur = Some (C_Map c)")
    case True
    then obtain c where cur: "cur = Some (C_Map c)" by blast
    have c: "distinct (map fst c)" "\<forall>x \<in> set c. distinct_keys (snd x)" and m: "\<forall>x \<in> set m. distinct_keys (snd x)"
      using 1(2) 1(3) [OF cur] by (auto simp: list_all_iff)
    have "distinct_keys (merge_value (dict_get r (fst kv)) (snd kv))"
      if "kv \<in> set m" "\<forall>x \<in> set r. distinct_keys (snd x)" for kv r
      using 1(1) [OF cur refl that(1), of r] m that by (fastforce dest: map_of_SomeD)
    from fold_dict_set [OF c this] cur show ?thesis by (simp add: list_all_iff)
  qed (use 1 in \<open>auto split: option.splits config_value.splits\<close>)
qed simp_all

lemma merge_source_keys:
  "distinct_keys (C_Map m) \<Longrightarrow> distinct_keys (C_Map r) \<Longrightarrow> distinct_keys (C_Map (merge_source m r))"
  using merge_value_keys [of "C_Map m" "Some (C_Map r)"] by (simp add: merge_value_source del: distinct_keys.simps merge_value.simps)

text \<open>
  A layer settles a path when it has a value there, or something that is not a mapping on the way.
\<close>

fun settles :: "config_value \<Rightarrow> string list \<Rightarrow> bool" where
  "settles v [] = True"
| "settles v (p # ps) = (case v of C_Map m \<Rightarrow> (case dict_get m p of None \<Rightarrow> False | Some x \<Rightarrow> settles x ps) | _ \<Rightarrow> True)"

lemma walk_settles: "walk v p = Some x \<Longrightarrow> settles v p"
  by (induction v p rule: walk.induct) (auto split: config_value.splits option.splits)

lemma walk_not_mapping: "\<not> is_mapping v \<Longrightarrow> p \<noteq> [] \<Longrightarrow> walk v p = None"
  by (cases v; cases p) auto

lemma settles_not_mapping: "\<not> is_mapping v \<Longrightarrow> settles v p"
  by (cases v; cases p) auto

lemma merge_not_mapping: "\<not> is_mapping v \<Longrightarrow> merge_value cur v = v"
  by (cases v) auto

lemma merge_leaf:
  assumes "distinct_keys (C_Map s)" and "\<not> is_mapping x" and "p \<noteq> []"
  shows "walk (C_Map (merge_source s r)) p = Some x
    \<longleftrightarrow> (if settles (C_Map s) p then walk (C_Map s) p = Some x else walk (C_Map r) p = Some x)"
  using assms
proof (induction p arbitrary: s r)
  case (Cons k ps)
  have get: "dict_get (merge_source s r) k = (case dict_get s k of None \<Rightarrow> dict_get r k | Some v \<Rightarrow> Some (merge_value (dict_get r k) v))"
    using Cons.prems(1) by (intro dict_get_merge) simp
  show ?case
  proof (cases "dict_get s k")
    case None
    with get show ?thesis by simp
  next
    case (Some v)
    show ?thesis
    proof (cases v)
      case (C_Map m)
      have m: "distinct_keys (C_Map m)"
        using Cons.prems(1) Some C_Map by (force simp: list_all_iff dest: map_of_SomeD)
      consider (maps) cur where "dict_get r k = Some (C_Map cur)" | (other) "\<nexists>cur. dict_get r k = Some (C_Map cur)" by blast
      then show ?thesis
      proof cases
        case maps
        then have merged: "dict_get (merge_source s r) k = Some (C_Map (merge_source m cur))"
          using get Some C_Map by (simp add: merge_value_source del: merge_value.simps)
        show ?thesis
        proof (cases "ps = []")
          case True
          with merged Some C_Map Cons.prems(2) show ?thesis by auto
        next
          case False
          from Cons.IH [OF m Cons.prems(2) this, of cur] merged maps Some C_Map show ?thesis by simp
        qed
      next
        case other
        then have merged: "dict_get (merge_source s r) k = Some (C_Map m)"
          using get Some C_Map by (auto split: option.splits config_value.splits)
        have "walk (C_Map r) (k # ps) \<noteq> Some x" if "ps \<noteq> []"
          using other that by (auto split: option.splits config_value.splits) (metis is_mapping.elims(2) walk_not_mapping option.distinct(1))
        with merged Some C_Map Cons.prems(2) show ?thesis
          by (cases "ps = []") (auto dest: walk_settles)
      qed
    qed (use get Some in \<open>auto simp: settles_not_mapping\<close>)
  qed
qed simp

text \<open>
  C34: a later layer wins, leaf by leaf. In the merge of any number of layers, the value at a path that is not a mapping is
  the one of the last layer that settles the path; layers without a word on the path do not matter, at any depth, and if no layer settles it
  the path is absent.
\<close>

theorem deep_merge_precedence:
  assumes "list_all (\<lambda>l. distinct_keys (C_Map l)) layers" and "p \<noteq> []" and "\<not> is_mapping x"
  shows "walk (C_Map (deep_merge layers)) p = Some x
    \<longleftrightarrow> (case filter (\<lambda>l. settles (C_Map l) p) layers of [] \<Rightarrow> False | l # ls \<Rightarrow> walk (C_Map (last (l # ls))) p = Some x)"
  using assms
proof (induction layers rule: rev_induct)
  case Nil
  then show ?case by (cases p) (simp_all add: deep_merge_def)
next
  case (snoc l layers)
  have step: "deep_merge (layers @ [l]) = merge_source l (deep_merge layers)" by (simp add: deep_merge_def)
  show ?case
    unfolding step using snoc merge_leaf [of l x p "deep_merge layers"] by (auto split: list.splits)
qed

theorem deep_merge_precedence_witness:
  "walk (C_Map (deep_merge
      [[(''engines'', C_Map [(''redis'', C_Map [(''url'', C_Str ''a''), (''db'', C_Int 1)])])],
       [(''engines'', C_Map [(''redis'', C_Map [(''url'', C_Str ''b'')])])]])) [''engines'', ''redis'', ''db''] = Some (C_Int 1)"
  by (subst deep_merge_precedence) (code_simp | simp)+

subsection \<open>The environment\<close>

text \<open>A variable sets the value at its path, and nothing beside it.\<close>

lemma dict_set_keys: "distinct_keys (C_Map m) \<Longrightarrow> distinct_keys v \<Longrightarrow> distinct_keys (C_Map (dict_set p v m))"
  using set_dict_set_subset [of p v m] by (fastforce simp: list_all_iff distinct_update)

lemma set_path_distinct: "distinct_keys (C_Map m) \<Longrightarrow> distinct_keys v \<Longrightarrow> distinct_keys (C_Map (set_path ps v m))"
proof (induction ps v m rule: set_path.induct)
  case (2 p v m)
  then show ?case unfolding set_path.simps by (rule dict_set_keys)
next
  case (3 p q ps v m)
  let ?inner = "case dict_get m p of Some (C_Map inner) \<Rightarrow> inner | _ \<Rightarrow> []"
  have "distinct_keys (C_Map ?inner)"
    using 3(2) by (fastforce simp: list_all_iff dest: map_of_SomeD split: option.split config_value.split)
  with 3 have "distinct_keys (C_Map (set_path (q # ps) v ?inner))" by blast
  with 3(2) show ?case unfolding set_path.simps by (rule dict_set_keys)
qed simp

lemma walk_set_path:
  "ps \<noteq> [] \<Longrightarrow> walk (C_Map (set_path ps v m)) ps = Some v"
  by (induction ps v m rule: set_path.induct) simp_all

lemma environment_distinct:
  assumes "\<And>s v. json_loads s = Some v \<Longrightarrow> distinct_keys v"
  shows "distinct_keys (C_Map (environment_config json_loads env prefix))"
proof -
  have parsed: "distinct_keys (parse_environment_value json_loads s)" for s
    using assms by (auto simp: parse_environment_value_def split: option.split)
  have "distinct_keys (C_Map (fold (\<lambda>(name, value) m.
         if take (length prefix) name \<noteq> prefix \<or> name = prefix then m
         else set_path (variable_path prefix name) (parse_environment_value json_loads value) m) vars m))"
    if "distinct_keys (C_Map m)" for vars m
    using that set_path_distinct [OF _ parsed]
    by (induction vars arbitrary: m) (auto simp del: distinct_keys.simps)
  from this [of "[]"] show ?thesis by (simp add: environment_config_def)
qed

text \<open>Two variables, and the one of the inner path comes later in the order of names.\<close>

lemma environment_nesting:
  "environment_config (\<lambda>s. if s = ''5'' then Some (C_Int 5) else None)
     [(''PYEV_ENGINES__REDIS__DB'', ''5''), (''HOME'', ''x''), (''PYEV_ENGINES'', ''y''), (''PYEV_SOURCE'', ''orders'')] ''PYEV_''
   = [(''engines'', C_Map [(''redis'', C_Map [(''db'', C_Int 5)])]), (''source'', C_Str ''orders'')]"
  by code_simp

text \<open>The parts of a key are compared one by one, so the secrets of two words are found only as whole keys.\<close>

lemma two_word_secrets_escape:
  "is_secret_key ''api_key''" "is_secret_key ''Redis.Password''"
  "\<not> is_secret_key ''stripe_api_key''" "\<not> is_secret_key ''aws.access_key''" "\<not> is_secret_key ''tls_private_key''"
  "is_secret_key ''token_ttl''"
  by code_simp+

end
