(* ===== verification/Serializers.thy ===== *)
theory Serializers
  imports Configuration Envelopes
begin

text \<open>
  \<open>broka/serialization\<close>: the registry of serializers by name and content type, and the JSON, MessagePack and Pickle
  serializers. A serializer has an identity and the attributes that \<open>register\<close> asks for; what it encodes is a value of a heap. The codecs
  themselves (\<open>json\<close>, \<open>msgpack\<close>, \<open>pickle\<close>) are parameters. Locks are left out: every operation is one step.
\<close>

subsection \<open>JSON data as Python values\<close>

text \<open>Dictionaries and lists that a function builds, at consecutive addresses: the value, the next address and the objects.\<close>

definition plain_dict :: "(string \<times> pyvalue) list \<Rightarrow> pyobject" where
  "plain_dict items = opaque\<lparr>po_mapping := Some (record_items items)\<rparr>"

definition plain_list :: "pyvalue list \<Rightarrow> pyobject" where
  "plain_list xs = opaque\<lparr>po_sequence := Some xs\<rparr>"

lemma size_values: "size_list (size \<circ> snd) kvs < Suc (size_list (size_prod (\<lambda>_. 0) size) kvs)"
  by (induction kvs) auto

function place :: "json \<Rightarrow> nat \<Rightarrow> pyvalue \<times> nat \<times> (nat \<times> pyobject) list"
  and place_all :: "json list \<Rightarrow> nat \<Rightarrow> pyvalue list \<times> nat \<times> (nat \<times> pyobject) list"
where
  "place JNull n = (PV_None, n, [])"
| "place (JStr s) n = (PV_Str s, n, [])"
| "place (JBool b) n = (PV_Bool b, n, [])"
| "place (JInt i) n = (PV_Int i, n, [])"
| "place (JFloat r) n = (PV_Float (Fin r), n, [])"
| "place (JArr js) n = (case place_all js (Suc n) of (vs, m, cells) \<Rightarrow> (PV_Ref n, m, (n, plain_list vs) # cells))"
| "place (JObj kvs) n =
     (case place_all (map snd kvs) (Suc n) of (vs, m, cells) \<Rightarrow> (PV_Ref n, m, (n, plain_dict (zip (map fst kvs) vs)) # cells))"
| "place_all [] n = ([], n, [])"
| "place_all (j # js) n =
     (case place j n of (v, m, cells) \<Rightarrow> (case place_all js m of (vs, k, cells') \<Rightarrow> (v # vs, k, cells @ cells')))"
  by pat_completeness auto
termination
  by (relation "measure (\<lambda>x. case x of Inl (j, n) \<Rightarrow> size j | Inr (js, n) \<Rightarrow> size_list size js)")
    (auto simp: size_values)

definition heap_of :: "(nat \<times> pyobject) list \<Rightarrow> heap" where
  "heap_of cells a = (case map_of cells a of None \<Rightarrow> opaque | Some ob \<Rightarrow> ob)"

definition python_value :: "json \<Rightarrow> heap \<times> pyvalue" where
  "python_value j = (case place j 0 of (v, n, cells) \<Rightarrow> (heap_of cells, v))"

lemma place_range:
  "place j n = (v, m, cells) \<Longrightarrow> n \<le> m \<and> distinct (map fst cells) \<and> (\<forall>a \<in> fst ` set cells. n \<le> a \<and> a < m)"
  "place_all js n = (vs, m, cells) \<Longrightarrow> n \<le> m \<and> distinct (map fst cells) \<and> (\<forall>a \<in> fst ` set cells. n \<le> a \<and> a < m)"
proof (induction j n and js n arbitrary: v m cells and vs m cells rule: place_place_all.induct)
  case (6 js n)
  then show ?case by (fastforce split: prod.splits)
next
  case (7 kvs n)
  then show ?case by (fastforce split: prod.splits)
next
  case (9 j js n)
  obtain w m1 c1 where j: "place j n = (w, m1, c1)" by (cases "place j n")
  obtain ws m2 c2 where js: "place_all js m1 = (ws, m2, c2)" by (cases "place_all js m1")
  from 9(1) [OF j] 9(2) [OF j [symmetric] refl js] 9(3) j js show ?case by fastforce
qed auto

lemma place_holds:
  "place j n = (v, m, cells) \<Longrightarrow> json_within k j \<Longrightarrow> \<forall>(a, ob) \<in> set cells. h a = ob \<Longrightarrow> \<forall>a \<in> set seen. a < n
    \<Longrightarrow> holds h k seen v j"
  "place_all js n = (vs, m, cells) \<Longrightarrow> list_all (json_within k) js \<Longrightarrow> \<forall>(a, ob) \<in> set cells. h a = ob \<Longrightarrow> \<forall>a \<in> set seen. a < n
    \<Longrightarrow> list_all2 (holds h k seen) vs js"
proof (induction j n and js n arbitrary: v m cells k seen and vs m cells k seen rule: place_place_all.induct)
  case (6 js n)
  then obtain i vs c where k: "k = Suc i" and p: "place_all js (Suc n) = (vs, m, c)" "v = PV_Ref n" "cells = (n, plain_list vs) # c"
    by (cases k) (auto split: prod.splits)
  have "list_all2 (holds h i (n # seen)) vs js"
    by (rule 6(1) [OF p(1)]) (use 6(3-5) k p in \<open>auto simp: less_Suc_eq\<close>)
  moreover have "h n = plain_list vs" "n \<notin> set seen" using 6(4,5) p by auto
  ultimately show ?case using k p by (simp add: plain_list_def opaque_def plain_container_def)
next
  case (7 kvs n)
  then obtain i vs c where k: "k = Suc i" and p: "place_all (map snd kvs) (Suc n) = (vs, m, c)" "v = PV_Ref n"
    "cells = (n, plain_dict (zip (map fst kvs) vs)) # c"
    by (cases k) (auto split: prod.splits)
  have inner: "list_all2 (holds h i (n # seen)) vs (map snd kvs)"
    by (rule 7(1) [OF p(1)]) (use 7(3-5) k p in \<open>auto simp: less_Suc_eq list_all_iff\<close>)
  then have "list_all2 (\<lambda>x y. fst x = PV_Str (fst y) \<and> holds h i (n # seen) (snd x) (snd y)) (record_items (zip (map fst kvs) vs)) kvs"
    by (auto simp: list_all2_conv_all_nth record_items_def)
  moreover have "h n = plain_dict (zip (map fst kvs) vs)" "n \<notin> set seen" using 7(4,5) p by auto
  ultimately show ?case using k p by (simp add: plain_dict_def opaque_def plain_container_def)
next
  case (9 j js n)
  obtain w m1 c1 where j: "place j n = (w, m1, c1)" by (cases "place j n")
  obtain ws m2 c2 where js: "place_all js m1 = (ws, m2, c2)" by (cases "place_all js m1")
  have all: "vs = w # ws" "cells = c1 @ c2" using 9(3) j js by auto
  have "n \<le> m1" using place_range(1) [OF j] by simp
  then have "holds h k seen w j" "list_all2 (holds h k seen) ws js"
    using 9(1) [OF j] 9(2) [OF j [symmetric] refl js] 9(4-6) all by fastforce+
  with all show ?case by simp
qed (case_tac k; simp)+

lemma python_value_holds:
  assumes "json_within k j"
  shows "holds (fst (python_value j)) k [] (snd (python_value j)) j"
proof -
  obtain v n cells where p: "place j 0 = (v, n, cells)" by (cases "place j 0")
  have "distinct (map fst cells)" using place_range(1) [OF p] by simp
  then have "\<forall>(a, ob) \<in> set cells. heap_of cells a = ob" by (auto simp: heap_of_def)
  from place_holds(1) [OF p assms this] p show ?thesis by (simp add: python_value_def)
qed

text \<open>Converting such a value fails exactly when the data has too many levels.\<close>

fun children_ok :: "(json \<Rightarrow> bool) \<Rightarrow> json \<Rightarrow> bool" where
  "children_ok p (JArr js) = list_all p js"
| "children_ok p (JObj kvs) = list_all (p \<circ> snd) kvs"
| "children_ok p _ = True"

primrec depth_within :: "nat \<Rightarrow> json \<Rightarrow> bool" where
  "depth_within 0 j = False"
| "depth_within (Suc n) j = children_ok (depth_within n) j"

lemma within_depth: "json_within k j \<Longrightarrow> depth_within m j \<Longrightarrow> json_within m j"
proof (induction m arbitrary: k j)
  case (Suc m)
  then obtain i where k: "k = Suc i" by (cases k) auto
  show ?case using Suc.prems Suc.IH [of i] unfolding k by (cases j) (auto simp: list_all_iff)
qed simp

lemma depth_of_within: "json_within m j \<Longrightarrow> depth_within m j"
proof (induction m arbitrary: j)
  case (Suc m)
  then show ?case by (cases j) (auto simp: list_all_iff)
qed simp

lemma list_all2_json_of:
  assumes "list_all2 (\<lambda>x y. P x y) xs ys" and "list_all2 (\<lambda>x y. f x = Inr y) xs zs"
    and "\<And>x y z. P x y \<Longrightarrow> f x = Inr z \<Longrightarrow> Q y"
  shows "list_all Q ys"
  using assms(1,2)
proof (induction arbitrary: zs rule: list_all2_induct)
  case (Cons x xs y ys)
  then show ?case using assms(3) by (fastforce simp: list_all2_Cons1)
qed simp

lemma json_of_depth: "holds h n seen v j \<Longrightarrow> json_of h m seen' v = Inr j' \<Longrightarrow> depth_within m j"
proof (induction n arbitrary: seen v j m seen' j')
  case (Suc n)
  from Suc.prems(2) obtain k where m: "m = Suc k" by (cases m) auto
  show ?case
  proof (cases j)
    case (JArr js)
    with Suc.prems(1) obtain a xs where v: "v = PV_Ref a" and a: "plain_container (h a)" "po_mapping (h a) = None"
      "po_sequence (h a) = Some xs" and items: "list_all2 (holds h n (a # seen)) xs js"
      by (auto split: pyvalue.splits option.splits)
    from Suc.prems(2) v a m obtain js' where "list_all2 (\<lambda>x y. json_of h k (a # seen') x = Inr y) xs js'"
      by (auto simp: json_object_def json_container_def plain_container_def json_seq_def map_result_Inr split: if_splits sum.splits)
    from list_all2_json_of [OF items this Suc.IH] JArr m show ?thesis by simp
  next
    case (JObj kvs)
    with Suc.prems(1) obtain a items where v: "v = PV_Ref a" and a: "plain_container (h a)" "po_mapping (h a) = Some items"
      and items: "list_all2 (\<lambda>x y. fst x = PV_Str (fst y) \<and> holds h n (a # seen) (snd x) (snd y)) items kvs"
      by (auto split: pyvalue.splits option.splits)
    from Suc.prems(2) v a m obtain kvs' where run: "list_all2 (\<lambda>x y. json_item (json_of h k (a # seen')) x = Inr y) items kvs'"
      by (auto simp: json_object_def json_container_def plain_container_def json_map_def map_result_Inr split: if_splits sum.splits)
    have "list_all (depth_within k \<circ> snd) kvs"
    proof (rule list_all2_json_of [OF items run])
      fix x y z
      assume xy: "fst x = PV_Str (fst y) \<and> holds h n (a # seen) (snd x) (snd y)" "json_item (json_of h k (a # seen')) x = Inr z"
      then obtain j' where "json_of h k (a # seen') (snd x) = Inr j'" by (auto simp: json_item_def split: sum.splits)
      with xy(1) Suc.IH show "(depth_within k \<circ> snd) y" by auto
    qed
    with JObj m show ?thesis by simp
  qed (use m in simp_all)
qed simp

lemma json_of_plain_error: "holds h n seen v j \<Longrightarrow> json_of h m seen' v = Inl e \<Longrightarrow> e = PyExc MessageValidationError False"
proof (induction n arbitrary: seen v j m seen' e)
  case (Suc n)
  show ?case
  proof (cases m)
    case 0
    with Suc.prems show ?thesis by simp
  next
    case m: (Suc k)
    show ?thesis
    proof (cases j)
      case (JArr js)
      with Suc.prems(1) obtain a xs where v: "v = PV_Ref a" and a: "plain_container (h a)" "po_mapping (h a) = None"
        "po_sequence (h a) = Some xs" and items: "list_all2 (holds h n (a # seen)) xs js"
        by (auto split: pyvalue.splits option.splits)
      from items have "x \<in> set xs \<Longrightarrow> \<exists>y. holds h n (a # seen) x y" for x by (auto simp: list_all2_conv_all_nth in_set_conv_nth)
      with Suc.prems(2) v a m Suc.IH show ?thesis
        by (fastforce simp: json_object_def json_container_def plain_container_def json_seq_def split: if_splits sum.splits
            dest: map_result_Inl)
    next
      case (JObj kvs)
      with Suc.prems(1) obtain a items where v: "v = PV_Ref a" and a: "plain_container (h a)" "po_mapping (h a) = Some items"
        and items: "list_all2 (\<lambda>x y. fst x = PV_Str (fst y) \<and> holds h n (a # seen) (snd x) (snd y)) items kvs"
        by (auto split: pyvalue.splits option.splits)
      from items have "x \<in> set items \<Longrightarrow> \<exists>k y. fst x = PV_Str k \<and> holds h n (a # seen) (snd x) y" for x
        by (auto simp: list_all2_conv_all_nth in_set_conv_nth)
      with Suc.prems(2) v a m Suc.IH show ?thesis
        by (fastforce simp: json_object_def json_container_def plain_container_def json_map_def json_item_def split: if_splits sum.splits
            dest: map_result_Inl)
    qed (use Suc.prems m in auto)
  qed
qed simp

lemma to_json_value_plain:
  assumes "json_within k j"
  shows "to_json_value (fst (python_value j)) default_max_depth (snd (python_value j))
    = (if json_within 65 j then Inr j else raise MessageValidationError)"
proof -
  let ?r = "json_of (fst (python_value j)) 65 [] (snd (python_value j))"
  note held = python_value_holds [OF assms]
  have run: "to_json_value (fst (python_value j)) default_max_depth (snd (python_value j)) = ?r"
    by (simp add: to_json_value_def default_max_depth_def del: json_of.simps)
  show ?thesis
  proof (cases "json_within 65 j")
    case True
    from holds_json_of [OF holds_within [OF held _ True]] show ?thesis unfolding run using True by simp
  next
    case False
    then have "\<exists>e. ?r = Inl e" using json_of_depth [OF held] within_depth [OF assms] by (cases ?r) blast+
    then show ?thesis unfolding run using False json_of_plain_error [OF held] by auto
  qed
qed

subsection \<open>Serializers\<close>

record decode_context =
  dc_trusted :: bool
  dc_max_size :: int

definition new_decode_context :: "bool \<Rightarrow> int \<Rightarrow> decode_context result" where
  "new_decode_context trusted max_size =
     (if max_size < 1 then raise ValueError else Inr \<lparr>dc_trusted = trusted, dc_max_size = max_size\<rparr>)"

record serializer =
  sz_id :: nat
  sz_name :: "string option"
  sz_content_type :: "string option"
  sz_callable :: bool
  sz_encode :: "heap \<Rightarrow> pyvalue \<Rightarrow> string result"
  sz_decode :: "decode_context \<Rightarrow> string \<Rightarrow> (heap \<times> pyvalue) result"

definition serialization_failure :: "(pyexc \<Rightarrow> bool) \<Rightarrow> 'a result \<Rightarrow> 'a result" where
  "serialization_failure caught r = (case r of Inl e \<Rightarrow> if caught e then raise SerializationError else Inl e | Inr x \<Rightarrow> Inr x)"

definition value_or_type_error :: "pyexc \<Rightarrow> bool" where
  "value_or_type_error e \<longleftrightarrow> isinstance e TypeError \<or> isinstance e ValueError"

text \<open>The hook of the JSON parser that sees the pairs of every object.\<close>

fun reject_duplicates :: "(string, 'v) dict \<Rightarrow> (string \<times> 'v) list \<Rightarrow> (string, 'v) dict result" where
  "reject_duplicates d [] = Inr d"
| "reject_duplicates d ((k, v) # kvs) = (if dict_has d k then raise ValueError else reject_duplicates (dict_set k v d) kvs)"

definition json_encode :: "(json \<Rightarrow> string result) \<Rightarrow> bool \<Rightarrow> heap \<Rightarrow> pyvalue \<Rightarrow> string result" where
  "json_encode dumps sort_keys h v =
     serialization_failure (\<lambda>e. isinstance e MessageValidationError \<or> value_or_type_error e)
       (bindr (to_json_value h default_max_depth v) (\<lambda>j. dumps (if sort_keys then sort_json j else j)))"

definition json_decode :: "(string \<Rightarrow> (heap \<times> pyvalue) result) \<Rightarrow> decode_context \<Rightarrow> string \<Rightarrow> (heap \<times> pyvalue) result" where
  "json_decode loads ctx bytes =
     (if dc_max_size ctx < int (length bytes) then raise SerializationError
      else serialization_failure (\<lambda>e. isinstance e ValueError) (loads bytes))"

definition json_serializer :: "nat \<Rightarrow> (json \<Rightarrow> string result) \<Rightarrow> (string \<Rightarrow> (heap \<times> pyvalue) result) \<Rightarrow> bool \<Rightarrow> serializer" where
  "json_serializer i dumps loads sort_keys =
     \<lparr>sz_id = i, sz_name = Some ''json'', sz_content_type = Some ''application/json'', sz_callable = True,
      sz_encode = json_encode dumps sort_keys, sz_decode = json_decode loads\<rparr>"

text \<open>MessagePack: the module may be missing; what it decodes is checked and rebuilt by \<open>to_json_value\<close>.\<close>

definition msgpack_encode :: "bool \<Rightarrow> (json \<Rightarrow> string result) \<Rightarrow> heap \<Rightarrow> pyvalue \<Rightarrow> string result" where
  "msgpack_encode available packb h v =
     (if \<not> available then raise SerializationError
      else serialization_failure is_exception (bindr (to_json_value h default_max_depth v) packb))"

definition msgpack_decode ::
  "bool \<Rightarrow> (string \<Rightarrow> (heap \<times> pyvalue) result) \<Rightarrow> decode_context \<Rightarrow> string \<Rightarrow> (heap \<times> pyvalue) result"
where
  "msgpack_decode available unpackb ctx bytes =
     (if dc_max_size ctx < int (length bytes) then raise SerializationError
      else if \<not> available then raise SerializationError
      else serialization_failure is_exception
        (bindr (unpackb bytes) (\<lambda>(h, v). bindr (to_json_value h default_max_depth v) (\<lambda>j. Inr (python_value j)))))"

definition msgpack_serializer ::
  "nat \<Rightarrow> bool \<Rightarrow> (json \<Rightarrow> string result) \<Rightarrow> (string \<Rightarrow> (heap \<times> pyvalue) result) \<Rightarrow> serializer"
where
  "msgpack_serializer i available packb unpackb =
     \<lparr>sz_id = i, sz_name = Some ''msgpack'', sz_content_type = Some ''application/msgpack'', sz_callable = True,
      sz_encode = msgpack_encode available packb, sz_decode = msgpack_decode available unpackb\<rparr>"

text \<open>Pickle; the errors it wraps are the codec's own classes and a few more.\<close>

definition ensure_enabled :: "bool \<Rightarrow> unit result" where
  "ensure_enabled allow_unsafe = (if allow_unsafe then Inr () else raise UnsafeSerializationError)"

definition pickle_encode :: "bool \<Rightarrow> (pyexc \<Rightarrow> bool) \<Rightarrow> (heap \<Rightarrow> pyvalue \<Rightarrow> string result) \<Rightarrow> heap \<Rightarrow> pyvalue \<Rightarrow> string result" where
  "pickle_encode allow_unsafe wrapped dumps h v =
     bindr (ensure_enabled allow_unsafe) (\<lambda>_. serialization_failure wrapped (dumps h v))"

definition pickle_decode ::
  "bool \<Rightarrow> (pyexc \<Rightarrow> bool) \<Rightarrow> (string \<Rightarrow> (heap \<times> pyvalue) result) \<Rightarrow> decode_context \<Rightarrow> string \<Rightarrow> (heap \<times> pyvalue) result"
where
  "pickle_decode allow_unsafe wrapped loads ctx bytes =
     bindr (ensure_enabled allow_unsafe) (\<lambda>_.
       if \<not> dc_trusted ctx then raise UnsafeSerializationError
       else if dc_max_size ctx < int (length bytes) then raise SerializationError
       else serialization_failure wrapped (loads bytes))"

definition pickle_serializer ::
  "nat \<Rightarrow> bool \<Rightarrow> (pyexc \<Rightarrow> bool) \<Rightarrow> (heap \<Rightarrow> pyvalue \<Rightarrow> string result) \<Rightarrow> (string \<Rightarrow> (heap \<times> pyvalue) result) \<Rightarrow> serializer"
where
  "pickle_serializer i allow_unsafe wrapped dumps loads =
     \<lparr>sz_id = i, sz_name = Some ''pickle'', sz_content_type = Some ''application/x-python-pickle'', sz_callable = True,
      sz_encode = pickle_encode allow_unsafe wrapped dumps, sz_decode = pickle_decode allow_unsafe wrapped loads\<rparr>"

subsection \<open>The registry\<close>

record serializer_registry =
  sr_serializers :: "(string, serializer) dict"
  sr_content_types :: "(string, string) dict"
  sr_default :: "string option"

definition new_serializer_registry :: "string option \<Rightarrow> serializer_registry" where
  "new_serializer_registry fallback = \<lparr>sr_serializers = [], sr_content_types = [], sr_default = fallback\<rparr>"

definition normalize_name :: "string \<Rightarrow> string" where
  "normalize_name s = lower_text (strip s)"

definition normalize_content_type :: "string \<Rightarrow> string" where
  "normalize_content_type s = lower_text (strip (takeWhile (\<lambda>c. c \<noteq> CHR '';'') s))"

definition content_type_of :: "serializer \<Rightarrow> string" where
  "content_type_of s = (case sz_content_type s of None \<Rightarrow> [] | Some c \<Rightarrow> normalize_content_type c)"

definition serializer_contract :: "serializer \<Rightarrow> (string \<times> string) result" where
  "serializer_contract s =
     (case (sz_name s, sz_content_type s) of
        (Some n, Some c) \<Rightarrow>
          if strip n = [] \<or> strip c = [] \<or> \<not> sz_callable s \<or> normalize_content_type c = [] then raise SerializationError
          else Inr (normalize_name n, normalize_content_type c)
      | _ \<Rightarrow> raise SerializationError)"

definition enter_serializer :: "serializer \<Rightarrow> string \<Rightarrow> string \<Rightarrow> bool \<Rightarrow> serializer_registry \<Rightarrow> serializer_registry" where
  "enter_serializer s n ct make_default r =
     (let types = (case dict_get (sr_serializers r) n of
                     None \<Rightarrow> sr_content_types r
                   | Some old \<Rightarrow> dict_del (content_type_of old) (sr_content_types r));
          owner = dict_get (sr_content_types r) ct;
          others = (case owner of Some other \<Rightarrow> if other \<noteq> n then dict_del other (sr_serializers r) else sr_serializers r
                    | None \<Rightarrow> sr_serializers r);
          fallback = (case owner of Some other \<Rightarrow> if other \<noteq> n \<and> sr_default r = Some other then Some n else sr_default r
                      | None \<Rightarrow> sr_default r)
      in \<lparr>sr_serializers = dict_set n s others, sr_content_types = dict_set ct n types,
          sr_default = (if make_default \<or> fallback = None then Some n else fallback)\<rparr>)"

definition register_serializer ::
  "serializer \<Rightarrow> bool \<Rightarrow> bool \<Rightarrow> serializer_registry \<Rightarrow> unit result \<times> serializer_registry"
where
  "register_serializer s replace make_default r =
     (case serializer_contract s of
        Inl e \<Rightarrow> (Inl e, r)
      | Inr (n, ct) \<Rightarrow>
          if (case dict_get (sr_serializers r) n of None \<Rightarrow> False | Some old \<Rightarrow> sz_id old \<noteq> sz_id s) \<and> \<not> replace
          then (raise DuplicateRegistrationError, r)
          else if (case dict_get (sr_content_types r) ct of None \<Rightarrow> False | Some other \<Rightarrow> other \<noteq> n) \<and> \<not> replace
          then (raise DuplicateRegistrationError, r)
          else (Inr (), enter_serializer s n ct make_default r))"

definition unregister_serializer :: "string \<Rightarrow> serializer_registry \<Rightarrow> serializer option \<times> serializer_registry" where
  "unregister_serializer name r =
     (let n = normalize_name name in
      case dict_get (sr_serializers r) n of
        None \<Rightarrow> (None, r)
      | Some s \<Rightarrow>
          (Some s, \<lparr>sr_serializers = dict_del n (sr_serializers r),
                    sr_content_types = dict_del (content_type_of s) (sr_content_types r),
                    sr_default = (if sr_default r = Some n then None else sr_default r)\<rparr>))"

definition get_serializer :: "serializer_registry \<Rightarrow> string \<Rightarrow> serializer result" where
  "get_serializer r name =
     (case dict_get (sr_serializers r) (normalize_name name) of None \<Rightarrow> raise SerializationError | Some s \<Rightarrow> Inr s)"

definition default_serializer :: "serializer_registry \<Rightarrow> serializer result" where
  "default_serializer r = (case sr_default r of None \<Rightarrow> raise SerializationError | Some n \<Rightarrow> get_serializer r n)"

definition for_content_type :: "serializer_registry \<Rightarrow> string \<Rightarrow> serializer result" where
  "for_content_type r ct =
     (case dict_get (sr_content_types r) (normalize_content_type ct) of
        None \<Rightarrow> raise SerializationError
      | Some n \<Rightarrow> (case dict_get (sr_serializers r) n of None \<Rightarrow> raise SerializationError | Some s \<Rightarrow> Inr s))"

definition resolve_serializer :: "serializer_registry \<Rightarrow> string option \<Rightarrow> string option \<Rightarrow> serializer result" where
  "resolve_serializer r name content_type =
     (case name of
        None \<Rightarrow> (case content_type of None \<Rightarrow> default_serializer r | Some ct \<Rightarrow> for_content_type r ct)
      | Some n \<Rightarrow>
          bindr (get_serializer r n) (\<lambda>s.
            case content_type of
              None \<Rightarrow> Inr s
            | Some ct \<Rightarrow> if content_type_of s \<noteq> normalize_content_type ct then raise SerializationError else Inr s))"

definition registry_encode :: "serializer_registry \<Rightarrow> string option \<Rightarrow> heap \<Rightarrow> pyvalue \<Rightarrow> string result" where
  "registry_encode r name h v = bindr (resolve_serializer r name None) (\<lambda>s. sz_encode s h v)"

definition registry_decode ::
  "serializer_registry \<Rightarrow> string option \<Rightarrow> string option \<Rightarrow> decode_context \<Rightarrow> string \<Rightarrow> (heap \<times> pyvalue) result"
where
  "registry_decode r name content_type ctx bytes = bindr (resolve_serializer r name content_type) (\<lambda>s. sz_decode s ctx bytes)"

definition registry_with_defaults :: "serializer \<Rightarrow> serializer \<Rightarrow> serializer_registry" where
  "registry_with_defaults json msgpack =
     snd (register_serializer msgpack False False (snd (register_serializer json False False (new_serializer_registry (Some ''json'')))))"

subsection \<open>Names and content types\<close>

inductive registry_made :: "serializer_registry \<Rightarrow> bool" where
  created: "registry_made (new_serializer_registry fallback)"
| registered: "registry_made r \<Longrightarrow> registry_made (snd (register_serializer s replace make_default r))"
| unregistered: "registry_made r \<Longrightarrow> registry_made (snd (unregister_serializer name r))"

definition named :: "string \<Rightarrow> serializer \<Rightarrow> bool" where
  "named n s \<longleftrightarrow> (case sz_name s of None \<Rightarrow> False | Some name \<Rightarrow> n = normalize_name name)"

definition serializers_ok :: "serializer_registry \<Rightarrow> bool" where
  "serializers_ok r \<longleftrightarrow>
     dict_ok (sr_serializers r) \<and> dict_ok (sr_content_types r)
     \<and> (\<forall>n s. dict_get (sr_serializers r) n = Some s \<longrightarrow>
          named n s \<and> dict_get (sr_content_types r) (content_type_of s) = Some n)
     \<and> (\<forall>ct n. dict_get (sr_content_types r) ct = Some n \<longrightarrow>
          (\<exists>s. dict_get (sr_serializers r) n = Some s \<and> content_type_of s = ct))"

lemma contract_Inr: "serializer_contract s = Inr (n, ct) \<Longrightarrow> named n s \<and> content_type_of s = ct"
  by (auto simp: serializer_contract_def content_type_of_def named_def split: option.splits if_splits)

lemma enter_serializer_keeps:
  assumes ok: "serializers_ok r" and s: "serializer_contract s = Inr (n, ct)"
  shows "serializers_ok (enter_serializer s n ct make_default r)"
proof -
  let ?S = "sr_serializers r" and ?T = "sr_content_types r"
  let ?r = "enter_serializer s n ct make_default r"
  have name: "named n s" and ct: "content_type_of s = ct" using contract_Inr [OF s] by auto
  have S: "\<And>m x. dict_get ?S m = Some x \<Longrightarrow> named m x \<and> dict_get ?T (content_type_of x) = Some m"
    and T: "\<And>c m. dict_get ?T c = Some m \<Longrightarrow> \<exists>x. dict_get ?S m = Some x \<and> content_type_of x = c"
    using ok by (auto simp: serializers_ok_def)
  have get: "dict_get (sr_serializers ?r) m = (if m = n then Some s else if dict_get ?T ct = Some m then None else dict_get ?S m)" for m
    by (auto simp: enter_serializer_def Let_def split: option.split)
  have types: "dict_get (sr_content_types ?r) c = (if c = ct then Some n else if dict_get ?T c = Some n then None else dict_get ?T c)" for c
    using S T by (fastforce simp: enter_serializer_def Let_def split: option.split)
  have "named m x \<and> dict_get (sr_content_types ?r) (content_type_of x) = Some m" if "dict_get (sr_serializers ?r) m = Some x" for m x
    using that S [of m x] name ct unfolding get types by (auto split: if_splits)
  moreover have "\<exists>x. dict_get (sr_serializers ?r) m = Some x \<and> content_type_of x = c"
    if "dict_get (sr_content_types ?r) c = Some m" for c m
    using that T [of c m] T [of ct m] ct unfolding get types by (auto split: if_splits)
  moreover have "dict_ok (sr_serializers ?r)" "dict_ok (sr_content_types ?r)"
    using ok by (auto simp: serializers_ok_def enter_serializer_def Let_def intro!: inv_intros split: option.split)
  ultimately show ?thesis unfolding serializers_ok_def by blast
qed

lemma unregister_keeps:
  assumes ok: "serializers_ok r"
  shows "serializers_ok (snd (unregister_serializer name r))"
proof (cases "dict_get (sr_serializers r) (normalize_name name)")
  case None
  with ok show ?thesis by (simp add: unregister_serializer_def)
next
  case (Some s)
  let ?n = "normalize_name name" and ?r = "snd (unregister_serializer name r)"
  have S: "\<And>m x. dict_get (sr_serializers r) m = Some x \<Longrightarrow> named m x \<and> dict_get (sr_content_types r) (content_type_of x) = Some m"
    and T: "\<And>c m. dict_get (sr_content_types r) c = Some m \<Longrightarrow> \<exists>x. dict_get (sr_serializers r) m = Some x \<and> content_type_of x = c"
    using ok by (auto simp: serializers_ok_def)
  have get: "dict_get (sr_serializers ?r) m = (if m = ?n then None else dict_get (sr_serializers r) m)"
    and types: "dict_get (sr_content_types ?r) c = (if c = content_type_of s then None else dict_get (sr_content_types r) c)" for m c
    using Some by (simp_all add: unregister_serializer_def Let_def)
  have "named m x \<and> dict_get (sr_content_types ?r) (content_type_of x) = Some m" if "dict_get (sr_serializers ?r) m = Some x" for m x
    using that S [of m x] S [OF Some] unfolding get types by (auto split: if_splits)
  moreover have "\<exists>x. dict_get (sr_serializers ?r) m = Some x \<and> content_type_of x = c"
    if "dict_get (sr_content_types ?r) c = Some m" for c m
    using that T [of c m] Some unfolding get types by (auto split: if_splits)
  moreover have "dict_ok (sr_serializers ?r)" "dict_ok (sr_content_types ?r)"
    using ok Some by (auto simp: serializers_ok_def unregister_serializer_def Let_def intro: inv_intros)
  ultimately show ?thesis unfolding serializers_ok_def by blast
qed

lemma registry_made_ok: "registry_made r \<Longrightarrow> serializers_ok r"
proof (induction rule: registry_made.induct)
  case (created fallback)
  then show ?case by (simp add: serializers_ok_def new_serializer_registry_def)
next
  case (registered r s replace make_default)
  then show ?case by (auto simp: register_serializer_def enter_serializer_keeps split: sum.split)
next
  case (unregistered r name)
  then show ?case by (intro unregister_keeps)
qed

text \<open>
  C38: names and content types identify the same serializers. In every registry that registrations, replacements and removals lead to, a
  content type, whatever its case and parameters, resolves to a serializer exactly if that serializer is registered under its own normalised name
  and has that type; and resolving by a name and a type succeeds exactly when each of them alone gives that serializer.
\<close>

theorem serializers_resolve_exactly:
  assumes "registry_made r"
  shows "(for_content_type r ct = Inr s
      \<longleftrightarrow> (\<exists>name. sz_name s = Some name \<and> get_serializer r name = Inr s) \<and> content_type_of s = normalize_content_type ct)
    \<and> (resolve_serializer r (Some n) (Some ct) = Inr s \<longleftrightarrow> get_serializer r n = Inr s \<and> for_content_type r ct = Inr s)"
proof -
  have S: "\<And>m x. dict_get (sr_serializers r) m = Some x \<Longrightarrow> named m x \<and> dict_get (sr_content_types r) (content_type_of x) = Some m"
    and T: "\<And>c m. dict_get (sr_content_types r) c = Some m \<Longrightarrow> \<exists>x. dict_get (sr_serializers r) m = Some x \<and> content_type_of x = c"
    using registry_made_ok [OF assms] by (auto simp: serializers_ok_def)
  have get: "get_serializer r m = Inr s \<longleftrightarrow> dict_get (sr_serializers r) (normalize_name m) = Some s" for m
    by (simp add: get_serializer_def split: option.split)
  have type: "for_content_type r ct = Inr s
      \<longleftrightarrow> (\<exists>m. dict_get (sr_content_types r) (normalize_content_type ct) = Some m \<and> dict_get (sr_serializers r) m = Some s)"
    by (simp add: for_content_type_def split: option.split)
  have named: "(\<exists>m. dict_get (sr_serializers r) m = Some s) \<longleftrightarrow> (\<exists>name. sz_name s = Some name \<and> get_serializer r name = Inr s)"
    unfolding get using S [of _ s] by (cases "sz_name s") (auto simp: named_def)
  have exact: "for_content_type r ct = Inr s
      \<longleftrightarrow> (\<exists>m. dict_get (sr_serializers r) m = Some s) \<and> content_type_of s = normalize_content_type ct"
  proof
    assume "for_content_type r ct = Inr s"
    then obtain m where "dict_get (sr_content_types r) (normalize_content_type ct) = Some m" "dict_get (sr_serializers r) m = Some s"
      unfolding type by blast
    with T [OF this(1)] show "(\<exists>m. dict_get (sr_serializers r) m = Some s) \<and> content_type_of s = normalize_content_type ct" by auto
  next
    assume "(\<exists>m. dict_get (sr_serializers r) m = Some s) \<and> content_type_of s = normalize_content_type ct"
    then show "for_content_type r ct = Inr s" unfolding type by (metis S)
  qed
  have "resolve_serializer r (Some n) (Some ct) = Inr s
      \<longleftrightarrow> get_serializer r n = Inr s \<and> content_type_of s = normalize_content_type ct"
    by (auto simp: resolve_serializer_def bindr_eq_Inr)
  with exact named get show ?thesis by metis
qed

definition sample_serializers :: serializer_registry where
  "sample_serializers =
     registry_with_defaults (json_serializer 1 (\<lambda>_. Inr ''{}'') (\<lambda>_. raise ValueError) True) (msgpack_serializer 2 False (\<lambda>_. Inr []) (\<lambda>_. raise ValueError))"

theorem serializers_resolve_exactly_witness:
  "for_content_type sample_serializers ''Application/JSON; charset=utf-8''
     = Inr (json_serializer 1 (\<lambda>_. Inr ''{}'') (\<lambda>_. raise ValueError) True)"
proof -
  let ?json = "json_serializer 1 (\<lambda>_. Inr ''{}'') (\<lambda>_. raise ValueError) True"
  have "registry_made sample_serializers"
    unfolding sample_serializers_def registry_with_defaults_def by (intro registry_made.intros)
  from serializers_resolve_exactly [OF this, of "''Application/JSON; charset=utf-8''" ?json]
  have "for_content_type sample_serializers ''Application/JSON; charset=utf-8'' = Inr ?json
      \<longleftrightarrow> (\<exists>name. sz_name ?json = Some name \<and> get_serializer sample_serializers name = Inr ?json)
        \<and> content_type_of ?json = normalize_content_type ''Application/JSON; charset=utf-8''"
    by blast
  moreover have "content_type_of ?json = normalize_content_type ''Application/JSON; charset=utf-8''" by code_simp
  moreover have "get_serializer sample_serializers ''json'' = Inr ?json"
  proof -
    have names: "normalize_name ''json'' = ''json''" "normalize_name ''msgpack'' = ''msgpack''"
      "normalize_content_type ''application/json'' = ''application/json''"
      "normalize_content_type ''application/msgpack'' = ''application/msgpack''"
      "strip ''json'' \<noteq> []" "strip ''msgpack'' \<noteq> []" "strip ''application/json'' \<noteq> []" "strip ''application/msgpack'' \<noteq> []"
      by code_simp+
    then show ?thesis
      by (simp add: sample_serializers_def registry_with_defaults_def register_serializer_def serializer_contract_def
          json_serializer_def msgpack_serializer_def new_serializer_registry_def enter_serializer_def get_serializer_def Let_def)
  qed
  ultimately show ?thesis by (simp add: json_serializer_def)
qed

text \<open>The hook accepts exactly the objects without a repeated key.\<close>

lemma reject_duplicates_exact:
  "distinct (map fst d) \<Longrightarrow>
   reject_duplicates d kvs = (if distinct (map fst (d @ kvs)) then Inr (d @ kvs) else raise ValueError)"
proof (induction d kvs rule: reject_duplicates.induct)
  case (2 d k v kvs)
  show ?case
  proof (cases "dict_has d k")
    case True
    then have "k \<in> fst ` set d" by (auto simp: dict_has_def map_of_eq_None_iff)
    with True show ?thesis by auto
  next
    case False
    then have "dict_set k v d = d @ [(k, v)]" "k \<notin> fst ` set d"
      by (auto simp: dict_has_def dict_set_fresh map_of_eq_None_iff)
    with 2 False show ?thesis by auto
  qed
qed simp

text \<open>Pickle never looks at bytes that are not trusted, whatever its codec.\<close>

lemma pickle_refuses_untrusted:
  "\<not> dc_trusted ctx \<or> \<not> allow_unsafe \<Longrightarrow> pickle_decode allow_unsafe wrapped loads ctx bytes = raise UnsafeSerializationError"
  by (auto simp: pickle_decode_def ensure_enabled_def)

text \<open>The parser's \<open>RecursionError\<close>, a \<open>RuntimeError\<close>, on deeply nested bytes is not made a \<open>SerializationError\<close>.\<close>

lemma deep_json_escapes:
  "json_decode (\<lambda>_. raise RuntimeError) \<lparr>dc_trusted = False, dc_max_size = 10\<rparr> ''[[[['' = raise RuntimeError"
proof -
  have "\<not> isinstance (PyExc RuntimeError False) ValueError" by code_simp
  then show ?thesis by (simp add: json_decode_def serialization_failure_def)
qed

end
