(* ===== verification/Settings.thy ===== *)
theory Settings
  imports Configuration Backoff Retry Circuit
begin

text \<open>
  \<open>broka/config.py\<close>: the validated settings of a broker and their layers; and the readers of \<open>broker.py\<close> that make
  policies of them. The configuration sources are mappings, configurations and providers. Reading a file is a parameter: it
  returns a mapping or raises.
\<close>

subsection \<open>Numbers written as text\<close>

text \<open>\<open>int(str)\<close> and \<open>float(str)\<close>: blanks around, a sign, digits with single underscores between them.\<close>

definition is_digit :: "char \<Rightarrow> bool" where
  "is_digit c \<longleftrightarrow> digit_value c \<noteq> None"

fun underscores_ok :: "bool \<Rightarrow> string \<Rightarrow> bool" where
  "underscores_ok after [] = True"
| "underscores_ok after (c # cs) =
     (if c = CHR ''_'' then after \<and> (case cs of [] \<Rightarrow> False | d # _ \<Rightarrow> is_digit d) \<and> underscores_ok False cs
      else underscores_ok (is_digit c) cs)"

fun split_sign :: "string \<Rightarrow> int \<times> string" where
  "split_sign [] = (1, [])"
| "split_sign (c # cs) = (if c = CHR ''+'' then (1, cs) else if c = CHR ''-'' then (- 1, cs) else (1, c # cs))"

definition parse_int :: "string \<Rightarrow> int option" where
  "parse_int s =
     (let (sign, t) = split_sign (strip s); ds = filter (\<lambda>c. c \<noteq> CHR ''_'') t in
      if ds = [] \<or> \<not> underscores_ok False t \<or> 4300 < length ds then None
      else map_option (\<lambda>n. sign * n) (read_digits 0 ds))"

definition scaled :: "int \<Rightarrow> int \<Rightarrow> rat" where
  "scaled m k = (if 0 \<le> k then of_int m * 10 ^ nat k else of_int m / 10 ^ nat (- k))"

definition parse_exponent :: "string \<Rightarrow> int option" where
  "parse_exponent s =
     (case s of
        [] \<Rightarrow> Some 0
      | c # cs \<Rightarrow>
          if c \<noteq> CHR ''e'' then None
          else (let (sign, ds) = split_sign cs in
                if ds = [] then None else map_option (\<lambda>n. sign * n) (read_digits 0 ds)))"

definition parse_decimal :: "string \<Rightarrow> rat option" where
  "parse_decimal s =
     (let whole = takeWhile is_digit s; rest = dropWhile is_digit s;
          (fraction, tail) = (case rest of c # cs \<Rightarrow> if c = CHR ''.'' then (takeWhile is_digit cs, dropWhile is_digit cs) else ([], rest)
                              | [] \<Rightarrow> ([], []))
      in if whole @ fraction = [] then None
         else case (read_digits 0 (whole @ fraction), parse_exponent tail) of
           (Some m, Some k) \<Rightarrow> Some (scaled m (k - int (length fraction)))
         | _ \<Rightarrow> None)"

definition parse_float :: "string \<Rightarrow> pyfloat option" where
  "parse_float s =
     (let (sign, t) = split_sign (strip s); u = casefold t in
      if u \<in> {''inf'', ''infinity''} then Some (if sign = 1 then PosInf else NegInf)
      else if u = ''nan'' then Some NaN
      else if \<not> underscores_ok False u then None
      else map_option (\<lambda>r. fl_over (Fin (of_int sign * r))) (parse_decimal (filter (\<lambda>c. c \<noteq> CHR ''_'') u)))"

definition float_of_int :: "int \<Rightarrow> pyfloat result" where
  "float_of_int n = (if double_limit \<le> \<bar>of_int n\<bar> then raise OverflowError else Inr (Fin (of_int n)))"

text \<open>\<open>float(x)\<close> of any value.\<close>

definition to_float :: "config_value \<Rightarrow> pyfloat result" where
  "to_float v =
     (case v of
        C_Bool b \<Rightarrow> Inr (Fin (if b then 1 else 0))
      | C_Int n \<Rightarrow> float_of_int n
      | C_Float x \<Rightarrow> Inr x
      | C_Str s \<Rightarrow> (case parse_float s of None \<Rightarrow> raise ValueError | Some x \<Rightarrow> Inr x)
      | _ \<Rightarrow> raise TypeError)"

definition as_int :: "config_value \<Rightarrow> int result" where
  "as_int v =
     (case v of
        C_Int n \<Rightarrow> Inr n
      | C_Str s \<Rightarrow> (case parse_int s of None \<Rightarrow> raise ConfigurationError | Some n \<Rightarrow> Inr n)
      | _ \<Rightarrow> raise ConfigurationError)"

definition as_float :: "config_value \<Rightarrow> pyfloat result" where
  "as_float v =
     (case v of
        C_Int n \<Rightarrow> float_of_int n
      | C_Float x \<Rightarrow> Inr x
      | C_Str s \<Rightarrow> (case parse_float s of None \<Rightarrow> raise ConfigurationError | Some x \<Rightarrow> Inr x)
      | _ \<Rightarrow> raise ConfigurationError)"

definition optional_float :: "config_value \<Rightarrow> pyfloat option result" where
  "optional_float v = (if v = C_None then Inr None else bindr (as_float v) (\<lambda>x. Inr (Some x)))"

definition get_or :: "config_map \<Rightarrow> string \<Rightarrow> config_value \<Rightarrow> config_value" where
  "get_or m k v = (case dict_get m k of None \<Rightarrow> v | Some x \<Rightarrow> x)"

lemma numbers_as_text:
  "parse_int '' -1_000 '' = Some (- 1000)" "parse_int ''1__0'' = None" "parse_int ''2.5'' = None"
  "parse_decimal ''2.5e1'' = Some 25" "parse_decimal ''.5'' = Some (1 / 2)" "parse_decimal ''1e'' = None"
  by code_simp+

subsection \<open>Serialization settings\<close>

record serialization_settings =
  ss_default :: string
  ss_allowed :: "string list"
  ss_options :: config_map

definition default_serialization :: serialization_settings where
  "default_serialization = \<lparr>ss_default = ''json'', ss_allowed = [''json''], ss_options = []\<rparr>"

text \<open>\<open>tuple(str(item) for item in value)\<close>; a mapping yields its keys.\<close>

definition iterated :: "(config_value \<Rightarrow> string) \<Rightarrow> config_value \<Rightarrow> string list option" where
  "iterated str v =
     (case v of
        C_Str s \<Rightarrow> Some [s]
      | C_List xs \<Rightarrow> Some (map (text_of str) xs)
      | C_Tuple xs \<Rightarrow> Some (map (text_of str) xs)
      | C_Set xs \<Rightarrow> Some (map (text_of str) xs)
      | C_Frozenset xs \<Rightarrow> Some (map (text_of str) xs)
      | C_Map m \<Rightarrow> Some (map fst m)
      | _ \<Rightarrow> None)"

definition serialization_of :: "(config_value \<Rightarrow> string) \<Rightarrow> config_value \<Rightarrow> serialization_settings result" where
  "serialization_of str v =
     (case v of
        C_Str s \<Rightarrow> Inr \<lparr>ss_default = s, ss_allowed = [s], ss_options = []\<rparr>
      | C_None \<Rightarrow> Inr default_serialization
      | C_Map m \<Rightarrow>
          (case get_or m ''default'' (C_Str ''json'') of
             C_Str d \<Rightarrow>
               if d = [] then raise ConfigurationError
               else (case iterated str (get_or m ''allowed'' (C_Tuple [C_Str d])) of
                  None \<Rightarrow> raise ConfigurationError
                | Some allowed \<Rightarrow>
                    if d \<notin> set allowed then raise ConfigurationError
                    else Inr \<lparr>ss_default = d, ss_allowed = allowed,
                              ss_options = frozen_mapping str (filter (\<lambda>kv. fst kv \<notin> {''default'', ''allowed''}) m)\<rparr>)
           | _ \<Rightarrow> raise ConfigurationError)
      | _ \<Rightarrow> raise ConfigurationError)"

definition serialization_dict :: "(string \<Rightarrow> string) \<Rightarrow> bool \<Rightarrow> serialization_settings \<Rightarrow> config_map" where
  "serialization_dict clean reveal_secrets s =
     fold (\<lambda>(k, v). dict_set k v) (as_dict clean reveal_secrets (ss_options s))
       [(''default'', C_Str (ss_default s)), (''allowed'', C_List (map C_Str (ss_allowed s)))]"

subsection \<open>The configuration of a broker\<close>

record broker_config =
  bc_engine :: "string option"
  bc_engines :: config_map
  bc_serialization :: serialization_settings
  bc_reliability :: config_map
  bc_middleware :: config_map
  bc_routing :: config_map
  bc_lifecycle :: config_map
  bc_source :: "string option"
  bc_memory_fallback :: bool
  bc_extra :: config_map

definition require_mapping :: "config_value \<Rightarrow> config_map result" where
  "require_mapping v = (case v of C_None \<Rightarrow> Inr [] | C_Map m \<Rightarrow> Inr m | _ \<Rightarrow> raise ConfigurationError)"

definition known_keys :: "string list" where
  "known_keys =
     [''engine'', ''default_engine'', ''engines'', ''serialization'', ''reliability'', ''middleware'', ''routing'',
      ''lifecycle'', ''source'', ''allow_memory_fallback'']"

definition optional_text :: "config_value \<Rightarrow> string option result" where
  "optional_text v = (case v of C_None \<Rightarrow> Inr None | C_Str s \<Rightarrow> Inr (Some s) | _ \<Rightarrow> raise ConfigurationError)"

definition engine_name_of :: "config_value \<Rightarrow> string option result" where
  "engine_name_of v =
     bindr (optional_text v) (\<lambda>n. case n of None \<Rightarrow> Inr None | Some s \<Rightarrow> if strip s = [] then raise ConfigurationError else Inr n)"

definition engine_sections :: "config_map \<Rightarrow> config_map result" where
  "engine_sections m = map_result (\<lambda>kv. bindr (require_mapping (snd kv)) (\<lambda>s. Inr (fst kv, C_Map s))) m"

definition config_section :: "(config_value \<Rightarrow> string) \<Rightarrow> config_map \<Rightarrow> string \<Rightarrow> config_map result" where
  "config_section str data key = bindr (require_mapping (get_or data key (C_Map []))) (\<lambda>m. Inr (frozen_mapping str m))"

definition from_mapping :: "(config_value \<Rightarrow> string) \<Rightarrow> config_map \<Rightarrow> broker_config result" where
  "from_mapping str data =
     bindr (engine_name_of (get_or data ''engine'' (get_or data ''default_engine'' (C_Str ''memory'')))) (\<lambda>engine.
     bindr (require_mapping (get_or data ''engines'' (C_Map []))) (\<lambda>engines.
     bindr (engine_sections engines) (\<lambda>sections.
     bindr (optional_text (get_or data ''source'' C_None)) (\<lambda>source.
     case get_or data ''allow_memory_fallback'' (C_Bool False) of
       C_Bool fallback \<Rightarrow>
         bindr (serialization_of str (get_or data ''serialization'' C_None)) (\<lambda>serialization.
         bindr (config_section str data ''reliability'') (\<lambda>reliability.
         bindr (config_section str data ''middleware'') (\<lambda>middleware.
         bindr (config_section str data ''routing'') (\<lambda>routing.
         bindr (config_section str data ''lifecycle'') (\<lambda>lifecycle.
           Inr \<lparr>bc_engine = engine, bc_engines = frozen_mapping str sections, bc_serialization = serialization,
                bc_reliability = reliability, bc_middleware = middleware, bc_routing = routing, bc_lifecycle = lifecycle,
                bc_source = source, bc_memory_fallback = fallback,
                bc_extra = frozen_mapping str (filter (\<lambda>kv. fst kv \<notin> set known_keys) data)\<rparr>)))))
     | _ \<Rightarrow> raise ConfigurationError))))"

definition engine_settings :: "(config_value \<Rightarrow> string) \<Rightarrow> broker_config \<Rightarrow> string option \<Rightarrow> config_map result" where
  "engine_settings str c name =
     (case (case name of Some n \<Rightarrow> if n = [] then bc_engine c else Some n | None \<Rightarrow> bc_engine c) of
        None \<Rightarrow> Inr []
      | Some n \<Rightarrow> (case get_or (bc_engines c) n (C_Map []) of C_Map m \<Rightarrow> Inr (frozen_mapping str m) | _ \<Rightarrow> raise ConfigurationError))"

definition text_value :: "string option \<Rightarrow> config_value" where
  "text_value s = (case s of None \<Rightarrow> C_None | Some t \<Rightarrow> C_Str t)"

definition config_dict :: "(string \<Rightarrow> string) \<Rightarrow> bool \<Rightarrow> broker_config \<Rightarrow> config_map" where
  "config_dict clean reveal_secrets c =
     fold (\<lambda>(k, v). dict_set k v) (as_dict clean reveal_secrets (bc_extra c))
       [(''engine'', text_value (bc_engine c)),
        (''engines'', C_Map (as_dict clean reveal_secrets (bc_engines c))),
        (''serialization'', C_Map (serialization_dict clean reveal_secrets (bc_serialization c))),
        (''reliability'', C_Map (as_dict clean reveal_secrets (bc_reliability c))),
        (''middleware'', C_Map (as_dict clean reveal_secrets (bc_middleware c))),
        (''routing'', C_Map (as_dict clean reveal_secrets (bc_routing c))),
        (''lifecycle'', C_Map (as_dict clean reveal_secrets (bc_lifecycle c))),
        (''source'', text_value (bc_source c)),
        (''allow_memory_fallback'', C_Bool (bc_memory_fallback c))]"

definition with_overrides ::
  "(config_value \<Rightarrow> string) \<Rightarrow> (string \<Rightarrow> string) \<Rightarrow> broker_config \<Rightarrow> config_map \<Rightarrow> broker_config result"
where
  "with_overrides str clean c overrides = from_mapping str (deep_merge [config_dict clean True c, overrides])"

subsection \<open>Sources and loading\<close>

text \<open>What \<open>_as_mapping\<close> tells apart; \<open>Provided\<close> is what \<open>model_dump\<close>, \<open>load\<close> or the attribute of a settings module gives.\<close>

datatype config_source = No_source | From_config broker_config | From_mapping config_map | Provided "config_value result" | Unknown_source

fun as_mapping :: "(string \<Rightarrow> string) \<Rightarrow> config_source \<Rightarrow> config_map result" where
  "as_mapping clean No_source = Inr []"
| "as_mapping clean (From_config c) = Inr (config_dict clean True c)"
| "as_mapping clean (From_mapping m) = Inr m"
| "as_mapping clean (Provided r) = bindr r require_mapping"
| "as_mapping clean Unknown_source = raise ConfigurationError"

record load_request =
  lr_defaults :: config_source
  lr_files :: "config_value result list"
  lr_framework :: config_source
  lr_environment :: "(string, string) dict"
  lr_overrides :: config_source
  lr_include_environment :: bool

definition load_layers ::
  "(string \<Rightarrow> string) \<Rightarrow> (string \<Rightarrow> config_value option) \<Rightarrow> string \<Rightarrow> load_request \<Rightarrow> config_map list result"
where
  "load_layers clean json_loads prefix q =
     bindr (as_mapping clean (lr_defaults q)) (\<lambda>defaults.
     bindr (map_result (\<lambda>r. bindr r require_mapping) (lr_files q)) (\<lambda>files.
     bindr (as_mapping clean (lr_framework q)) (\<lambda>framework.
     bindr (as_mapping clean (lr_overrides q)) (\<lambda>overrides.
       Inr ([defaults] @ files @ [framework]
            @ (if lr_include_environment q then [environment_config json_loads (lr_environment q) prefix] else []) @ [overrides])))))"

definition load_config ::
  "(config_value \<Rightarrow> string) \<Rightarrow> (string \<Rightarrow> string) \<Rightarrow> (string \<Rightarrow> config_value option) \<Rightarrow> string \<Rightarrow> load_request \<Rightarrow> broker_config result"
where
  "load_config str clean json_loads prefix q =
     (if prefix = [] then raise ConfigurationError
      else bindr (load_layers clean json_loads prefix q) (\<lambda>layers. from_mapping str (deep_merge layers)))"

subsection \<open>Policies of the broker\<close>

text \<open>
  Policies as they are configured, with Python floats; \<open>finite_policy\<close> and \<open>finite_circuit\<close> are the records of \<open>Retry\<close>
  and \<open>Circuit\<close>, whose times are finite.
\<close>

record 'w retry_settings =
  rs_max_attempts :: int
  rs_max_elapsed :: "pyfloat option"
  rs_backoff :: "'w backoff"
  rs_attempt_timeout :: "pyfloat option"
  rs_name :: string

definition not_positive :: "pyfloat option \<Rightarrow> bool" where
  "not_positive x = (case x of None \<Rightarrow> False | Some f \<Rightarrow> fl_le f (Fin 0))"

definition validate_retry :: "'w retry_settings \<Rightarrow> unit result" where
  "validate_retry s =
     (if rs_max_attempts s < 1 \<or> not_positive (rs_max_elapsed s) \<or> not_positive (rs_attempt_timeout s) \<or> rs_name s = []
      then raise ValueError else Inr ())"

definition constructed :: "'w backoff \<Rightarrow> 'w backoff result" where
  "constructed b = bindr (new_backoff b) (\<lambda>_. Inr b)"

definition backoff_kind :: "(config_value \<Rightarrow> string) \<Rightarrow> config_map \<Rightarrow> string" where
  "backoff_kind str m =
     map (\<lambda>c. if c = CHR ''-'' then CHR ''_'' else c)
       (lower_text (text_of str (get_or m ''strategy'' (get_or m ''kind'' (C_Str ''full_jitter'')))))"

definition backoff_of :: "(config_value \<Rightarrow> string) \<Rightarrow> 'w sampler \<Rightarrow> config_value \<Rightarrow> 'w backoff result" where
  "backoff_of str rnd raw =
     (case raw of
        C_None \<Rightarrow> constructed (FullJitterBackoff (Fin 1) (Fin 2) (Some (Fin 60)) rnd)
      | C_Bool b \<Rightarrow> bindr (to_float raw) (\<lambda>x. constructed (FixedBackoff x))
      | C_Int n \<Rightarrow> bindr (to_float raw) (\<lambda>x. constructed (FixedBackoff x))
      | C_Float x \<Rightarrow> bindr (to_float raw) (\<lambda>x. constructed (FixedBackoff x))
      | C_Map m \<Rightarrow>
          (let kind = backoff_kind str m in
           bindr (to_float (get_or m ''initial'' (C_Float (Fin 1)))) (\<lambda>initial.
           bindr (case get_or m ''maximum'' (C_Float (Fin 60)) of C_None \<Rightarrow> Inr None
                  | v \<Rightarrow> bindr (to_float v) (\<lambda>x. Inr (Some x))) (\<lambda>maximum.
           bindr (to_float (get_or m ''multiplier'' (C_Float (Fin 2)))) (\<lambda>multiplier.
             if kind = ''fixed'' then bindr (to_float (get_or m ''seconds'' (C_Float initial))) (\<lambda>x. constructed (FixedBackoff x))
             else if kind = ''linear''
             then bindr (to_float (get_or m ''increment'' (C_Float (Fin 1)))) (\<lambda>x. constructed (LinearBackoff initial x maximum))
             else if kind = ''exponential'' then constructed (ExponentialBackoff initial multiplier maximum)
             else if kind \<in> {''full_jitter'', ''exponential_full_jitter''}
             then constructed (FullJitterBackoff initial multiplier maximum rnd)
             else if kind = ''equal_jitter'' then constructed (EqualJitterBackoff initial multiplier maximum rnd)
             else if kind = ''decorrelated_jitter''
             then (case maximum of None \<Rightarrow> raise ConfigurationError
                   | Some m \<Rightarrow> constructed (DecorrelatedJitterBackoff initial multiplier m rnd))
             else raise ConfigurationError))))
      | _ \<Rightarrow> raise ConfigurationError)"

definition mapping_or_empty :: "config_value \<Rightarrow> config_map" where
  "mapping_or_empty v = (case v of C_Map m \<Rightarrow> m | _ \<Rightarrow> [])"

definition retry_policy_of ::
  "(config_value \<Rightarrow> string) \<Rightarrow> 'w sampler \<Rightarrow> config_value \<Rightarrow> string \<Rightarrow> int \<Rightarrow> 'w retry_settings result"
where
  "retry_policy_of str rnd raw name default_attempts =
     (let values = mapping_or_empty raw in
      bindr (backoff_of str rnd (get_or values ''backoff'' C_None)) (\<lambda>backoff.
      bindr (as_int (get_or values ''max_attempts'' (C_Int default_attempts))) (\<lambda>attempts.
      bindr (optional_float (get_or values ''max_elapsed_time'' C_None)) (\<lambda>elapsed.
      bindr (optional_float (get_or values ''attempt_timeout'' C_None)) (\<lambda>timeout.
        let s = \<lparr>rs_max_attempts = attempts, rs_max_elapsed = elapsed, rs_backoff = backoff, rs_attempt_timeout = timeout,
                 rs_name = text_of str (get_or values ''name'' (C_Str name))\<rparr>
        in bindr (validate_retry s) (\<lambda>_. Inr s))))))"

record circuit_settings =
  ct_failure_threshold :: int
  ct_recovery_timeout :: pyfloat
  ct_half_open_max :: int
  ct_success_threshold :: int
  ct_window_size :: int
  ct_minimum_calls :: int
  ct_failure_rate :: "pyfloat option"

definition validate_circuit :: "circuit_settings \<Rightarrow> unit result" where
  "validate_circuit c =
     (if ct_failure_threshold c < 1 \<or> fl_lt (ct_recovery_timeout c) (Fin 0) \<or> ct_half_open_max c < 1
         \<or> ct_success_threshold c < 1 \<or> ct_window_size c < 1
         \<or> \<not> (1 \<le> ct_minimum_calls c \<and> ct_minimum_calls c \<le> ct_window_size c)
         \<or> (case ct_failure_rate c of None \<Rightarrow> False | Some r \<Rightarrow> \<not> (fl_le (Fin 0) r \<and> fl_le r (Fin 1)))
      then raise ValueError else Inr ())"

definition circuit_config_of :: "config_value \<Rightarrow> circuit_settings result" where
  "circuit_config_of raw =
     (let values = mapping_or_empty raw in
      bindr (as_int (get_or values ''failure_threshold'' (C_Int 5))) (\<lambda>threshold.
      bindr (as_float (get_or values ''recovery_timeout'' (C_Float (Fin 30)))) (\<lambda>recovery.
      bindr (as_int (get_or values ''half_open_max_calls'' (C_Int 1))) (\<lambda>half_open.
      bindr (as_int (get_or values ''success_threshold'' (C_Int 1))) (\<lambda>success.
      bindr (as_int (get_or values ''window_size'' (C_Int 20))) (\<lambda>window.
      bindr (as_int (get_or values ''minimum_calls'' (C_Int 5))) (\<lambda>minimum.
      bindr (optional_float (get_or values ''failure_rate_threshold'' C_None)) (\<lambda>rate.
        let c = \<lparr>ct_failure_threshold = threshold, ct_recovery_timeout = recovery, ct_half_open_max = half_open,
                 ct_success_threshold = success, ct_window_size = window, ct_minimum_calls = minimum, ct_failure_rate = rate\<rparr>
        in bindr (validate_circuit c) (\<lambda>_. Inr c)))))))))"

text \<open>The policies that a broker is built with, and the bound of its pending replies.\<close>

record 'w broker_policies =
  bp_publish :: "'w retry_settings"
  bp_handler :: "'w retry_settings"
  bp_circuit :: circuit_settings
  bp_max_pending :: int

definition broker_policies_of ::
  "(config_value \<Rightarrow> string) \<Rightarrow> 'w sampler \<Rightarrow> broker_config \<Rightarrow> 'w broker_policies result"
where
  "broker_policies_of str rnd c =
     bindr (retry_policy_of str rnd (get_or (bc_reliability c) ''publish_retry'' C_None) ''publish'' 3) (\<lambda>publish.
     bindr (retry_policy_of str rnd (get_or (bc_reliability c) ''handler_retry'' C_None) ''handler'' 3) (\<lambda>handler.
     bindr (circuit_config_of (get_or (bc_reliability c) ''circuit_breaker'' C_None)) (\<lambda>circuit.
     bindr (as_int (get_or (bc_extra c) ''rpc_max_pending'' (C_Int 1024))) (\<lambda>pending.
       if pending < 1 then raise ConfigurationError
       else Inr \<lparr>bp_publish = publish, bp_handler = handler, bp_circuit = circuit, bp_max_pending = pending\<rparr>))))"

definition finite_option :: "pyfloat option \<Rightarrow> rat option" where
  "finite_option x = (case x of Some (Fin r) \<Rightarrow> Some r | _ \<Rightarrow> None)"

text \<open>A limit that is infinite or not a number is never exceeded, like no limit.\<close>

definition finite_policy :: "classifier \<Rightarrow> 'w retry_settings \<Rightarrow> 'w retry_policy" where
  "finite_policy classifier s =
     \<lparr>rp_max_attempts = rs_max_attempts s, rp_max_elapsed = finite_option (rs_max_elapsed s),
      rp_backoff = backoff_delay (rs_backoff s), rp_classifier = classifier, rp_budget = None,
      rp_attempt_timeout = finite_option (rs_attempt_timeout s), rp_cancellation = CB_PROPAGATE,
      rp_terminal_action = TA_RAISE, rp_name = rs_name s\<rparr>"

definition finite_circuit :: "circuit_settings \<Rightarrow> circuit_config option" where
  "finite_circuit c =
     (case ct_recovery_timeout c of
        Fin r \<Rightarrow> Some \<lparr>cc_failure_threshold = ct_failure_threshold c, cc_recovery_timeout = r,
                    cc_half_open_max = ct_half_open_max c, cc_success_threshold = ct_success_threshold c,
                    cc_window_size = ct_window_size c, cc_minimum_calls = ct_minimum_calls c,
                    cc_failure_rate = finite_option (ct_failure_rate c), cc_excluded = []\<rparr>
      | _ \<Rightarrow> None)"

subsection \<open>Lemmas\<close>

text \<open>The configurations that \<open>from_mapping\<close> makes of plain data.\<close>

definition config_settled :: "broker_config \<Rightarrow> bool" where
  "config_settled c \<longleftrightarrow>
     (case bc_engine c of None \<Rightarrow> True | Some n \<Rightarrow> strip n \<noteq> [])
     \<and> settled_mapping (bc_engines c) \<and> list_all (is_mapping \<circ> snd) (bc_engines c)
     \<and> ss_default (bc_serialization c) \<noteq> [] \<and> ss_default (bc_serialization c) \<in> set (ss_allowed (bc_serialization c))
     \<and> settled_mapping (ss_options (bc_serialization c)) \<and> distinct (map fst (ss_options (bc_serialization c)))
     \<and> list_all (\<lambda>k. k \<notin> {''default'', ''allowed''}) (map fst (ss_options (bc_serialization c)))
     \<and> settled_mapping (bc_reliability c) \<and> settled_mapping (bc_middleware c) \<and> settled_mapping (bc_routing c)
     \<and> settled_mapping (bc_lifecycle c) \<and> settled_mapping (bc_extra c) \<and> distinct (map fst (bc_extra c))
     \<and> list_all (\<lambda>k. k \<notin> set known_keys) (map fst (bc_extra c))"

lemma fold_dict_set_append:
  "distinct (map fst xs) \<Longrightarrow> set (map fst xs) \<inter> set (map fst d) = {} \<Longrightarrow> fold (\<lambda>(k, v). dict_set k v) xs d = d @ xs"
proof (induction xs arbitrary: d)
  case (Cons x xs)
  have "dict_get d (fst x) = None" using Cons.prems by (auto simp: map_of_eq_None_iff)
  then have "dict_set (fst x) (snd x) d = d @ [x]" by (simp add: dict_set_fresh)
  with Cons show ?case by (auto simp: case_prod_beta)
qed simp

lemma revealed_keys [simp]: "map fst (revealed_dict m) = map fst m"
  by (simp add: revealed_dict_def comp_def)

lemma frozen_keys [simp]: "map fst (frozen_mapping str m) = map fst m"
  by (simp add: frozen_mapping_def comp_def)

lemma merge_nothing: "distinct (map fst m) \<Longrightarrow> deep_merge [m, []] = m"
proof -
  have "merge_source xs d = fold (\<lambda>(k, v). dict_set k v) xs d"
    if "distinct (map fst xs)" "set (map fst xs) \<inter> set (map fst d) = {}" for xs d
    using that
  proof (induction xs arbitrary: d)
    case (Cons x xs)
    have "dict_get d (fst x) = None" using Cons.prems by (auto simp: map_of_eq_None_iff)
    moreover have "merge_value None (snd x) = snd x" by (cases "snd x") simp_all
    ultimately show ?case using Cons by (simp add: merge_source_def case_prod_beta dict_set_fresh)
  qed (simp add: merge_source_def)
  then show "distinct (map fst m) \<Longrightarrow> deep_merge [m, []] = m"
    by (simp add: deep_merge_def fold_dict_set_append merge_source_def)
qed

lemma serialization_again:
  assumes "d \<noteq> []" and "d \<in> set allowed" and "settled_mapping options"
    and "list_all (\<lambda>k. k \<notin> {''default'', ''allowed''}) (map fst options)" and "distinct (map fst options)"
  shows "serialization_of str (C_Map (serialization_dict clean True \<lparr>ss_default = d, ss_allowed = allowed, ss_options = options\<rparr>))
    = Inr \<lparr>ss_default = d, ss_allowed = allowed, ss_options = options\<rparr>"
proof -
  have dict: "serialization_dict clean True \<lparr>ss_default = d, ss_allowed = allowed, ss_options = options\<rparr>
      = [(''default'', C_Str d), (''allowed'', C_List (map C_Str allowed))] @ revealed_dict options"
    unfolding serialization_dict_def as_dict_def
    using assms(4,5) by (subst fold_dict_set_append) (auto simp: list_all_iff)
  have "filter (\<lambda>kv. fst kv \<notin> {''default'', ''allowed''}) (revealed_dict options) = revealed_dict options"
    using assms(4) by (intro filter_True) (auto simp: list_all_iff revealed_dict_def)
  then show ?thesis
    unfolding dict using assms(1-3)
    by (simp add: serialization_of_def get_or_def iterated_def text_of_def comp_def frozen_revealed)
qed

lemma engine_sections_again:
  "list_all (is_mapping \<circ> snd) m \<Longrightarrow> engine_sections m = Inr m"
  unfolding engine_sections_def
proof (induction m)
  case (Cons x m)
  then show ?case by (cases x; cases "snd x") (simp_all add: require_mapping_def)
qed simp

lemma revealed_mappings: "list_all (is_mapping \<circ> snd) m \<Longrightarrow> list_all (is_mapping \<circ> snd) (revealed_dict m)"
  by (induction m) (auto simp: revealed_dict_def elim!: is_mapping.elims)

lemma config_dict_again:
  assumes "config_settled c"
  shows "distinct (map fst (config_dict clean True c)) \<and> from_mapping str (config_dict clean True c) = Inr c"
proof -
  obtain engine engines s reliability middleware routing lifecycle source fallback extra where c:
    "c = \<lparr>bc_engine = engine, bc_engines = engines, bc_serialization = s, bc_reliability = reliability, bc_middleware = middleware,
       bc_routing = routing, bc_lifecycle = lifecycle, bc_source = source, bc_memory_fallback = fallback, bc_extra = extra\<rparr>"
    by (cases c)
  obtain d allowed options where s: "s = \<lparr>ss_default = d, ss_allowed = allowed, ss_options = options\<rparr>" by (cases s)
  let ?base = "[(''engine'', text_value engine), (''engines'', C_Map (revealed_dict engines)),
        (''serialization'', C_Map (serialization_dict clean True s)), (''reliability'', C_Map (revealed_dict reliability)),
        (''middleware'', C_Map (revealed_dict middleware)), (''routing'', C_Map (revealed_dict routing)),
        (''lifecycle'', C_Map (revealed_dict lifecycle)), (''source'', text_value source),
        (''allow_memory_fallback'', C_Bool fallback)]"
  have extra: "distinct (map fst extra)" "list_all (\<lambda>k. k \<notin> set known_keys) (map fst extra)"
    using assms by (simp_all add: config_settled_def c)
  have dict: "config_dict clean True c = ?base @ revealed_dict extra"
    unfolding config_dict_def as_dict_def c using extra
    by (subst fold_dict_set_append) (auto simp: list_all_iff known_keys_def)
  have keys: "dict_get (revealed_dict extra) k = None" if "k \<in> set known_keys" for k
    using that extra(2) by (auto simp: map_of_eq_None_iff list_all_iff simp flip: set_map)
  have rest: "filter (\<lambda>kv. fst kv \<notin> set known_keys) (?base @ revealed_dict extra) = revealed_dict extra"
  proof -
    have "filter (\<lambda>kv. fst kv \<notin> set known_keys) (revealed_dict extra) = revealed_dict extra"
      using extra(2) by (intro filter_True) (auto simp: list_all_iff revealed_dict_def)
    then show ?thesis by (simp add: known_keys_def)
  qed
  have engine: "engine_name_of (text_value engine) = Inr engine" "optional_text (text_value source) = Inr source"
    using assms by (auto simp: config_settled_def c engine_name_of_def text_value_def optional_text_def split: option.splits)
  have serial: "serialization_of str (C_Map (serialization_dict clean True s)) = Inr s"
    unfolding s using assms by (intro serialization_again) (simp_all add: config_settled_def c s)
  have "engine_sections (revealed_dict engines) = Inr (revealed_dict engines)"
    using assms by (intro engine_sections_again revealed_mappings) (simp add: config_settled_def c)
  moreover have "frozen_mapping str (revealed_dict m) = m" if "m \<in> {engines, reliability, middleware, routing, lifecycle, extra}" for m
    using assms that by (intro frozen_revealed) (auto simp: config_settled_def c)
  ultimately have "from_mapping str (?base @ revealed_dict extra) = Inr c"
    unfolding from_mapping_def rest
    by (simp add: get_or_def engine serial require_mapping_def config_section_def c)
  moreover have "distinct (map fst (?base @ revealed_dict extra))"
    using extra by (auto simp: list_all_iff known_keys_def)
  ultimately show ?thesis unfolding dict by blast
qed

text \<open>
  Data without sets and without loose secrets, whose engines are not named like a secret and whose serializer has a name.
\<close>

definition plain_map :: "config_map \<Rightarrow> bool" where
  "plain_map m \<longleftrightarrow> list_all (\<lambda>kv. plain (Some (fst kv)) (snd kv)) m"

definition plain_config :: "config_map \<Rightarrow> bool" where
  "plain_config data \<longleftrightarrow>
     distinct (map fst data) \<and> plain_map data
     \<and> (case get_or data ''engines'' C_None of C_Map m \<Rightarrow> list_all (\<lambda>k. \<not> is_secret_key k) (map fst m) | _ \<Rightarrow> True)
     \<and> (case get_or data ''serialization'' C_None of C_Str s \<Rightarrow> s \<noteq> [] | C_Map m \<Rightarrow> distinct (map fst m) | _ \<Rightarrow> True)"

lemma plain_get: "plain_map data \<Longrightarrow> dict_get data k = Some v \<Longrightarrow> plain (Some k) v"
  by (force simp: plain_map_def list_all_iff dest: map_of_SomeD)

lemma bindrE: "bindr r f = Inr y \<Longrightarrow> (\<And>x. r = Inr x \<Longrightarrow> f x = Inr y \<Longrightarrow> thesis) \<Longrightarrow> thesis"
  by (auto simp: bindr_eq_Inr)

lemma bool_caseE:
  assumes "(case v of C_Bool b \<Rightarrow> f b | _ \<Rightarrow> raise ConfigurationError) = Inr y"
  obtains b where "v = C_Bool b" and "f b = Inr y"
  using assms by (cases v) auto

lemma section_settled:
  assumes "config_section str data k = Inr m" and "plain_map data"
  shows "settled_mapping m"
proof -
  obtain raw where "require_mapping (get_or data k (C_Map [])) = Inr raw" and m: "m = frozen_mapping str raw"
    using assms(1) by (auto simp: config_section_def bindr_eq_Inr)
  then have "plain_map raw"
    using plain_get [OF assms(2)]
    by (force simp: require_mapping_def get_or_def plain_map_def split: option.splits config_value.splits)
  then show ?thesis unfolding m plain_map_def by (rule frozen_settled)
qed

lemma engines_settled:
  assumes "require_mapping (get_or data ''engines'' (C_Map [])) = Inr raw" and "engine_sections raw = Inr engines"
    and "plain_config data"
  shows "settled_mapping (frozen_mapping str engines) \<and> list_all (is_mapping \<circ> snd) (frozen_mapping str engines)"
proof -
  have data: "plain_map data" "\<And>m. get_or data ''engines'' C_None = C_Map m \<Longrightarrow> list_all (\<lambda>k. \<not> is_secret_key k) (map fst m)"
    using assms(3) by (simp_all add: plain_config_def)
  have raw: "list_all (\<lambda>kv. plain (Some (fst kv)) (snd kv) \<and> \<not> is_secret_key (fst kv)) raw"
    using assms(1) plain_get [OF data(1), of "''engines''"] data(2) [of raw]
    by (auto simp: require_mapping_def get_or_def list_all_iff split: option.splits config_value.splits)
  from assms(2) have "list_all2 (\<lambda>x y. bindr (require_mapping (snd x)) (\<lambda>s. Inr (fst x, C_Map s)) = Inr y) raw engines"
    by (simp add: engine_sections_def map_result_Inr)
  then have "list_all (\<lambda>kv. plain (Some (fst kv)) (snd kv) \<and> \<not> is_secret_key (fst kv) \<and> is_mapping (snd kv)) engines"
    using raw
    by (induction rule: list_all2_induct)
      (auto simp: bindr_eq_Inr require_mapping_def split: config_value.splits)
  then show ?thesis
    by (auto simp: settled_mapping_def frozen_mapping_def list_all_iff freeze_settled sealed_def secret_field_def
        elim!: is_mapping.elims)
qed

lemma serialization_settled:
  assumes "serialization_of str v = Inr s"
    and "case v of C_Str t \<Rightarrow> t \<noteq> [] | C_Map m \<Rightarrow> distinct (map fst m) \<and> plain_map m | _ \<Rightarrow> True"
  shows "ss_default s \<noteq> [] \<and> ss_default s \<in> set (ss_allowed s) \<and> settled_mapping (ss_options s) \<and> distinct (map fst (ss_options s))
    \<and> list_all (\<lambda>k. k \<notin> {''default'', ''allowed''}) (map fst (ss_options s))"
proof (cases v)
  case (C_Map m)
  have "list_all (\<lambda>kv. plain (Some (fst kv)) (snd kv)) (filter (\<lambda>kv. fst kv \<notin> {''default'', ''allowed''}) m)"
    using assms(2) C_Map by (simp add: plain_map_def list_all_iff)
  note options = frozen_settled [OF this, of str]
  have keys: "list_all (\<lambda>k. k \<notin> {''default'', ''allowed''}) (map fst (frozen_mapping str (filter (\<lambda>kv. fst kv \<notin> {''default'', ''allowed''}) m)))"
    by (simp only: frozen_keys) (simp add: list_all_iff)
  from options keys assms C_Map show ?thesis
    by (auto simp: serialization_of_def distinct_map_filter split: config_value.splits if_splits option.splits)
qed (use assms in \<open>auto simp: serialization_of_def default_serialization_def settled_mapping_def\<close>)

lemma from_mapping_parts:
  assumes "from_mapping str data = Inr c"
  obtains engine raw engines source fallback s rel mid rou lif where
    "engine_name_of (get_or data ''engine'' (get_or data ''default_engine'' (C_Str ''memory''))) = Inr engine"
    "require_mapping (get_or data ''engines'' (C_Map [])) = Inr raw" "engine_sections raw = Inr engines"
    "optional_text (get_or data ''source'' C_None) = Inr source" "get_or data ''allow_memory_fallback'' (C_Bool False) = C_Bool fallback"
    "serialization_of str (get_or data ''serialization'' C_None) = Inr s" "config_section str data ''reliability'' = Inr rel"
    "config_section str data ''middleware'' = Inr mid" "config_section str data ''routing'' = Inr rou"
    "config_section str data ''lifecycle'' = Inr lif"
    "c = \<lparr>bc_engine = engine, bc_engines = frozen_mapping str engines, bc_serialization = s,
                bc_reliability = rel, bc_middleware = mid, bc_routing = rou, bc_lifecycle = lif,
                bc_source = source, bc_memory_fallback = fallback,
                bc_extra = frozen_mapping str (filter (\<lambda>kv. fst kv \<notin> set known_keys) data)\<rparr>"
  using assms unfolding from_mapping_def by (elim bindrE bool_caseE) (rule that, assumption+, erule Inr_inject [symmetric])

lemma from_mapping_settled:
  assumes "from_mapping str data = Inr c" and "plain_config data"
  shows "config_settled c"
proof -
  have plain: "plain_map data" "distinct (map fst data)" using assms(2) by (simp_all add: plain_config_def)
  from from_mapping_parts [OF assms(1)] obtain engine raw engines source fallback s rel mid rou lif where
    parts: "engine_name_of (get_or data ''engine'' (get_or data ''default_engine'' (C_Str ''memory''))) = Inr engine"
      "require_mapping (get_or data ''engines'' (C_Map [])) = Inr raw" "engine_sections raw = Inr engines"
      "serialization_of str (get_or data ''serialization'' C_None) = Inr s" "config_section str data ''reliability'' = Inr rel"
      "config_section str data ''middleware'' = Inr mid" "config_section str data ''routing'' = Inr rou"
      "config_section str data ''lifecycle'' = Inr lif"
    and c: "c = \<lparr>bc_engine = engine, bc_engines = frozen_mapping str engines, bc_serialization = s,
                bc_reliability = rel, bc_middleware = mid, bc_routing = rou, bc_lifecycle = lif,
                bc_source = source, bc_memory_fallback = fallback,
                bc_extra = frozen_mapping str (filter (\<lambda>kv. fst kv \<notin> set known_keys) data)\<rparr>"
    by metis
  have "plain (Some ''serialization'') (get_or data ''serialization'' C_None)"
    using plain_get [OF plain(1), of "''serialization''"] by (simp add: get_or_def split: option.split)
  then have "case get_or data ''serialization'' C_None of C_Str t \<Rightarrow> t \<noteq> [] | C_Map m \<Rightarrow> distinct (map fst m) \<and> plain_map m | _ \<Rightarrow> True"
    using assms(2) by (cases "get_or data ''serialization'' C_None") (simp_all add: plain_config_def plain_map_def)
  note serial = serialization_settled [OF parts(4) this]
  have "list_all (\<lambda>kv. plain (Some (fst kv)) (snd kv)) (filter (\<lambda>kv. fst kv \<notin> set known_keys) data)"
    using plain(1) by (simp add: plain_map_def list_all_iff)
  note extra = frozen_settled [OF this]
  have "case engine of None \<Rightarrow> True | Some n \<Rightarrow> strip n \<noteq> []"
    using parts(1) by (auto simp: engine_name_of_def bindr_eq_Inr split: option.splits if_splits)
  then show ?thesis
    unfolding config_settled_def c
    using serial extra engines_settled [OF parts(2,3) assms(2)] section_settled [OF parts(5) plain(1)]
      section_settled [OF parts(6) plain(1)] section_settled [OF parts(7) plain(1)] section_settled [OF parts(8) plain(1)] plain(2)
    by (simp add: distinct_map_filter) (simp add: list_all_iff)
qed

text \<open>Configurations that look the same stay so through \<open>from_mapping\<close>.\<close>

lemma looks_get:
  assumes "mappings_look_same clean data data'"
  shows "rel_option (looks_same clean (Some k)) (dict_get data k) (dict_get data' k)"
  using assms unfolding mappings_look_same_def by (induction rule: list_all2_induct) auto

lemma looks_same_map:
  assumes "looks_same clean (Some k) (C_Map m) (C_Map m')" and "\<not> is_secret_key k"
  shows "mappings_look_same clean m m'"
  using assms(1)
proof (cases rule: looks_same.cases)
  case same
  then show ?thesis by (auto simp: mappings_look_same_def intro: list_all2_refl looks_same.same)
next
  case hidden
  then show ?thesis using assms(2) by (simp add: secret_field_def)
next
  case mappings
  then show ?thesis by (simp add: mappings_look_same_def)
qed

lemma looks_same_refl: "mappings_look_same clean m m"
  by (auto simp: mappings_look_same_def intro: list_all2_refl looks_same.same)

lemma require_looks_same:
  assumes "mappings_look_same clean data data'" and "\<not> is_secret_key k"
    and "require_mapping (get_or data k (C_Map [])) = Inr m" and "require_mapping (get_or data' k (C_Map [])) = Inr m'"
  shows "mappings_look_same clean m m'"
proof -
  consider "dict_get data k = None" "dict_get data' k = None"
    | v w where "dict_get data k = Some v" "dict_get data' k = Some w" "looks_same clean (Some k) v w"
    using looks_get [OF assms(1), of k] by (auto simp: option.rel_sel)
  then show ?thesis
  proof cases
    case 1
    then show ?thesis using assms(3,4) looks_same_refl by (simp add: get_or_def require_mapping_def)
  next
    case 2
    show ?thesis
    proof (cases "v = w")
      case True
      then show ?thesis using 2 assms(3,4) looks_same_refl by (simp add: get_or_def)
    next
      case False
      have "v = C_Map m \<and> w = C_Map m'"
        using 2(3) False assms 2(1,2)
        by (cases rule: looks_same.cases)
          (auto simp: get_or_def require_mapping_def secret_field_def split: config_value.splits)
      with 2 assms(2) looks_same_map show ?thesis by blast
    qed
  qed
qed

lemma section_looks_same:
  assumes "mappings_look_same clean data data'" and "\<not> is_secret_key k"
    and "config_section str data k = Inr m" and "config_section str data' k = Inr m'"
  shows "redacted_dict clean m = redacted_dict clean m'"
  using assms(3,4) require_looks_same [OF assms(1,2)] redacted_looks_same
  unfolding config_section_def bindr_eq_Inr by blast

lemma section_of_mapping:
  "bindr (require_mapping v) (\<lambda>s. Inr (k, C_Map s)) = Inr y \<Longrightarrow> y = (k, v) \<or> v = C_None \<and> y = (k, C_Map [])"
  by (cases v) (auto simp: require_mapping_def)

lemma engines_look_same:
  assumes "mappings_look_same clean raw raw'" and "engine_sections raw = Inr es" and "engine_sections raw' = Inr es'"
  shows "mappings_look_same clean es es'"
  using assms unfolding mappings_look_same_def engine_sections_def map_result_Inr
proof (induction arbitrary: es es' rule: list_all2_induct)
  case (Cons x xs y ys)
  then obtain e es1 e' es1' where es: "es = e # es1" "es' = e' # es1'"
    and one: "bindr (require_mapping (snd x)) (\<lambda>s. Inr (fst x, C_Map s)) = Inr e"
      "bindr (require_mapping (snd y)) (\<lambda>s. Inr (fst y, C_Map s)) = Inr e'"
    and rest: "list_all2 (\<lambda>x y. bindr (require_mapping (snd x)) (\<lambda>s. Inr (fst x, C_Map s)) = Inr y) xs es1"
      "list_all2 (\<lambda>x y. bindr (require_mapping (snd x)) (\<lambda>s. Inr (fst x, C_Map s)) = Inr y) ys es1'"
    by (auto simp: list_all2_Cons1)
  have xy: "fst x = fst y" "looks_same clean (Some (fst x)) (snd x) (snd y)" using Cons.hyps(1) by blast+
  have "fst e = fst e' \<and> looks_same clean (Some (fst e)) (snd e) (snd e')"
  proof (cases "snd x = snd y")
    case True
    with one xy(1) show ?thesis by (auto intro: looks_same.same)
  next
    case False
    with xy(2) have "snd x \<noteq> C_None" "snd y \<noteq> C_None" by (auto simp: secret_field_def elim: looks_same.cases split: option.splits)
    with one xy section_of_mapping [OF one(1)] section_of_mapping [OF one(2)] show ?thesis by auto
  qed
  then show ?case unfolding es list_all2_Cons using Cons.IH [OF rest] by (rule conjI)
qed simp

lemma filter_looks_same:
  "mappings_look_same clean m m' \<Longrightarrow> mappings_look_same clean (filter (\<lambda>kv. P (fst kv)) m) (filter (\<lambda>kv. P (fst kv)) m')"
  unfolding mappings_look_same_def by (induction rule: list_all2_induct) auto

text \<open>Accepted policies.\<close>

lemma constructed_Inr: "constructed b = Inr b' \<longleftrightarrow> b' = b \<and> new_backoff b = Inr ()"
  by (auto simp: constructed_def bindr_eq_Inr)

lemma backoff_of_valid: "backoff_of str rnd raw = Inr b \<Longrightarrow> new_backoff b = Inr ()"
  unfolding backoff_of_def Let_def
  by (cases raw) (auto simp: constructed_Inr split: if_splits option.splits elim!: bindrE)

lemma validate_retry_finite:
  "validate_retry s = Inr u \<Longrightarrow> validate_policy (finite_policy classifier s) = Inr ()"
  by (auto simp: validate_retry_def validate_policy_def finite_policy_def finite_option_def not_positive_def
      split: if_splits option.splits pyfloat.splits)

lemma retry_policy_of_valid:
  assumes "retry_policy_of str rnd raw name n = Inr s"
  shows "validate_policy (finite_policy classifier s) = Inr () \<and> new_backoff (rs_backoff s) = Inr ()"
  using assms unfolding retry_policy_of_def Let_def
  by (elim bindrE) (auto dest: backoff_of_valid validate_retry_finite)

lemma circuit_config_of_valid:
  assumes "circuit_config_of raw = Inr c"
  shows "case finite_circuit c of None \<Rightarrow> \<not> fl_finite (ct_recovery_timeout c) | Some cc \<Rightarrow> validate_config cc = Inr ()"
proof -
  have "validate_circuit c = Inr ()" using assms unfolding circuit_config_of_def Let_def by (elim bindrE) auto
  then show ?thesis
    by (cases "ct_recovery_timeout c")
      (auto simp: finite_circuit_def validate_circuit_def validate_config_def finite_option_def
        split: if_splits option.splits pyfloat.splits)
qed

subsection \<open>Properties\<close>

text \<open>
  C35: a configuration survives being written and read. Whatever \<open>from_mapping\<close> makes of plain data is made again, field by field,
  secrets included, of its own revealed dictionary, and \<open>with_overrides\<close> without overrides changes nothing.
\<close>

theorem config_roundtrip:
  assumes "from_mapping str data = Inr c" and "plain_config data"
  shows "from_mapping str (config_dict clean True c) = Inr c \<and> with_overrides str clean c [] = Inr c"
  using config_dict_again [OF from_mapping_settled [OF assms]] merge_nothing by (simp add: with_overrides_def)

definition config_sample :: config_map where
  "config_sample =
     [(''engine'', C_Str ''redis''), (''engines'', C_Map [(''redis'', C_Map [(''password'', C_Int 7), (''db'', C_Int 1)])]),
      (''serialization'', C_Str ''json''), (''lifecycle'', C_Map [(''heartbeat_interval'', C_None)]), (''rpc_timeout'', C_Int 5)]"

definition sample_config :: "broker_config result" where
  "sample_config = from_mapping (\<lambda>v. ''7'') config_sample"

theorem config_roundtrip_witness:
  "(case sample_config of Inl e \<Rightarrow> False
    | Inr c \<Rightarrow> engine_settings (\<lambda>v. ''7'') c None = Inr [(''password'', C_Secret ''7''), (''db'', C_Int 1)]
        \<and> with_overrides (\<lambda>v. ''7'') id c [] = Inr c)"
proof -
  have "case sample_config of Inl e \<Rightarrow> False
      | Inr c \<Rightarrow> engine_settings (\<lambda>v. ''7'') c None = Inr [(''password'', C_Secret ''7''), (''db'', C_Int 1)]"
    by code_simp
  then obtain c where c: "sample_config = Inr c"
    and engine: "engine_settings (\<lambda>v. ''7'') c None = Inr [(''password'', C_Secret ''7''), (''db'', C_Int 1)]"
    by (auto split: sum.splits)
  have "plain_config config_sample" by code_simp
  from config_roundtrip [OF c [unfolded sample_config_def] this] engine show ?thesis unfolding c by simp
qed


text \<open>Two passwords, one of them in a list of servers, and two URLs whose users differ.\<close>

definition clean_user :: "string \<Rightarrow> string" where
  "clean_user s = redact_url (\<lambda>t. if t \<in> {''redis://a:b@h'', ''redis://c@h''}
     then Inr \<lparr>up_scheme = ''redis'', up_hostname = Some ''h'', up_username = Some ''a'', up_port = Inr None, up_path = [],
               up_query = [], up_fragment = []\<rparr>
     else Inr \<lparr>up_scheme = [], up_hostname = None, up_username = None, up_port = Inr None, up_path = t, up_query = [], up_fragment = []\<rparr>) s"

definition secretive :: "string \<Rightarrow> config_value \<Rightarrow> config_map" where
  "secretive url password =
     [(''engines'', C_Map [(''redis'', C_Map [(''url'', C_Str url), (''servers'', C_List [C_Map [(''auth.token'', password)]])])])]"



definition tuned :: broker_config where
  "tuned =
     \<lparr>bc_engine = Some ''memory'', bc_engines = [], bc_serialization = default_serialization,
      bc_reliability = [(''publish_retry'', C_Map [(''max_attempts'', C_Str ''1_0''), (''max_elapsed_time'', C_Float (Fin 25)),
          (''backoff'', C_Map [(''strategy'', C_Str ''Equal-Jitter''), (''maximum'', C_Float (Fin 9))])]),
        (''circuit_breaker'', C_Map [(''failure_rate_threshold'', C_Float (Fin (1 / 2)))])],
      bc_middleware = [], bc_routing = [], bc_lifecycle = [], bc_source = None, bc_memory_fallback = False, bc_extra = []\<rparr>"


text \<open>
  An engine named like a secret loses its section; a configuration with a secret under a plain key shows it after an override; a
  later layer's \<open>default_engine\<close> does not replace an earlier layer's \<open>engine\<close>; a retry policy that is no mapping is ignored; a malformed number of
  a backoff is not a \<open>ConfigurationError\<close>; a recovery time that is not a number is accepted, and such a circuit probes at once.
\<close>

lemma engine_named_like_secret:
  "(case from_mapping (\<lambda>v. ''{}'') [(''engines'', C_Map [(''token-bus'', C_Map [])])] of
      Inl e \<Rightarrow> False | Inr c \<Rightarrow> engine_settings (\<lambda>v. ''{}'') c (Some ''token-bus'') = raise ConfigurationError)"
  by code_simp

lemma overrides_unmask_secret:
  "(case from_mapping (\<lambda>v. []) [(''routing'', C_Map [(''dsn'', C_Secret ''s3cret'')])] of
      Inl e \<Rightarrow> False
    | Inr c \<Rightarrow> bc_routing c = [(''dsn'', C_Secret ''s3cret'')] \<and> dict_get (config_dict id False c) ''routing'' = Some (C_Map [(''dsn'', C_Str ''********'')])
        \<and> (case with_overrides (\<lambda>v. []) id c [] of
             Inl e \<Rightarrow> False
           | Inr d \<Rightarrow> dict_get (config_dict id False d) ''routing'' = Some (C_Map [(''dsn'', C_Str ''s3cret'')])))"
  by code_simp

lemma default_engine_loses:
  "(case from_mapping (\<lambda>v. []) (deep_merge [[(''engine'', C_Str ''memory'')], [(''default_engine'', C_Str ''redis'')]]) of
      Inl e \<Rightarrow> False | Inr c \<Rightarrow> bc_engine c = Some ''memory'')"
  by code_simp

lemma retry_section_ignored:
  "(case retry_policy_of (\<lambda>v. []) middle_source (C_Int 7) ''publish'' 3 of Inl e \<Rightarrow> False | Inr s \<Rightarrow> rs_max_attempts s = 3)"
  by code_simp

lemma backoff_errors_escape:
  "(case backoff_of (\<lambda>v. []) middle_source (C_Map [(''initial'', C_Str ''soon'')]) of Inl e \<Rightarrow> e = PyExc ValueError False | Inr b \<Rightarrow> False)"
  "(case backoff_of (\<lambda>v. []) middle_source (C_Map [(''initial'', C_None)]) of Inl e \<Rightarrow> e = PyExc TypeError False | Inr b \<Rightarrow> False)"
  "(case backoff_of (\<lambda>v. []) middle_source (C_Str ''soon'') of Inl e \<Rightarrow> e = PyExc ConfigurationError False | Inr b \<Rightarrow> False)"
  by code_simp+

lemma nan_recovery_accepted:
  "(case circuit_config_of (C_Map [(''recovery_timeout'', C_Str ''NaN'')]) of
      Inl e \<Rightarrow> False | Inr c \<Rightarrow> ct_recovery_timeout c = NaN)"
  by code_simp

end
