(* ===== verification/Wire.thy ===== *)
theory Wire
  imports Serializers Settings
begin

text \<open>
  The frames of \<open>broker.py\<close> (\<open>_encode_wire\<close>, \<open>_decode_wire\<close>, \<open>_serializer\<close>): a magic, the length of the serializer's name, the
  name, and what the serializer made of the envelope's mapping. Bytes are characters. A payload without the magic is read as the JSON
  of an envelope, by the codec \<open>loads\<close>.
\<close>

definition wire_magic :: string where
  "wire_magic = ''PYEV'' @ [CHR 0x01]"

definition is_ascii :: "string \<Rightarrow> bool" where
  "is_ascii s \<longleftrightarrow> list_all (\<lambda>c. of_char c < (128 :: nat)) s"

text \<open>The context of the encoding is not used by any serializer here. A name that is not ASCII is a \<open>UnicodeEncodeError\<close>.\<close>

definition encode_wire :: "envelope \<Rightarrow> serializer \<Rightarrow> string result" where
  "encode_wire e s =
     (case sz_name s of
        None \<Rightarrow> raise TypeError
      | Some name \<Rightarrow>
          if \<not> is_ascii name then raise ValueError
          else if length name = 0 \<or> 255 < length name then raise SerializationError
          else (let (h, v) = python_value (JObj (to_dict e)) in
                bindr (sz_encode s h v) (\<lambda>encoded. Inr (wire_magic @ [char_of (length name)] @ name @ encoded))))"

definition broker_serializer :: "serialization_settings \<Rightarrow> serializer_registry \<Rightarrow> string option \<Rightarrow> serializer result" where
  "broker_serializer settings r requested =
     (let name = (case requested of None \<Rightarrow> ss_default settings | Some n \<Rightarrow> if n = [] then ss_default settings else n) in
      if name \<notin> set (ss_allowed settings) then raise SerializationError else get_serializer r name)"

definition max_envelope_bytes :: "serialization_settings \<Rightarrow> int result" where
  "max_envelope_bytes settings = as_int (get_or (ss_options settings) ''max_envelope_bytes'' (C_Int (16 * 1024 * 1024)))"

text \<open>The frame after its magic: the name of the serializer and the encoded envelope.\<close>

definition read_frame :: "serialization_settings \<Rightarrow> string \<Rightarrow> (string \<times> string) result" where
  "read_frame settings rest =
     (case rest of
        [] \<Rightarrow> raise SerializationError
      | len # body \<Rightarrow>
          (let n = of_char len :: nat in
           if n = 0 \<or> length body < n then raise SerializationError
           else if \<not> is_ascii (take n body) then raise SerializationError
           else if take n body \<notin> set (ss_allowed settings) then raise SerializationError
           else Inr (take n body, drop n body)))"

definition decode_wire ::
  "serialization_settings \<Rightarrow> serializer_registry \<Rightarrow> (string \<Rightarrow> (heap \<times> pyvalue) result) \<Rightarrow> iso_formats \<Rightarrow> string \<Rightarrow> envelope result"
where
  "decode_wire settings r loads other payload =
     bindr (max_envelope_bytes settings) (\<lambda>max_size.
       if max_size < int (length payload) then raise SerializationError
       else if take (length wire_magic) payload \<noteq> wire_magic then from_bytes loads other max_size payload
       else bindr (read_frame settings (drop (length wire_magic) payload)) (\<lambda>(name, encoded).
         bindr (new_decode_context False max_size) (\<lambda>ctx.
         bindr (registry_decode r (Some name) None ctx encoded) (\<lambda>(h, v).
           if mapping_items h v = None then raise SerializationError else from_dict h other v))))"

subsection \<open>Frames\<close>

lemma read_frame_written:
  assumes "is_ascii name" and "name \<noteq> []" and "length name \<le> 255" and "name \<in> set (ss_allowed settings)"
  shows "read_frame settings (char_of (length name) # name @ encoded) = Inr (name, encoded)"
proof -
  have "of_char (char_of (length name) :: char) = length name"
    using assms(3) by (simp add: of_char_of)
  with assms show ?thesis by (simp add: read_frame_def Let_def)
qed

lemma decode_frame:
  assumes frame: "encode_wire e s = Inr payload"
    and s: "sz_name s = Some name" "dict_get (sr_serializers r) (normalize_name name) = Some s" "name \<in> set (ss_allowed settings)"
    and size: "max_envelope_bytes settings = Inr max_size" "int (length payload) \<le> max_size"
    and decoded: "\<And>encoded. sz_encode s (fst (python_value (JObj (to_dict e)))) (snd (python_value (JObj (to_dict e)))) = Inr encoded \<Longrightarrow>
       int (length encoded) \<le> max_size \<Longrightarrow> sz_decode s \<lparr>dc_trusted = False, dc_max_size = max_size\<rparr> encoded = Inr (h, v)"
  shows "decode_wire settings r loads other payload
    = (if mapping_items h v = None then raise SerializationError else from_dict h other v)"
proof -
  from frame s(1) obtain encoded where name: "is_ascii name" "name \<noteq> []" "length name \<le> 255"
    and run: "sz_encode s (fst (python_value (JObj (to_dict e)))) (snd (python_value (JObj (to_dict e)))) = Inr encoded"
    and payload: "payload = wire_magic @ char_of (length name) # name @ encoded"
    by (auto simp: encode_wire_def bindr_eq_Inr split: if_splits prod.splits)
  have "\<not> max_size < 1" and small: "int (length encoded) \<le> max_size" using size(2) by (simp_all add: payload wire_magic_def)
  then show ?thesis
    using size decoded [OF run small] s read_frame_written [OF name s(3), of encoded]
    by (simp add: decode_wire_def payload new_decode_context_def registry_decode_def resolve_serializer_def get_serializer_def)
qed

lemma json_within_leaf: "json_within (Suc n) (JStr s)" "json_within (Suc n) (JInt i)" "json_within (Suc n) (wire_option x)"
  by (simp_all add: wire_option_def split: option.split)

lemma to_dict_within:
  assumes "envelope_ok e"
  shows "json_within 66 (JObj (to_dict e))"
proof -
  have "json_within (Suc 64) (JObj (map (\<lambda>(k, v). (k, JStr v)) (en_headers e)))"
    unfolding json_within.simps using assms json_within_leaf(1) [of 63] by (auto simp: envelope_ok_iff dict_ok_def list_all_iff comp_def case_prod_beta)
  moreover have "json_within (Suc 64) (JObj (en_payload e))" "json_within (Suc 64) (JObj (en_trace e))"
    using assms by (simp_all add: envelope_ok_iff del: json_within.simps)
  moreover have "json_within (Suc 64) (case en_expires_at e of None \<Rightarrow> JNull | Some t \<Rightarrow> JStr (datetime_to_wire t))"
    by (cases "en_expires_at e") (simp_all only: option.case json_within.simps kind_ok.simps)
  ultimately have "kind_ok (json_within (Suc 64)) (JObj (to_dict e))"
    using json_within_leaf [of 64] by (simp add: to_dict_def del: json_within.simps)
  then have "json_within (Suc (Suc 64)) (JObj (to_dict e))" by (simp only: json_within.simps)
  then show ?thesis by simp
qed

text \<open>
  C39: what the broker writes, it reads. A frame of a well-formed envelope, made by the JSON serializer that is registered and allowed, and within the
  size limit, is decoded to that envelope, with the keys of its payload, trace and headers in order, when the JSON parser reads
  back what the printer wrote.
\<close>

theorem wire_roundtrip:
  assumes "envelope_ok e" and "encode_wire e (json_serializer i dumps loads True) = Inr payload"
    and "get_serializer r ''json'' = Inr (json_serializer i dumps loads True)" and "''json'' \<in> set (ss_allowed settings)"
    and "max_envelope_bytes settings = Inr max_size" and "int (length payload) \<le> max_size"
    and "dumps (sort_json (JObj (to_dict e))) = Inr text" and "loads text = Inr (h, v)"
    and "holds h n [] v (sort_json (JObj (to_dict e)))"
  shows "decode_wire settings r loads' other payload = Inr (sorted_envelope e)"
proof -
  let ?s = "json_serializer i dumps loads True"
  have name: "sz_name ?s = Some ''json''" by (simp add: json_serializer_def)
  have registered: "dict_get (sr_serializers r) (normalize_name ''json'') = Some ?s"
    using assms(3) by (simp add: get_serializer_def split: option.splits)
  have data: "j = JObj (to_dict e)"
    if "to_json_value (fst (python_value (JObj (to_dict e)))) default_max_depth (snd (python_value (JObj (to_dict e)))) = Inr j" for j
  proof -
    from that show ?thesis unfolding to_json_value_plain [OF to_dict_within [OF assms(1)]] by (simp split: if_splits)
  qed
  have decoded: "sz_decode ?s \<lparr>dc_trusted = False, dc_max_size = max_size\<rparr> encoded = Inr (h, v)"
    if "sz_encode ?s (fst (python_value (JObj (to_dict e)))) (snd (python_value (JObj (to_dict e)))) = Inr encoded"
      "int (length encoded) \<le> max_size" for encoded
  proof -
    from that(1) data have "dumps (sort_json (JObj (to_dict e))) = Inr encoded"
      by (fastforce simp: json_serializer_def json_encode_def serialization_failure_def bindr_eq_Inr split: sum.splits if_splits)
    with assms(7) have "encoded = text" by simp
    with that(2) show ?thesis using assms(8) by (simp add: json_serializer_def json_decode_def serialization_failure_def)
  qed
  have "dict_ok (en_headers e)" using assms(1) by (simp add: envelope_ok_iff)
  note read = from_dict_holds [OF sorted_envelope_ok [OF assms(1)] assms(9) [unfolded sorted_to_dict(1)] sorted_to_dict(2)]
  from decode_frame [OF assms(2) name registered assms(4-6) decoded] read show ?thesis by simp
qed

definition sample_settings :: serialization_settings where
  "sample_settings = \<lparr>ss_default = ''json'', ss_allowed = [''json''], ss_options = []\<rparr>"

definition sample_json :: serializer where
  "sample_json = json_serializer 1 (\<lambda>_. Inr ''{}'') (\<lambda>_. Inr (sorted_heap, PV_Ref 0)) True"

theorem wire_roundtrip_witness:
  "encode_wire sample_envelope sample_json = Inr (wire_magic @ [CHR 0x04] @ ''json{}'')
   \<and> decode_wire sample_settings \<lparr>sr_serializers = [(''json'', sample_json)], sr_content_types = [], sr_default = None\<rparr>
       (\<lambda>_. raise ValueError) (\<lambda>_. None) (wire_magic @ [CHR 0x04] @ ''json{}'') = Inr sample_envelope"
proof -
  let ?payload = "wire_magic @ [CHR 0x04] @ ''json{}''"
  have frame: "encode_wire sample_envelope sample_json = Inr ?payload" by code_simp
  have size: "max_envelope_bytes sample_settings = Inr 16777216" by code_simp
  have "normalize_name ''json'' = ''json''" by code_simp
  then have registered: "get_serializer \<lparr>sr_serializers = [(''json'', sample_json)], sr_content_types = [], sr_default = None\<rparr> ''json''
      = Inr sample_json"
    by (simp add: get_serializer_def)
  have "sorted_envelope sample_envelope = sample_envelope" by code_simp
  moreover have "decode_wire sample_settings \<lparr>sr_serializers = [(''json'', sample_json)], sr_content_types = [], sr_default = None\<rparr>
       (\<lambda>_. raise ValueError) (\<lambda>_. None) ?payload = Inr (sorted_envelope sample_envelope)"
    by (rule wire_roundtrip [OF sample_envelope_ok frame [unfolded sample_json_def] registered [unfolded sample_json_def] _ size _ _ _ sorted_heap_holds,
          unfolded sample_json_def [symmetric]])
      (simp_all add: sample_settings_def wire_magic_def)
  ultimately show ?thesis using frame by simp
qed

text \<open>
  C40: bytes from the wire are never unpickled. When the Pickle serializer is registered, enabled and even allowed, every frame that names
  it is refused before its codec sees a byte.
\<close>

theorem wire_never_unpickles:
  assumes "get_serializer r ''pickle'' = Inr (pickle_serializer i True wrapped dumps unpickle)" and "''pickle'' \<in> set (ss_allowed settings)"
    and "max_envelope_bytes settings = Inr max_size" and "int (length payload) \<le> max_size"
    and "payload = wire_magic @ [CHR 0x06] @ ''pickle'' @ bytes"
  shows "decode_wire settings r loads other payload = raise UnsafeSerializationError"
proof -
  have len: "char_of (length ''pickle'') = CHR 0x06" by code_simp
  have "read_frame settings (drop (length wire_magic) payload) = Inr (''pickle'', bytes)"
    using read_frame_written [of "''pickle''" settings bytes, unfolded len] assms(2,5) by (simp add: is_ascii_def)
  moreover have "\<not> max_size < 1" using assms(4,5) by (simp add: wire_magic_def)
  moreover have "take (length wire_magic) payload = wire_magic" using assms(5) by simp
  ultimately show ?thesis
    using assms(1,3,4)
    by (simp add: decode_wire_def new_decode_context_def registry_decode_def resolve_serializer_def pickle_serializer_def
        pickle_decode_def ensure_enabled_def)
qed

theorem wire_never_unpickles_witness:
  "decode_wire (sample_settings\<lparr>ss_allowed := [''json'', ''pickle'']\<rparr>)
     \<lparr>sr_serializers = [(''pickle'', pickle_serializer 1 True (\<lambda>_. True) (\<lambda>h v. Inr []) (\<lambda>_. Inr (sorted_heap, PV_Ref 0)))],
      sr_content_types = [], sr_default = None\<rparr>
     (\<lambda>_. raise ValueError) (\<lambda>_. None) (wire_magic @ [CHR 0x06] @ ''pickle'' @ ''x'') = raise UnsafeSerializationError"
proof -
  have "normalize_name ''pickle'' = ''pickle''" by code_simp
  then have registered: "get_serializer \<lparr>sr_serializers = [(''pickle'', pickle_serializer 1 True (\<lambda>_. True) (\<lambda>h v. Inr [])
        (\<lambda>_. Inr (sorted_heap, PV_Ref 0)))], sr_content_types = [], sr_default = None\<rparr> ''pickle''
      = Inr (pickle_serializer 1 True (\<lambda>_. True) (\<lambda>h v. Inr []) (\<lambda>_. Inr (sorted_heap, PV_Ref 0)))"
    by (simp add: get_serializer_def)
  have size: "max_envelope_bytes (sample_settings\<lparr>ss_allowed := [''json'', ''pickle'']\<rparr>) = Inr 16777216" by code_simp
  show ?thesis
    by (rule wire_never_unpickles [OF registered _ size _ refl]) (simp_all add: sample_settings_def wire_magic_def)
qed

text \<open>
  A payload as deep as an envelope may hold cannot be encoded: in the mapping it is one level deeper, and \<open>to_json_value\<close> counts that one too.
\<close>

definition deep_envelope :: "nat \<Rightarrow> envelope" where
  "deep_envelope n = sample_envelope\<lparr>en_payload := [(''x'', ((\<lambda>j. JArr [j]) ^^ n) JNull)]\<rparr>"

lemma deepest_payload_unsendable:
  "envelope_ok (deep_envelope 63) \<and> encode_wire (deep_envelope 63) sample_json = raise SerializationError"
proof
  show ok: "envelope_ok (deep_envelope 63)" by code_simp
  have "\<not> json_within 65 (JObj (to_dict (deep_envelope 63)))" by code_simp
  with to_json_value_plain [OF to_dict_within [OF ok]]
  have "to_json_value (fst (python_value (JObj (to_dict (deep_envelope 63))))) default_max_depth
      (snd (python_value (JObj (to_dict (deep_envelope 63))))) = raise MessageValidationError"
    by (simp only: if_False)
  then show "encode_wire (deep_envelope 63) sample_json = raise SerializationError"
    by (simp add: encode_wire_def sample_json_def json_serializer_def is_ascii_def json_encode_def serialization_failure_def case_prod_beta)
qed

text \<open>The registry ignores the case of names but the allowlist does not, so a frame of a serializer whose name has capitals is refused.\<close>

lemma capital_name_unreadable:
  "is_ok (broker_serializer sample_settings \<lparr>sr_serializers = [(''json'', sample_json\<lparr>sz_name := Some ''JSON''\<rparr>)], sr_content_types = [], sr_default = None\<rparr> None)"
  "encode_wire sample_envelope (sample_json\<lparr>sz_name := Some ''JSON''\<rparr>) = Inr (wire_magic @ [CHR 0x04] @ ''JSON{}'')"
  "decode_wire sample_settings \<lparr>sr_serializers = [(''json'', sample_json\<lparr>sz_name := Some ''JSON''\<rparr>)], sr_content_types = [], sr_default = None\<rparr>
     (\<lambda>_. raise ValueError) (\<lambda>_. None) (wire_magic @ [CHR 0x04] @ ''JSON{}'') = raise SerializationError"
  by code_simp+

end
