(* ===== verification/Spec2Isabelle.thy ===== *)
theory Spec2Isabelle
  imports Routers InProcess Backoff Retry Circuit Idempotency Outbox DeadLetter Replay Middleware Memory Local
    Lifecycle Subscribing Consume EventTypes Wire
begin

text \<open>
  A model of \<open>broka\<close>, an asynchronous message broker facade for Python (\<open>src/src/broka\<close>), with the properties that make
  its parts correct. The language is modelled as follows. A coroutine is an \<open>action\<close>: a function of the world that returns a
  result, an error or a value, and the world after it; what the code does between two awaits is one step. An exception is its
  class and its \<open>retryable\<close> flag (theory \<open>Exceptions\<close>); \<open>except Exception\<close> does not catch cancellation and exits, and every
  model keeps that difference. Dictionaries are association lists with distinct keys in insertion order; integers are unbounded;
  floats are rationals, with infinities and NaN where the code meets them (\<open>Floats\<close>); datetimes are instants where only
  their order matters and calendar fields where they are written or read (\<open>Datetimes\<close>).

  What the sources only call is a parameter: the application's handlers, listeners and restore callbacks, engines other than
  the two in-process ones, clocks, random samplers, the publisher of the outbox and of replays, serializers, and the JSON text codec.

  The parts, each with its theory, its sources and what is shown.

  Messages. \<open>Payloads\<close> (\<open>message.py\<close>) converts Python values over a heap to JSON data; the recursion runs on the nesting bound of
  the code, so cyclic values are covered. \<open>Envelopes\<close> (\<open>envelope.py\<close>) validates, expires, writes and reads the wire
  envelope. \<open>EventTypes\<close> (\<open>event.py\<close>) is the registry of event classes with its upcasters; the upcasting loop is a partial
  function whose termination is proved for every reachable registry. Shown: conversion is total and typed, wire round trips, exact expiry across
  time zones, exact upcasting, and that an event comes back as the class it was published as.

  Routing. \<open>Glob\<close> (\<open>fnmatch\<close>), \<open>Routing\<close> (\<open>routing/models.py\<close>, \<open>matching.py\<close>), \<open>Routers\<close> (\<open>routing/router.py\<close>) and \<open>Middleware\<close>
  (\<open>middleware/pipeline.py\<close>). Both registries keep entries in rank order; the locale \<open>ranked_registry\<close> of \<open>Ranking\<close> states
  that contract once and is interpreted on handlers, destination rules and middleware layers. Shown: what a pattern matches, which
  handlers are selected and in which order they run, and that a pipeline is the composition of its layers.

  Deliveries. \<open>Acknowledgements\<close> and \<open>Deliveries\<close> (\<open>acknowledgements.py\<close>, \<open>delivery.py\<close>) are the state machine of one message; \<open>InProcess\<close>
  (\<open>engines/_inprocess.py\<close>) is the acknowledgement object of the in-process engines. The locale \<open>settling_adapter\<close> states what a delivery
  needs of a transport; it is interpreted on the in-process adapter and, in \<open>Consume\<close>, on the broker's own view of it. Shown: the transition
  table is followed, a delivery moves only when the transport agreed, and a settled one never calls it again.

  Reliability. \<open>Backoff\<close>, \<open>Retry\<close>, \<open>Circuit\<close>, \<open>Idempotency\<close>, \<open>Outbox\<close> (\<open>reliability/\<close>), \<open>DeadLetter\<close> and \<open>Replay\<close> (\<open>deadletter/\<close>).
  The retry loop recurses on the attempts that are left; \<open>retry_loop_rule\<close> and \<open>retry_run_rule\<close> are its Hoare rules, which \<open>Connection\<close> and
  \<open>Consume\<close> use. The locales \<open>capped_backoff\<close>, \<open>outbox_contract\<close> and \<open>dead_letter_contract\<close> state what callers rely on and are
  interpreted on the strategies and on the in-memory stores. Shown: delays stay in their envelope, attempts are bounded, the run computes
  the first decisive outcome, the circuit opens and probes exactly as specified, claims are exclusive, leases are exact, dispatch settles
  every leased message, and replay is capped.

  Engines. \<open>Memory\<close> (\<open>engines/memory.py\<close>) is a transition system over all interleavings of publishers, workers and a closing task; \<open>Local\<close>
  (\<open>engines/local.py\<close>) delivers in the publisher's own task, by a partial function, since a handler may requeue for ever. Shown: no
  message is lost or duplicated, a jam is the only obstacle to progress, and what a publish does.

  Orchestration. \<open>Supervisor\<close> and \<open>Lifecycle\<close> (\<open>lifecycle.py\<close>), \<open>Connection\<close> (\<open>connection.py\<close>), \<open>Subscriptions\<close> (\<open>subscription.py\<close>),
  \<open>Subscribing\<close> and \<open>Consume\<close> (\<open>broker.py\<close>). Tasks are steps from await to await in any order. The locale \<open>consumer_control\<close> states what a
  subscription handle needs of its controller and is interpreted on the broker over the local engine. Shown: restarts are bounded,
  components are stopped in reverse order and never leak, a reconnection restores everything or nothing, the handle tracks
  its consumer, and a consumed message is always settled with its transport.

  Some lemmas state behaviour that the authors may not intend: they are named in the text before them, such as
  \<open>memory_progress_witness\<close>, \<open>run_reopens_closed_connection\<close>, \<open>wildcard_subscribe_fails_with_rules\<close> or \<open>none_mode_failure_raises\<close>.

  Not modelled: the Redis, RabbitMQ and Kafka engines, which are sequences of calls of third-party clients; the Django, Celery and ASGI
  integrations; metrics, tracing and logging, which no modelled part reads; the helpers for tests; plugin discovery; and the texts and
  contexts of errors.
\<close>

end
